(* ===== verification/Jsnum.thy ===== *)
theory Jsnum
  imports Complex_Main
begin

text \<open>
  The numbers of the program. A JavaScript number is an IEEE binary64 value; a finite one is
  a rational with a 53 bit significand, so it is modelled as a \<open>rat\<close>, and every
  arithmetic operation of the source is followed by \<open>fl\<close>, the rounding to the nearest
  such rational, ties to the even significand. What is left out is the exponent range (no
  subnormals, no overflow to Infinity): the amounts here are SOL, lamports, milliseconds and
  basis points, all between \<open>1e-18\<close> and \<open>1e24\<close>. A bigint is an \<open>int\<close>.
  The lemmas show what the proofs about money need: \<open>fl\<close> is monotone, exact on the
  integers up to \<open>2^53\<close>, odd, idempotent, and never off by more than one part in
  \<open>2^53\<close>.
\<close>

type_synonym number = rat

section \<open>Rounding to the nearest binary64 value\<close>

definition pow2 :: "int \<Rightarrow> rat" where
  "pow2 e = (if 0 \<le> e then 2 ^ nat e else 1 / 2 ^ nat (- e))"

text \<open>The integer nearest to a rational, ties to even.\<close>

definition rne :: "rat \<Rightarrow> int" where
  "rne x = (let f = \<lfloor>x\<rfloor>; r = x - of_int f in
     if r < 1 / 2 then f else if 1 / 2 < r then f + 1 else if even f then f else f + 1)"

text \<open>The number of binary digits of a positive integer.\<close>

function bits :: "int \<Rightarrow> int" where
  "bits n = (if n \<le> 0 then 0 else 1 + bits (n div 2))"
  by pat_completeness auto
termination
  by (relation "measure nat") auto

declare bits.simps [simp del]

text \<open>The binary exponent of a positive rational: \<open>pow2 (expo q) \<le> q < pow2 (expo q + 1)\<close>.\<close>

definition expo :: "rat \<Rightarrow> int" where
  "expo q = (case quotient_of q of (n, d) \<Rightarrow>
     let e = bits n - bits d
     in if pow2 e \<le> q then e else e - 1)"

definition fl :: "rat \<Rightarrow> number" where
  "fl q = (if q = 0 then 0
     else let e = expo \<bar>q\<bar> - 52 in of_int (rne (q / pow2 e)) * pow2 e)"

section \<open>The operations of the source\<close>

definition fadd :: "number \<Rightarrow> number \<Rightarrow> number" where "fadd a b = fl (a + b)"
definition fsub :: "number \<Rightarrow> number \<Rightarrow> number" where "fsub a b = fl (a - b)"
definition fmul :: "number \<Rightarrow> number \<Rightarrow> number" where "fmul a b = fl (a * b)"
definition fdiv :: "number \<Rightarrow> number \<Rightarrow> number" where "fdiv a b = fl (a / b)"

text \<open>\<open>Math.round\<close> (exact in ECMAScript, ties towards plus infinity), \<open>Math.floor\<close>,
  \<open>Math.ceil\<close>; \<open>Number(b)\<close> of a bigint.\<close>

definition js_round :: "number \<Rightarrow> int" where "js_round x = \<lfloor>x + 1 / 2\<rfloor>"
definition js_floor :: "number \<Rightarrow> int" where "js_floor x = \<lfloor>x\<rfloor>"
definition js_ceil :: "number \<Rightarrow> int" where "js_ceil x = \<lceil>x\<rceil>"
definition to_number :: "int \<Rightarrow> number" where "to_number n = fl (of_int n)"

text \<open>\<open>Math.round(v * 1e9) / 1e9\<close>, the program's rounding to a lamport, written once in
  each file that needs it.\<close>

definition round9 :: "number \<Rightarrow> number" where
  "round9 v = fdiv (of_int (js_round (fmul v 1000000000))) 1000000000"

text \<open>The amount of lamports \<open>BigInt(Math.round(x * 1e9))\<close>.\<close>

definition lamports_of :: "number \<Rightarrow> int" where
  "lamports_of x = js_round (fmul x 1000000000)"

definition is_double :: "rat \<Rightarrow> bool" where "is_double x \<longleftrightarrow> fl x = x"

section \<open>Powers of two\<close>

lemma pow2_pos [simp]: "0 < pow2 e"
  by (simp add: pow2_def)

lemma pow2_nz [simp]: "pow2 e \<noteq> 0"
  using pow2_pos [of e] by (metis less_irrefl)

lemma pow2_powi: "pow2 e = 2 powi e"
  by (simp add: pow2_def power_int_def power_inverse field_simps)

lemma pow2_add: "pow2 (a + b) = pow2 a * pow2 b"
  by (simp add: pow2_powi power_int_add)

lemma pow2_mono: "a \<le> b \<Longrightarrow> pow2 a \<le> pow2 b"
  by (simp add: pow2_powi power_int_increasing)

lemma pow2_less_iff: "pow2 a < pow2 b \<longleftrightarrow> a < b"
  by (metis linorder_not_le order_less_le pow2_mono pow2_powi power_int_strict_increasing
      one_less_numeral_iff semiring_norm(76))

lemma pow2_52: "pow2 52 = 4503599627370496"
  by (simp add: pow2_def)

lemma pow2_53: "pow2 53 = 9007199254740992"
  by (simp add: pow2_def)

lemma pow2_nat: "0 \<le> e \<Longrightarrow> pow2 e = of_int (2 ^ nat e)"
  by (simp add: pow2_def)

lemma pow2_diff: "pow2 (a - b) = pow2 a / pow2 b"
  by (metis diff_add_cancel nonzero_mult_div_cancel_right pow2_add pow2_nz)

section \<open>The nearest integer\<close>

lemma rne_of_int [simp]: "rne (of_int n) = n"
  by (simp add: rne_def)

lemma rne_bounds: "of_int (rne x) - 1 / 2 \<le> x \<and> x \<le> of_int (rne x) + 1 / 2"
proof -
  have "of_int \<lfloor>x\<rfloor> \<le> x" "x < of_int \<lfloor>x\<rfloor> + 1" by linarith+
  then show ?thesis by (auto simp: rne_def Let_def) linarith
qed

lemma rne_mono: "x \<le> y \<Longrightarrow> rne x \<le> rne y"
proof -
  assume le: "x \<le> y"
  have fx: "of_int \<lfloor>x\<rfloor> \<le> x" "x < of_int \<lfloor>x\<rfloor> + 1" and fy: "of_int \<lfloor>y\<rfloor> \<le> y" "y < of_int \<lfloor>y\<rfloor> + 1"
    by linarith+
  have "\<lfloor>x\<rfloor> \<le> \<lfloor>y\<rfloor>" using le by (rule floor_mono)
  then consider "\<lfloor>x\<rfloor> = \<lfloor>y\<rfloor>" | "\<lfloor>x\<rfloor> + 1 \<le> \<lfloor>y\<rfloor>" by linarith
  then show "rne x \<le> rne y"
  proof cases
    case 1
    then show ?thesis using le by (auto simp: rne_def Let_def)
  next
    case 2
    have "rne x \<le> \<lfloor>x\<rfloor> + 1" "\<lfloor>y\<rfloor> \<le> rne y" by (auto simp: rne_def Let_def)
    with 2 show ?thesis by linarith
  qed
qed

lemma rne_neg: "rne (- x) = - rne x"
proof (cases "x = of_int \<lfloor>x\<rfloor>")
  case True
  then show ?thesis by (metis of_int_minus rne_of_int)
next
  case False
  then have "\<lfloor>- x\<rfloor> = - \<lfloor>x\<rfloor> - 1"
    by (metis ceiling_altdef ceiling_def minus_minus add_uminus_conv_diff minus_add_distrib)
  then show ?thesis by (auto simp: rne_def Let_def)
qed

section \<open>The binary exponent\<close>

lemma bits_nonneg: "0 \<le> bits n"
proof (induction n rule: bits.induct)
  case (1 n)
  then show ?case by (cases "n \<le> 0") (simp_all add: bits.simps [of n])
qed

lemma bits_bounds: "0 < n \<Longrightarrow> pow2 (bits n - 1) \<le> of_int n \<and> of_int n < pow2 (bits n)"
proof (induction n rule: bits.induct)
  case (1 n)
  show ?case
  proof (cases "n = 1")
    case True
    then show ?thesis by (simp add: bits.simps [of 1] bits.simps [of 0] pow2_def)
  next
    case False
    with 1 have h: "pow2 (bits (n div 2) - 1) \<le> of_int (n div 2)" "of_int (n div 2) < pow2 (bits (n div 2))"
      by auto
    let ?h = "n div 2"
    have b: "bits n = 1 + bits ?h" using 1 by (simp add: bits.simps [of n])
    have two: "pow2 (bits n - 1) = 2 * pow2 (bits ?h - 1)" "pow2 (bits n) = 2 * pow2 (bits ?h)"
      using pow2_add [of 1 "bits ?h - 1"] pow2_add [of 1 "bits ?h"] b by (simp_all add: pow2_def [of 1])
    have "of_int ?h < (of_int (2 ^ nat (bits ?h)) :: rat)"
      using h(2) pow2_nat [OF bits_nonneg [of ?h]] by simp
    then have "?h < 2 ^ nat (bits ?h)" by (simp only: of_int_less_iff)
    then have "n < 2 * 2 ^ nat (bits ?h)" by linarith
    then have "(of_int n :: rat) < of_int (2 * 2 ^ nat (bits ?h))" by (simp only: of_int_less_iff)
    then have u: "of_int n < pow2 (bits n)"
      unfolding two(2) using pow2_nat [OF bits_nonneg [of ?h]] by simp
    have "2 * ?h \<le> n" by linarith
    then have "(of_int (2 * ?h) :: rat) \<le> of_int n" by (simp only: of_int_le_iff)
    with h(1) u two(1) show ?thesis by simp
  qed
qed

lemma expo_bounds:
  assumes "0 < q"
  shows "pow2 (expo q) \<le> q" and "q < pow2 (expo q + 1)"
proof -
  obtain n d where nd: "quotient_of q = (n, d)" by (cases "quotient_of q")
  then have q: "q = of_int n / of_int d" and d: "0 < d"
    by (simp_all add: quotient_of_div quotient_of_denom_pos)
  with assms have n: "0 < n" by (simp add: zero_less_divide_iff)
  let ?a = "bits n" and ?b = "bits d"
  have "q < pow2 ?a / of_int d" "pow2 (?a - 1) / of_int d \<le> q"
    unfolding q using bits_bounds [OF n] d by (simp_all add: divide_strict_right_mono divide_right_mono)
  moreover have "pow2 ?a / of_int d \<le> pow2 ?a / pow2 (?b - 1)"
    "pow2 (?a - 1) / pow2 ?b \<le> pow2 (?a - 1) / of_int d"
    using bits_bounds [OF d] d
    by (auto intro!: divide_left_mono simp: less_imp_le)
  ultimately have "q < pow2 (?a - ?b + 1)" "pow2 (?a - ?b - 1) \<le> q"
    using pow2_diff [of ?a "?b - 1"] pow2_diff [of "?a - 1" ?b] by (simp_all add: algebra_simps)
  then show "pow2 (expo q) \<le> q" "q < pow2 (expo q + 1)"
    by (auto simp: expo_def nd Let_def)
qed

lemma expo_unique: "pow2 e \<le> q \<Longrightarrow> q < pow2 (e + 1) \<Longrightarrow> expo q = e"
proof -
  assume a: "pow2 e \<le> q" "q < pow2 (e + 1)"
  then have "0 < q" using pow2_pos [of e] by linarith
  note b = expo_bounds [OF this]
  have "pow2 e < pow2 (expo q + 1)" "pow2 (expo q) < pow2 (e + 1)" using a b by linarith+
  then show "expo q = e" by (simp add: pow2_less_iff)
qed

lemma expo_mono: "0 < x \<Longrightarrow> x \<le> y \<Longrightarrow> expo x \<le> expo y"
proof -
  assume a: "0 < x" "x \<le> y"
  then have "pow2 (expo x) < pow2 (expo y + 1)"
    using expo_bounds(1) [of x] expo_bounds(2) [of y] by linarith
  then show ?thesis by (simp add: pow2_less_iff)
qed

section \<open>Laws of the rounding\<close>

lemma fl_0 [simp]: "fl 0 = 0"
  by (simp add: fl_def)

lemma fl_neg: "fl (- q) = - fl q"
  by (simp add: fl_def Let_def rne_neg)

lemma fl_eq_pos: "0 < q \<Longrightarrow> fl q = of_int (rne (q / pow2 (expo q - 52))) * pow2 (expo q - 52)"
  by (simp add: fl_def Let_def)

text \<open>The significand of a positive value lies between \<open>2^52\<close> and \<open>2^53\<close>.\<close>

lemma fl_pos_bounds:
  assumes "0 < q"
  shows "pow2 (expo q) \<le> fl q" and "fl q \<le> pow2 (expo q + 1)"
proof -
  let ?e = "expo q - 52"
  have "pow2 52 \<le> q / pow2 ?e" "q / pow2 ?e \<le> pow2 53"
    using expo_bounds [OF assms] pow2_add [of 52 ?e] pow2_add [of 53 ?e]
    by (simp_all add: pos_le_divide_eq pos_divide_le_eq algebra_simps)
  then have "rne (of_int 4503599627370496) \<le> rne (q / pow2 ?e)"
    "rne (q / pow2 ?e) \<le> rne (of_int 9007199254740992)"
    by (intro rne_mono; simp add: pow2_52 pow2_53)+
  then have "pow2 52 \<le> of_int (rne (q / pow2 ?e))" "of_int (rne (q / pow2 ?e)) \<le> pow2 53"
    unfolding rne_of_int pow2_52 pow2_53 by linarith+
  then have "pow2 52 * pow2 ?e \<le> of_int (rne (q / pow2 ?e)) * pow2 ?e"
    "of_int (rne (q / pow2 ?e)) * pow2 ?e \<le> pow2 53 * pow2 ?e"
    by (simp_all add: mult_right_mono less_imp_le)
  then show "pow2 (expo q) \<le> fl q" "fl q \<le> pow2 (expo q + 1)"
    using assms by (simp_all add: fl_def Let_def flip: pow2_add) (simp_all add: algebra_simps)
qed

lemma fl_mono_pos: "0 < x \<Longrightarrow> x \<le> y \<Longrightarrow> fl x \<le> fl y"
proof -
  assume a: "0 < x" "x \<le> y"
  then have y: "0 < y" by linarith
  consider "expo x = expo y" | "expo x + 1 \<le> expo y" using expo_mono [OF a] by linarith
  then show ?thesis
  proof cases
    case 1
    let ?e = "expo y - 52"
    have "rne (x / pow2 ?e) \<le> rne (y / pow2 ?e)"
      using a by (intro rne_mono divide_right_mono) (simp_all add: less_imp_le)
    then have "(of_int (rne (x / pow2 ?e)) :: rat) * pow2 ?e \<le> of_int (rne (y / pow2 ?e)) * pow2 ?e"
      by (simp add: mult_right_mono less_imp_le)
    then show ?thesis using a y 1 by (simp add: fl_def Let_def)
  next
    case 2
    have "fl x \<le> pow2 (expo x + 1)" by (rule fl_pos_bounds(2) [OF a(1)])
    also have "\<dots> \<le> pow2 (expo y)" using 2 by (rule pow2_mono)
    also have "\<dots> \<le> fl y" by (rule fl_pos_bounds(1) [OF y])
    finally show ?thesis .
  qed
qed

lemma fl_pos [simp]: "0 < q \<Longrightarrow> 0 < fl q"
  using fl_pos_bounds(1) [of q] pow2_pos [of "expo q"] by linarith

lemma fl_nonneg [simp]: "0 \<le> q \<Longrightarrow> 0 \<le> fl q"
  by (cases "q = 0") (simp_all add: less_imp_le)

lemma fl_mono: "x \<le> y \<Longrightarrow> fl x \<le> fl y"
proof -
  assume le: "x \<le> y"
  consider "0 < x" | "x \<le> 0" "0 \<le> y" | "y < 0" by linarith
  then show ?thesis
  proof cases
    case 1
    then show ?thesis using le by (rule fl_mono_pos)
  next
    case 2
    have "fl x \<le> 0" using fl_nonneg [of "- x"] 2 by (simp add: fl_neg)
    also have "0 \<le> fl y" using 2 by simp
    finally show ?thesis .
  next
    case 3
    have "fl (- y) \<le> fl (- x)" using 3 le by (intro fl_mono_pos) auto
    then show ?thesis by (simp add: fl_neg)
  qed
qed

text \<open>A rational with a significand of at most 53 bits is not changed.\<close>

lemma fl_exact_pos:
  assumes m0: "0 < m" and m1: "m \<le> 9007199254740992"
  shows "fl (of_int m * pow2 k) = of_int m * pow2 k"
proof -
  let ?q = "of_int m * pow2 k :: rat"
  let ?e = "expo ?q - 52"
  have q: "0 < ?q" using m0 by simp
  have "(of_int m :: rat) \<le> pow2 53"
    using m1 unfolding pow2_53 by (metis of_int_le_iff of_int_numeral)
  then have up: "?q \<le> pow2 (k + 53)" by (simp add: pow2_add mult_right_mono less_imp_le)
  have "pow2 (expo ?q) < pow2 (k + 53 + 1)"
    using expo_bounds(1) [OF q] up pow2_less_iff [of "k + 53" "k + 53 + 1"] by linarith
  then have ek: "expo ?q \<le> k + 53" by (simp add: pow2_less_iff)
  have "\<exists>n. ?q / pow2 ?e = of_int n"
  proof (cases "expo ?q \<le> k + 52")
    case True
    then have "?q / pow2 ?e = of_int m * pow2 (k - ?e)" by (simp add: pow2_diff)
    also have "\<dots> = of_int (m * 2 ^ nat (k - ?e))" using True by (simp add: pow2_nat)
    finally show ?thesis by blast
  next
    case False
    then have "expo ?q = k + 53" using ek by simp
    with expo_bounds(1) [OF q] up have "?q = pow2 (k + 53)" by simp
    then have "?q / pow2 ?e = pow2 52"
      using \<open>expo ?q = k + 53\<close> by (simp flip: pow2_diff)
    then show ?thesis by (metis of_int_numeral pow2_52)
  qed
  then obtain n where n: "?q / pow2 ?e = of_int n" by blast
  have "fl ?q = of_int (rne (of_int n)) * pow2 ?e"
    unfolding fl_eq_pos [OF q] n ..
  also have "\<dots> = ?q" unfolding rne_of_int using n by (metis nonzero_eq_divide_eq pow2_nz)
  finally show ?thesis .
qed

lemma fl_exact:
  assumes "\<bar>m\<bar> \<le> 9007199254740992"
  shows "fl (of_int m * pow2 k) = of_int m * pow2 k"
proof -
  consider "0 < m" | "m = 0" | "m < 0" by linarith
  then show ?thesis
  proof cases
    case 3
    then show ?thesis
      using fl_exact_pos [of "- m" k] assms fl_neg [of "of_int m * pow2 k"] by simp
  qed (use assms fl_exact_pos in auto)
qed

lemma fl_of_int: "\<bar>m\<bar> \<le> 9007199254740992 \<Longrightarrow> fl (of_int m) = of_int m"
  using fl_exact [of m 0] by (simp add: pow2_def)

lemma fl_numeral [simp]: "numeral n \<le> (9007199254740992 :: int) \<Longrightarrow> fl (numeral n) = numeral n"
  using fl_of_int [of "numeral n"] by simp

lemma fl_1 [simp]: "fl 1 = 1"
  using fl_of_int [of 1] by simp

text \<open>The result of an operation is a number: rounding it again changes nothing.\<close>

lemma fl_idem [simp]: "fl (fl q) = fl q"
proof -
  have pos: "fl (fl q) = fl q" if q: "0 < q" for q
  proof -
    let ?e = "expo q - 52"
    have f: "fl q = of_int (rne (q / pow2 ?e)) * pow2 ?e" using q by (simp add: fl_def Let_def)
    have "q / pow2 ?e \<le> pow2 53"
      using expo_bounds(2) [OF q] pow2_add [of 53 ?e] by (simp add: pos_divide_le_eq algebra_simps)
    then have "rne (q / pow2 ?e) \<le> rne (of_int 9007199254740992)"
      by (intro rne_mono) (simp add: pow2_53)
    moreover have "rne (of_int 0) \<le> rne (q / pow2 ?e)"
      using q by (intro rne_mono) (simp add: less_imp_le)
    ultimately have "\<bar>rne (q / pow2 ?e)\<bar> \<le> 9007199254740992" unfolding rne_of_int by linarith
    then show ?thesis unfolding f by (rule fl_exact)
  qed
  consider "0 < q" | "q = 0" | "0 < - q" by linarith
  then show ?thesis
  proof cases
    case 3
    then show ?thesis using pos [of "- q"] by (simp add: fl_neg)
  qed (use pos in auto)
qed

lemma is_double_fl [simp]: "is_double (fl q)"
  by (simp add: is_double_def)

text \<open>One rounding is off by at most one part in \<open>2^53\<close>.\<close>

lemma fl_error: "\<bar>fl q - q\<bar> \<le> \<bar>q\<bar> / 9007199254740992"
proof -
  have pos: "\<bar>fl q - q\<bar> \<le> q / 9007199254740992" if q: "0 < q" for q
  proof -
    let ?e = "expo q - 52"
    have "\<bar>of_int (rne (q / pow2 ?e)) - q / pow2 ?e\<bar> \<le> 1 / 2"
      using rne_bounds [of "q / pow2 ?e"] by linarith
    then have "\<bar>of_int (rne (q / pow2 ?e)) - q / pow2 ?e\<bar> * pow2 ?e \<le> 1 / 2 * pow2 ?e"
      by (rule mult_right_mono) (simp add: less_imp_le)
    moreover have "\<bar>of_int (rne (q / pow2 ?e)) - q / pow2 ?e\<bar> * pow2 ?e = \<bar>fl q - q\<bar>"
      using q abs_mult_pos [of "pow2 ?e" "of_int (rne (q / pow2 ?e)) - q / pow2 ?e"]
      by (simp add: fl_def Let_def less_imp_le algebra_simps)
    moreover have "pow2 ?e * 4503599627370496 \<le> q"
      using expo_bounds(1) [OF q] pow2_add [of ?e 52] by (simp add: pow2_52)
    ultimately show ?thesis by linarith
  qed
  consider "0 < q" | "q = 0" | "0 < - q" by linarith
  then show ?thesis
  proof cases
    case 3
    then show ?thesis using pos [of "- q"] by (simp add: fl_neg)
  qed (use pos in auto)
qed

section \<open>Laws of the operations\<close>

lemma floor_of_number [simp]: "js_round (of_int n) = n" "js_floor (of_int n) = n" "js_ceil (of_int n) = n"
  by (simp_all add: js_round_def js_floor_def js_ceil_def floor_eq_iff)

lemma js_round_mono: "x \<le> y \<Longrightarrow> js_round x \<le> js_round y"
  unfolding js_round_def by (rule floor_mono) simp

lemma js_round_nonneg: "0 \<le> x \<Longrightarrow> 0 \<le> js_round x"
  unfolding js_round_def by simp

lemma fmul_nonneg: "0 \<le> a \<Longrightarrow> 0 \<le> b \<Longrightarrow> 0 \<le> fmul a b"
  by (simp add: fmul_def)

lemma fadd_nonneg: "0 \<le> a \<Longrightarrow> 0 \<le> b \<Longrightarrow> 0 \<le> fadd a b"
  by (simp add: fadd_def)

lemma fdiv_nonneg: "0 \<le> a \<Longrightarrow> 0 \<le> b \<Longrightarrow> 0 \<le> fdiv a b"
  by (simp add: fdiv_def)

lemma fsub_le: "is_double a \<Longrightarrow> 0 \<le> b \<Longrightarrow> fsub a b \<le> a"
  unfolding fsub_def is_double_def using fl_mono [of "a - b" a] by simp

lemma fadd_ge: "is_double a \<Longrightarrow> 0 \<le> b \<Longrightarrow> a \<le> fadd a b"
  unfolding fadd_def is_double_def using fl_mono [of a "a + b"] by simp

lemma fsub_nonneg: "b \<le> a \<Longrightarrow> 0 \<le> fsub a b"
  by (simp add: fsub_def)

lemma round9_mono: "x \<le> y \<Longrightarrow> round9 x \<le> round9 y"
  unfolding round9_def fdiv_def fmul_def
  by (intro fl_mono divide_right_mono) (simp_all add: js_round_mono fl_mono)

lemma round9_nonneg [simp]: "0 \<le> x \<Longrightarrow> 0 \<le> round9 x"
  unfolding round9_def fmul_def by (intro fdiv_nonneg) (simp_all add: js_round_nonneg)

lemma round9_0 [simp]: "round9 0 = 0"
  using floor_of_number(1) [of 0] by (simp add: round9_def fmul_def fdiv_def)

lemma is_double_round9 [simp]: "is_double (round9 x)"
  by (simp add: round9_def fdiv_def)

lemmas number_defs = fadd_def fsub_def fmul_def fdiv_def


section \<open>Evaluation\<close>

text \<open>The rounding on a numerator and a denominator: what evaluation uses, so that a computed number
  is a quotient of two numerals.\<close>

definition rne_div :: "int \<Rightarrow> int \<Rightarrow> int" where
  "rne_div a b = (let f = a div b; r = 2 * (a mod b) in
     if r < b then f else if b < r then f + 1 else if even f then f else f + 1)"

definition expo_div :: "int \<Rightarrow> int \<Rightarrow> int" where
  "expo_div a b = (let k = bits a - bits b in
     if (if 0 \<le> k then 2 ^ nat k * b \<le> a else b \<le> a * 2 ^ nat (- k)) then k else k - 1)"

lemma rne_div: "0 < b \<Longrightarrow> rne (of_int a / of_int b) = rne_div a b"
proof -
  assume b: "0 < b"
  have f: "\<lfloor>of_int a / of_int b :: rat\<rfloor> = a div b" by (rule floor_divide_of_int_eq)
  have "(of_int (a div b * b + a mod b) :: rat) = of_int a" by (simp only: div_mult_mod_eq)
  then have "of_int a = of_int (a div b) * of_int b + (of_int (a mod b) :: rat)" by (simp only: of_int_add of_int_mult)
  then have r: "of_int a / of_int b - of_int (a div b) = (of_int (a mod b) / of_int b :: rat)"
    using b by (simp add: add_divide_distrib)
  have "of_int (a mod b) / of_int b < (1 / 2 :: rat) \<longleftrightarrow> of_int (2 * (a mod b)) < (of_int b :: rat)"
    using b by (simp add: field_simps)
  then have l: "of_int (a mod b) / of_int b < (1 / 2 :: rat) \<longleftrightarrow> 2 * (a mod b) < b" by (simp only: of_int_less_iff)
  have "(1 / 2 :: rat) < of_int (a mod b) / of_int b \<longleftrightarrow> (of_int b :: rat) < of_int (2 * (a mod b))"
    using b by (simp add: field_simps)
  then have g: "(1 / 2 :: rat) < of_int (a mod b) / of_int b \<longleftrightarrow> b < 2 * (a mod b)" by (simp only: of_int_less_iff)
  show ?thesis by (simp only: rne_def rne_div_def Let_def f r l g)
qed

lemma expo_div:
  assumes "0 < a" "quotient_of q = (a, b)"
  shows "expo q = expo_div a b"
proof -
  have b: "0 < b" by (rule quotient_of_denom_pos [OF assms(2)])
  have q: "q = of_int a / of_int b" by (rule quotient_of_div [OF assms(2)])
  have "pow2 k \<le> q \<longleftrightarrow> (if 0 \<le> k then 2 ^ nat k * b \<le> a else b \<le> a * 2 ^ nat (- k))" for k
  proof (cases "0 \<le> k")
    case True
    then have "pow2 k \<le> q \<longleftrightarrow> (of_int (2 ^ nat k * b) :: rat) \<le> of_int a"
      using b by (simp add: q pow2_def field_simps)
    with True show ?thesis by (simp only: of_int_le_iff if_True)
  next
    case False
    then have "pow2 k \<le> q \<longleftrightarrow> (of_int b :: rat) \<le> of_int (a * 2 ^ nat (- k))"
      using b by (simp add: q pow2_def field_simps)
    with False show ?thesis by (simp only: of_int_le_iff if_False)
  qed
  then show ?thesis by (simp add: expo_def expo_div_def assms(2) Let_def)
qed

lemma fl_code [code]:
  "fl q = (case quotient_of q of (a, b) \<Rightarrow>
     if a = 0 then 0
     else let e = expo_div \<bar>a\<bar> b - 52
          in if 0 \<le> e then Fract (rne_div a (b * 2 ^ nat e) * 2 ^ nat e) 1
             else Fract (rne_div (a * 2 ^ nat (- e)) b) (2 ^ nat (- e)))"
proof -
  obtain a b where ab: "quotient_of q = (a, b)" by fastforce
  have b: "0 < b" by (rule quotient_of_denom_pos [OF ab])
  have q: "q = of_int a / of_int b" by (rule quotient_of_div [OF ab])
  show ?thesis
  proof (cases "a = 0")
    case False
    have e: "expo \<bar>q\<bar> = expo_div \<bar>a\<bar> b"
      using False ab by (intro expo_div) (simp_all add: rat_abs_code)
    let ?e = "expo_div \<bar>a\<bar> b - 52"
    have "q \<noteq> 0" using False b by (simp add: q)
    then have "fl q = of_int (rne (q / pow2 ?e)) * pow2 ?e" by (simp add: fl_def e Let_def)
    also have "\<dots> = (if 0 \<le> ?e then Fract (rne_div a (b * 2 ^ nat ?e) * 2 ^ nat ?e) 1
             else Fract (rne_div (a * 2 ^ nat (- ?e)) b) (2 ^ nat (- ?e)))"
    proof (cases "0 \<le> ?e")
      case True
      have "q / pow2 ?e = of_int a / of_int (b * 2 ^ nat ?e)" using True b by (simp add: q pow2_def)
      then show ?thesis using rne_div [of "b * 2 ^ nat ?e" a] True b by (simp add: pow2_def Fract_of_int_quotient)
    next
      case False
      have "q / pow2 ?e = of_int (a * 2 ^ nat (- ?e)) / of_int b" using False b by (simp add: q pow2_def)
      then show ?thesis using rne_div [OF b, of "a * 2 ^ nat (- ?e)"] False
        by (simp add: pow2_def Fract_of_int_quotient)
    qed
    finally show ?thesis using False by (simp add: ab Let_def)
  qed (use q in \<open>simp add: fl_def ab\<close>)
qed

end
