(* ===== verification/Prelude.thy ===== *)
theory Prelude
  imports Jsnum "HOL-Library.AList"
begin

text \<open>
  What every component shares: the names of the program's types, bigint division, the
  insertion-ordered map of JavaScript, the list idioms of the state managers (find the first
  record, change it in place), decimal strings and substring search. The collection
  \<open>frame\<close> gathers the equations that say what an operation leaves alone.
\<close>

named_theorems frame "what an operation does not change"

type_synonym mint = string
type_synonym wallet = string
type_synonym signature = string
type_synonym millis = int
type_synonym bigint = int

section \<open>Bigint division\<close>

text \<open>Division of bigints truncates towards zero; a zero divisor throws, so every use of
  \<open>bdiv\<close> stands under the source's own check of the divisor.\<close>

definition bdiv :: "bigint \<Rightarrow> bigint \<Rightarrow> bigint" where
  "bdiv a b = sgn a * sgn b * (\<bar>a\<bar> div \<bar>b\<bar>)"

lemma bdiv_nonneg_eq: "0 \<le> a \<Longrightarrow> 0 < b \<Longrightarrow> bdiv a b = a div b"
  by (cases "a = 0") (simp_all add: bdiv_def)

lemma bdiv_mult_le: "0 \<le> a \<Longrightarrow> 0 < b \<Longrightarrow> bdiv a b * b \<le> a"
  by (simp add: bdiv_nonneg_eq) (metis add_increasing2 div_mult_mod_eq order_refl pos_mod_sign)

lemma bdiv_mult_gt: "0 \<le> a \<Longrightarrow> 0 < b \<Longrightarrow> a < bdiv a b * b + b"
  by (simp add: bdiv_nonneg_eq) (metis add.commute add_strict_left_mono div_mult_mod_eq pos_mod_bound)

lemma bdiv_nonneg: "0 \<le> a \<Longrightarrow> 0 < b \<Longrightarrow> 0 \<le> bdiv a b"
  by (simp add: bdiv_nonneg_eq pos_imp_zdiv_nonneg_iff)

lemma bdiv_mono: "0 \<le> a \<Longrightarrow> a \<le> a' \<Longrightarrow> 0 < b \<Longrightarrow> bdiv a b \<le> bdiv a' b"
  by (simp add: bdiv_nonneg_eq zdiv_mono1)

lemma bdiv_0 [simp]: "bdiv 0 b = 0"
  by (simp add: bdiv_def)

lemma sum_list_cong: "(\<And>x. x \<in> set xs \<Longrightarrow> f x = g x) \<Longrightarrow> sum_list (map f xs) = sum_list (map g xs)"
  by (induction xs) simp_all

section \<open>Records in a list, found by a key and changed in place\<close>

text \<open>\<open>const record = xs.find(p); Object.assign(record, ...)\<close>: the first match changes.\<close>

fun upd_first :: "('a \<Rightarrow> bool) \<Rightarrow> ('a \<Rightarrow> 'a) \<Rightarrow> 'a list \<Rightarrow> 'a list" where
  "upd_first p f [] = []"
| "upd_first p f (x # xs) = (if p x then f x # xs else x # upd_first p f xs)"

lemma length_upd_first [simp, frame]: "length (upd_first p f xs) = length xs"
  by (induction xs) auto

lemma map_upd_first [frame]: "(\<And>x. g (f x) = g x) \<Longrightarrow> map g (upd_first p f xs) = map g xs"
  by (induction xs) auto

lemma set_upd_first: "set (upd_first p f xs) \<subseteq> set xs \<union> f ` {x \<in> set xs. p x}"
  by (induction xs) auto

lemma in_upd_firstE:
  assumes "y \<in> set (upd_first p f xs)"
  obtains "y \<in> set xs" | x where "x \<in> set xs" "p x" "y = f x"
  using assms set_upd_first [of p f xs] by auto

lemma find_upd_first:
  "(\<And>x. p (f x) = p x) \<Longrightarrow> List.find p (upd_first p f xs) = map_option f (List.find p xs)"
  by (induction xs) auto

lemma find_upd_first_other:
  "(\<And>x. p x \<Longrightarrow> q x = q (f x) \<and> (q x \<longrightarrow> False)) \<Longrightarrow> List.find q (upd_first p f xs) = List.find q xs"
  by (induction xs) auto

lemma upd_first_absent: "List.find p xs = None \<Longrightarrow> upd_first p f xs = xs"
  by (induction xs) (auto split: if_splits)

lemma find_SomeE: "List.find p xs = Some x \<Longrightarrow> (x \<in> set xs \<Longrightarrow> p x \<Longrightarrow> Q) \<Longrightarrow> Q"
  by (auto simp: find_Some_iff)

lemma find_None_iff_map: "(List.find (\<lambda>x. g x = k) xs = None) = (k \<notin> set (map g xs))"
  by (auto simp: find_None_iff)

lemma upd_first_all2:
  assumes "List.find p xs = Some r" "R r (f r)" "\<And>x. R x x"
  shows "list_all2 R xs (upd_first p f xs)"
  using assms(1)
proof (induction xs)
  case (Cons x xs)
  show ?case
  proof (cases "p x")
    case True
    then show ?thesis using Cons.prems assms(2,3) by (simp add: list_all2_same)
  next
    case False
    then show ?thesis using Cons assms(3) by simp
  qed
qed simp

text \<open>With distinct keys the first match is the only one.\<close>

lemma find_keyed: "distinct (map g xs) \<Longrightarrow> x \<in> set xs \<Longrightarrow> List.find (\<lambda>y. g y = g x) xs = Some x"
  by (induction xs) auto

lemma upd_first_distinct:
  "distinct (map g xs) \<Longrightarrow> upd_first (\<lambda>x. g x = k) f xs = map (\<lambda>x. if g x = k then f x else x) xs"
proof (induction xs)
  case (Cons x xs)
  show ?case
  proof (cases "g x = k")
    case True
    with Cons.prems have "map (\<lambda>y. if g y = k then f y else y) xs = xs"
      by (intro map_idI) (metis (no_types) distinct.simps(2) image_eqI list.simps(9) list.set_map)
    with True show ?thesis by simp
  qed (use Cons in simp)
qed simp

section \<open>Records kept by a state manager\<close>

text \<open>
  The state managers hold lists of records, each with a key. An update looks the record up,
  throws when it is not there (\<open>Inl\<close>), changes it and saves the file. \<open>sure\<close> reads
  the state after an update of a record that is known to exist; \<open>update_each\<close> is the loop
  that updates the records of a list of keys one after another.
\<close>

definition sure :: "'m \<Rightarrow> 'e + 'm \<Rightarrow> 'm" where
  "sure m r = (case r of Inl _ \<Rightarrow> m | Inr m' \<Rightarrow> m')"

definition update_each :: "('k \<Rightarrow> 'm \<Rightarrow> 'e + 'm) \<Rightarrow> 'k list \<Rightarrow> 'm \<Rightarrow> 'm" where
  "update_each u ks m = fold (\<lambda>k m. sure m (u k m)) ks m"

lemma sure_simps [simp]: "sure m (Inl e) = m" "sure m (Inr m') = m'"
  by (simp_all add: sure_def)

lemma update_each_simps [simp]:
  "update_each u [] m = m"
  "update_each u (k # ks) m = update_each u ks (sure m (u k m))"
  by (simp_all add: update_each_def)

lemma update_each_preserves:
  "(\<And>k m. P m \<Longrightarrow> P (sure m (u k m))) \<Longrightarrow> P m \<Longrightarrow> P (update_each u ks m)"
  by (induction ks arbitrary: m) simp_all

locale record_store =
  fixes keyof :: "'r \<Rightarrow> 'k"
    and get :: "'k \<Rightarrow> 'm \<Rightarrow> 'r option"
    and upd :: "'k \<Rightarrow> ('r \<Rightarrow> 'r) \<Rightarrow> 'm \<Rightarrow> string + 'm"
    and stamp :: "'r \<Rightarrow> 'r"
    and synced :: "'m \<Rightarrow> bool"
  assumes get_key: "get k m = Some r \<Longrightarrow> keyof r = k"
    and missing: "get k m = None \<Longrightarrow> isl (upd k f m)"
    and found: "get k m = Some r \<Longrightarrow> \<not> isl (upd k f m)"
    and get_upd: "get k m = Some r \<Longrightarrow> (\<And>r. keyof (f r) = keyof r) \<Longrightarrow> upd k f m = Inr m' \<Longrightarrow>
      get j m' = (if j = k then Some (stamp (f r)) else get j m)"
    and upd_synced: "upd k f m = Inr m' \<Longrightarrow> synced m'"
begin

lemma no_throw: "get k m \<noteq> None \<Longrightarrow> \<exists>m'. upd k f m = Inr m'"
  using found [of k m _ f] by (cases "upd k f m") auto

lemma get_sure:
  assumes "\<And>r. keyof (f r) = keyof r"
  shows "get j (sure m (upd k f m)) =
    (if j = k then map_option (\<lambda>r. stamp (f r)) (get k m) else get j m)"
proof (cases "get k m")
  case None
  with missing [OF None, of f] show ?thesis by (cases "upd k f m") auto
next
  case (Some r)
  with no_throw [of k m f] obtain m' where "upd k f m = Inr m'" by auto
  with get_upd [OF Some assms] Some show ?thesis by simp
qed

lemma present_sure: "(\<And>r. keyof (f r) = keyof r) \<Longrightarrow> (get j (sure m (upd k f m)) = None) = (get j m = None)"
  by (simp add: get_sure)

lemma synced_sure: "synced m \<Longrightarrow> synced (sure m (upd k f m))"
  by (cases "upd k f m") (auto dest: upd_synced)

lemma get_each:
  assumes "\<And>k r. keyof (f k r) = keyof r" "distinct ks"
  shows "get j (update_each (\<lambda>k. upd k (f k)) ks m) =
    (if j \<in> set ks then map_option (\<lambda>r. stamp (f j r)) (get j m) else get j m)"
  using assms(2) by (induction ks arbitrary: m) (auto simp: get_sure assms(1))

end

section \<open>Maps that remember the order of insertion\<close>

text \<open>
  A JavaScript \<open>Map\<close> iterates in the order of first insertion, and setting a present key
  keeps its place: that is \<open>AList.update\<close> on an association list. The interface is the
  locale; its client lemmas are the accumulations the program makes (\<open>m.set(k,
  (m.get(k) ?? 0n) + v)\<close>).
\<close>

type_synonym ('k, 'v) jmap = "('k \<times> 'v) list"

definition jm_get :: "('k, 'v) jmap \<Rightarrow> 'k \<Rightarrow> 'v option" where "jm_get m k = map_of m k"
definition jm_set :: "'k \<Rightarrow> 'v \<Rightarrow> ('k, 'v) jmap \<Rightarrow> ('k, 'v) jmap" where "jm_set k v m = AList.update k v m"
definition jm_add :: "'k \<Rightarrow> bigint \<Rightarrow> ('k, bigint) jmap \<Rightarrow> ('k, bigint) jmap" where
  "jm_add k v m = jm_set k ((case jm_get m k of None \<Rightarrow> 0 | Some w \<Rightarrow> w) + v) m"
definition jm_keys :: "('k, 'v) jmap \<Rightarrow> 'k list" where "jm_keys m = map fst m"
definition jm_values :: "('k, 'v) jmap \<Rightarrow> 'v list" where "jm_values m = map snd m"

locale ordered_map =
  fixes empty :: "'m"
    and get :: "'m \<Rightarrow> 'k \<Rightarrow> 'v::comm_monoid_add option"
    and set_at :: "'k \<Rightarrow> 'v \<Rightarrow> 'm \<Rightarrow> 'm"
    and total :: "'m \<Rightarrow> 'v"
    and ok :: "'m \<Rightarrow> bool"
  assumes get_empty: "get empty k = None"
    and get_set: "get (set_at k v m) k' = (if k' = k then Some v else get m k')"
    and ok_empty: "ok empty"
    and ok_set: "ok m \<Longrightarrow> ok (set_at k v m)"
    and total_empty: "total empty = 0"
    and total_set_new: "ok m \<Longrightarrow> get m k = None \<Longrightarrow> total (set_at k v m) = total m + v"
    and total_set_old: "ok m \<Longrightarrow> get m k = Some w \<Longrightarrow> total (set_at k v m) + w = total m + v"
begin

definition value_at :: "'m \<Rightarrow> 'k \<Rightarrow> 'v" where
  "value_at m k = (case get m k of None \<Rightarrow> 0 | Some v \<Rightarrow> v)"

definition accumulate :: "('k \<times> 'v) list \<Rightarrow> 'm \<Rightarrow> 'm" where
  "accumulate kvs m = fold (\<lambda>(k, v) m. set_at k (value_at m k + v) m) kvs m"

lemma accumulate_simps [simp]:
  "accumulate [] m = m"
  "accumulate ((k, v) # kvs) m = accumulate kvs (set_at k (value_at m k + v) m)"
  by (simp_all add: accumulate_def)

lemma value_set: "value_at (set_at k v m) k' = (if k' = k then v else value_at m k')"
  by (simp add: value_at_def get_set)

lemma accumulate_ok: "ok m \<Longrightarrow> ok (accumulate kvs m)"
  by (induction kvs arbitrary: m) (auto simp: ok_set)

lemma accumulate_value:
  "value_at (accumulate kvs m) k = value_at m k + (\<Sum>(k', v)\<leftarrow>kvs. if k' = k then v else 0)"
  by (induction kvs arbitrary: m) (auto simp: value_set algebra_simps)

end

text \<open>Where the values cancel, the total of an accumulation is the sum of what was put in.\<close>

locale ordered_map_cancel = ordered_map empty get set_at total ok
  for empty :: "'m" and get :: "'m \<Rightarrow> 'k \<Rightarrow> 'v::cancel_comm_monoid_add option"
    and set_at total ok
begin

lemma total_accumulate_one: "ok m \<Longrightarrow> total (set_at k (value_at m k + v) m) = total m + v"
proof (cases "get m k")
  case None
  then show "ok m \<Longrightarrow> ?thesis" by (simp add: value_at_def total_set_new)
next
  case (Some w)
  assume "ok m"
  then have "total (set_at k (w + v) m) + w = (total m + v) + w"
    using total_set_old [OF _ Some] by (simp add: algebra_simps)
  then show ?thesis using Some by (simp add: value_at_def)
qed

lemma accumulate_total: "ok m \<Longrightarrow> total (accumulate kvs m) = total m + sum_list (map snd kvs)"
proof (induction kvs arbitrary: m)
  case (Cons kv kvs)
  then show ?case
    by (cases kv) (simp add: ok_set total_accumulate_one add.assoc)
qed simp

end

lemma jm_get_set: "jm_get (jm_set k v m) k' = (if k' = k then Some v else jm_get m k')"
  by (simp add: jm_get_def jm_set_def update_conv)

lemma distinct_jm_set [simp]: "distinct (map fst m) \<Longrightarrow> distinct (map fst (jm_set k v m))"
  by (simp add: jm_set_def distinct_update)

lemma jm_set_absent: "jm_get m k = None \<Longrightarrow> jm_set k v m = m @ [(k, v)]"
  by (induction m) (auto simp: jm_get_def jm_set_def split: if_splits)

lemma sum_jm_set:
  "jm_get m k = Some w \<Longrightarrow> distinct (map fst m) \<Longrightarrow>
    sum_list (map snd (jm_set k v m)) + w = sum_list (map snd m) + (v::'v::comm_monoid_add)"
  by (induction m) (auto simp: jm_get_def jm_set_def algebra_simps split: if_splits)

lemma keys_jm_set: "map fst (jm_set k v m) = (if k \<in> set (map fst m) then map fst m else map fst m @ [k])"
  by (simp add: jm_set_def update_keys)

interpretation jm: ordered_map_cancel "[] :: ('k, bigint) jmap" jm_get jm_set "\<lambda>m. sum_list (map snd m)" "\<lambda>m. distinct (map fst m)"

  by unfold_locales (simp_all add: jm_get_set jm_set_absent sum_jm_set, simp_all add: jm_get_def)

lemma jm_add_accumulate: "jm_add k v m = jm_set k (jm.value_at m k + v) m"
  by (simp add: jm_add_def jm.value_at_def)

lemma jm_value_add: "jm.value_at (jm_add k v m) j = jm.value_at m j + (if j = k then v else 0)"
  by (simp add: jm_add_accumulate jm.value_set)

text \<open>\<open>m.get(k) ?? 0n\<close>\<close>

definition get_or0 :: "('k, bigint) jmap \<Rightarrow> 'k \<Rightarrow> bigint" where
  "get_or0 m k = (case jm_get m k of None \<Rightarrow> 0 | Some v \<Rightarrow> v)"

lemma get_or0_value: "get_or0 m k = jm.value_at m k"
  by (simp add: get_or0_def jm.value_at_def)

lemma get_or0_set: "get_or0 (jm_set k v m) i = (if i = k then v else get_or0 m i)"
  by (simp add: get_or0_def jm_get_set)

lemma jm_value_Nil [simp]: "jm.value_at [] k = 0"
  by (simp add: jm.value_at_def jm_get_def)

end
