(* ===== verification/Text.thy ===== *)
theory Text
  imports Prelude
begin

text \<open>
  The strings of the program: substring search (\<open>message.includes(p)\<close>), decimal
  integers as the round state stores them (\<open>toString\<close>, \<open>BigInt\<close>, the check
  \<open>/^\d+$/\<close>) and the two forms in which a program error number reaches a message.
\<close>

section \<open>Substrings\<close>

definition starts_with :: "string \<Rightarrow> string \<Rightarrow> bool" where
  "starts_with s p \<longleftrightarrow> take (length p) s = p"

fun str_includes :: "string \<Rightarrow> string \<Rightarrow> bool" where
  "str_includes [] p = starts_with [] p"
| "str_includes (c # s) p = (starts_with (c # s) p \<or> str_includes s p)"

lemma includes_iff: "str_includes s p \<longleftrightarrow> (\<exists>a b. s = a @ p @ b)"
proof (induction s)
  case Nil
  then show ?case by (auto simp: starts_with_def)
next
  case (Cons c s)
  have "starts_with (c # s) p \<longleftrightarrow> (\<exists>b. c # s = p @ b)"
    by (metis append_eq_conv_conj append_take_drop_id starts_with_def)
  with Cons show ?case by (auto simp: Cons_eq_append_conv)
qed

lemma includes_append: "str_includes s p \<Longrightarrow> str_includes (a @ s @ b) p"
  unfolding includes_iff by (metis append.assoc)

text \<open>\<open>toLowerCase()\<close>, character by character.\<close>

definition lower :: "char \<Rightarrow> char" where
  "lower c = (let n = (of_char c :: int) in if 65 \<le> n \<and> n \<le> 90 then char_of (n + 32) else c)"

section \<open>Decimal strings\<close>

definition is_digit :: "char \<Rightarrow> bool" where
  "is_digit c \<longleftrightarrow> 48 \<le> (of_char c :: int) \<and> (of_char c :: int) \<le> 57"

definition digit_val :: "char \<Rightarrow> int" where "digit_val c = of_char c - 48"

definition digit_char :: "int \<Rightarrow> char" where "digit_char d = char_of (d + 48)"

text \<open>\<open>/^\d+$/.test(s)\<close>\<close>

definition all_digits :: "string \<Rightarrow> bool" where
  "all_digits s \<longleftrightarrow> s \<noteq> [] \<and> list_all is_digit s"

text \<open>\<open>BigInt(s)\<close> on such a string, and \<open>n.toString()\<close> of a non-negative bigint.\<close>

definition bigint_of :: "string \<Rightarrow> bigint" where
  "bigint_of s = foldl (\<lambda>n c. n * 10 + digit_val c) 0 s"

function show_nat :: "bigint \<Rightarrow> string" where
  "show_nat n = (if n < 10 then [digit_char n] else show_nat (n div 10) @ [digit_char (n mod 10)])"
  by pat_completeness auto
termination by (relation "measure nat") auto

declare show_nat.simps [simp del]

lemma digit_char_of: "0 \<le> d \<Longrightarrow> d < 10 \<Longrightarrow> (of_char (digit_char d) :: int) = d + 48"
  by (simp add: digit_char_def)

lemma digit_val_char [simp]: "0 \<le> d \<Longrightarrow> d < 10 \<Longrightarrow> digit_val (digit_char d) = d"
  by (simp add: digit_val_def digit_char_of)

lemma is_digit_char [simp]: "0 \<le> d \<Longrightarrow> d < 10 \<Longrightarrow> is_digit (digit_char d)"
  by (simp add: is_digit_def digit_char_of)

lemma digit_val_nonneg: "is_digit c \<Longrightarrow> 0 \<le> digit_val c"
  by (simp add: is_digit_def digit_val_def)

lemma bigint_of_append: "bigint_of (s @ [c]) = bigint_of s * 10 + digit_val c"
  by (simp add: bigint_of_def)

lemma bigint_of_nonneg: "list_all is_digit s \<Longrightarrow> 0 \<le> bigint_of s"
proof (induction s rule: rev_induct)
  case Nil
  then show ?case by (simp add: bigint_of_def)
next
  case (snoc c s)
  then show ?case by (simp add: bigint_of_append digit_val_nonneg)
qed

lemma show_nat_digits: "0 \<le> n \<Longrightarrow> all_digits (show_nat n)"
proof (induction n rule: show_nat.induct)
  case (1 n)
  then show ?case by (subst show_nat.simps) (auto simp: all_digits_def)
qed

lemma bigint_of_show_nat: "0 \<le> n \<Longrightarrow> bigint_of (show_nat n) = n"
proof (induction n rule: show_nat.induct)
  case (1 n)
  show ?case
  proof (cases "n < 10")
    case True
    then show ?thesis using 1 bigint_of_append [of "[]"]
      by (subst show_nat.simps) (simp add: bigint_of_def)
  next
    case False
    then show ?thesis using 1
      by (subst show_nat.simps) (simp add: bigint_of_append)
  qed
qed

end
