(* ===== verification/Errors.thy ===== *)
theory Errors
  imports Text
begin

text \<open>
  The errors a purchase or a delivery can end in (\<open>solana/transaction.ts\<close>,
  \<open>dex/buy.ts\<close>), the numbers of the on-chain programs read out of a message
  (\<open>pumpfun/errors.ts\<close>) and the classification the retry logic lives by
  (\<open>scheduler/errors.ts\<close>). An error is a record: its message, whether it is a
  \<open>PostSendError\<close> (the transaction may have reached the network) with the signature
  and the blockhash limit it carries, the venue label, and whether it is the
  \<open>NoRouteError\<close> of the aggregator.
\<close>

datatype venue = Pumpfun | Dex | Pumpswap

record js_error =
  emsg :: string
  epost :: bool
  esig :: "signature option"
  elimit :: "int option"
  evenue :: "venue option"
  enoroute :: bool

definition plain_error :: "string \<Rightarrow> js_error" where
  "plain_error m = \<lparr>emsg = m, epost = False, esig = None, elimit = None, evenue = None, enoroute = False\<rparr>"

definition PostSendError :: "string \<Rightarrow> signature option \<Rightarrow> int option \<Rightarrow> js_error" where
  "PostSendError m s l =
     \<lparr>emsg = m, epost = True, esig = s, elimit = l, evenue = None, enoroute = False\<rparr>"

definition NoRouteError :: "string \<Rightarrow> js_error" where
  "NoRouteError m = (plain_error m)\<lparr>enoroute := True\<rparr>"

definition tagVenue :: "js_error \<Rightarrow> venue \<Rightarrow> js_error" where
  "tagVenue e v = e\<lparr>evenue := Some v\<rparr>"

definition getErrorVenue :: "js_error \<Rightarrow> venue option" where
  "getErrorVenue e = evenue e"

section \<open>Program error numbers in a message\<close>

definition is_space :: "char \<Rightarrow> bool" where
  "is_space c \<longleftrightarrow> (of_char c :: int) \<in> {9, 10, 11, 12, 13, 32, 160}"

definition is_hex :: "char \<Rightarrow> bool" where
  "is_hex c \<longleftrightarrow> is_digit c \<or> (let n = (of_char c :: int) in (97 \<le> n \<and> n \<le> 102) \<or> (65 \<le> n \<and> n \<le> 70))"

definition hex_val :: "char \<Rightarrow> int" where
  "hex_val c = (let n = of_char c in if n < 58 then n - 48 else if n < 71 then n - 55 else n - 87)"

definition hex_of :: "string \<Rightarrow> bigint" where
  "hex_of s = foldl (\<lambda>n c. n * 16 + hex_val c) 0 s"

text \<open>The two patterns, tried at one position: \<open>"Custom"\s*:\s*(\d+)\<close> and
  \<open>custom program error:\s*0x([0-9a-fA-F]+)\<close>.\<close>

definition json_code_at :: "string \<Rightarrow> bigint option" where
  "json_code_at s =
     (if \<not> starts_with s ''\"Custom\"'' then None
      else case dropWhile is_space (drop 8 s) of
        [] \<Rightarrow> None
      | c # r \<Rightarrow> if c \<noteq> CHR '':'' then None
          else let ds = takeWhile is_digit (dropWhile is_space r)
               in if ds = [] then None else Some (bigint_of ds))"

definition hex_code_at :: "string \<Rightarrow> bigint option" where
  "hex_code_at s =
     (if \<not> starts_with s ''custom program error:'' then None
      else let r = dropWhile is_space (drop 21 s)
           in if \<not> starts_with r ''0x'' then None
              else let ds = takeWhile is_hex (drop 2 r)
                   in if ds = [] then None else Some (hex_of ds))"

fun first_match :: "(string \<Rightarrow> 'a option) \<Rightarrow> string \<Rightarrow> 'a option" where
  "first_match f [] = f []"
| "first_match f (c # s) = (case f (c # s) of Some x \<Rightarrow> Some x | None \<Rightarrow> first_match f s)"

definition extractCustomErrorCode :: "string \<Rightarrow> number option" where
  "extractCustomErrorCode message =
     (case first_match json_code_at message of
        Some n \<Rightarrow> Some (to_number n)
      | None \<Rightarrow> map_option to_number (first_match hex_code_at message))"

definition PUMP_SLIPPAGE_CODES :: "number list" where
  "PUMP_SLIPPAGE_CODES = [6002, 6003, 6042]"

section \<open>Classification\<close>

datatype error_class = Retryable | NonRetryable | Unknown

definition RETRYABLE_PATTERNS :: "string list" where
  "RETRYABLE_PATTERNS =
    [''ECONNREFUSED'', ''ECONNRESET'', ''ETIMEDOUT'', ''ENOTFOUND'', ''socket hang up'',
     ''fetch failed'', ''429'', ''Too Many Requests'', ''503'', ''Service Unavailable'', ''502'',
     ''Bad Gateway'',
     ''blockhash not found'', ''Blockhash not found'', ''BlockhashNotFound'',
     ''block height exceeded'', ''TransactionExpiredBlockheightExceededError'',
     ''TransactionExpiredTimeoutError'',
     ''Request timeout'', ''timeout'', ''Timeout'',
     ''Slippage'', ''slippage'', ''exceeds desired slippage'', ''ExceededSlippageToleranceError'',
     ''swap build failed: 500'', ''swap build failed: 503'', ''quote failed: 500'',
     ''quote failed: 503'', ''quote failed: 429'']"

definition NON_RETRYABLE_PATTERNS :: "string list" where
  "NON_RETRYABLE_PATTERNS =
    [''insufficient funds'', ''Insufficient funds'', ''InsufficientFundsError'',
     ''insufficient lamports'', ''insufficient funds for rent'',
     ''Mint account not found'', ''Account not found'', ''Invalid public key'',
     ''invalid public key'',
     ''No route found'', ''no liquidity'',
     ''quote failed: 400'', ''swap build failed: 400'',
     ''Pump Global account not found'', ''Pump Global account too small'',
     ''cannot be distributed'']"

definition SLIPPAGE_PATTERNS :: "string list" where
  "SLIPPAGE_PATTERNS =
    [''Slippage'', ''slippage'', ''exceeds desired slippage'', ''ExceededSlippageToleranceError'',
     ''TooMuchSolRequired'']"

fun VENUE_SLIPPAGE_CODES :: "venue \<Rightarrow> number list" where
  "VENUE_SLIPPAGE_CODES Pumpfun = PUMP_SLIPPAGE_CODES"
| "VENUE_SLIPPAGE_CODES Dex = [6001]"
| "VENUE_SLIPPAGE_CODES Pumpswap = [6004, 6040]"

definition isSlippageError :: "js_error \<Rightarrow> bool" where
  "isSlippageError e =
     (if list_ex (str_includes (emsg e)) SLIPPAGE_PATTERNS then True
      else case extractCustomErrorCode (emsg e) of
        None \<Rightarrow> False
      | Some code \<Rightarrow>
          (case getErrorVenue e of
             None \<Rightarrow> False
           | Some v \<Rightarrow> code \<in> set (VENUE_SLIPPAGE_CODES v)))"

definition classifyError :: "js_error \<Rightarrow> error_class \<times> string option" where
  "classifyError e =
     (case List.find (str_includes (emsg e)) NON_RETRYABLE_PATTERNS of
        Some p \<Rightarrow> (NonRetryable, Some p)
      | None \<Rightarrow>
          (case List.find (str_includes (emsg e)) RETRYABLE_PATTERNS of
             Some p \<Rightarrow> (Retryable, Some p)
           | None \<Rightarrow>
               if isSlippageError e then (Retryable, Some ''slippage error code'')
               else (Unknown, None)))"

definition error_class_of :: "js_error \<Rightarrow> error_class" where
  "error_class_of e = fst (classifyError e)"

definition isRetryableError :: "js_error \<Rightarrow> bool" where
  "isRetryableError e \<longleftrightarrow> error_class_of e \<noteq> NonRetryable"

section \<open>Lemmas\<close>

lemma find_Some_ex: "(\<exists>x. List.find p xs = Some x) \<longleftrightarrow> list_ex p xs"
  by (induction xs) auto

lemma find_None_ex: "List.find p xs = None \<longleftrightarrow> \<not> list_ex p xs"
  by (induction xs) auto

lemma class_cases:
  "error_class_of e =
    (if list_ex (str_includes (emsg e)) NON_RETRYABLE_PATTERNS then NonRetryable
     else if list_ex (str_includes (emsg e)) RETRYABLE_PATTERNS \<or> isSlippageError e then Retryable
     else Unknown)"
  by (auto simp: error_class_of_def classifyError_def find_None_ex split: option.split)
    (metis find_None_ex option.distinct(1))+

text \<open>An error that only carries a number is judged by the program that raised it, and by
  nothing when the program is not known.\<close>

lemma slippage_by_number:
  "\<not> list_ex (str_includes (emsg e)) SLIPPAGE_PATTERNS \<Longrightarrow>
    isSlippageError e \<longleftrightarrow>
      (\<exists>v c. evenue e = Some v \<and> extractCustomErrorCode (emsg e) = Some c \<and> c \<in> set (VENUE_SLIPPAGE_CODES v))"
  by (auto simp: isSlippageError_def getErrorVenue_def split: option.split)

section \<open>Messages that carry a number\<close>

text \<open>The shapes in which a program error arrives: the JSON of a simulation or of a transaction
  that failed on chain, and the hexadecimal of the preflight check.\<close>

definition json_message :: "string \<Rightarrow> string" where
  "json_message n = ''Transaction failed on-chain: {\"InstructionError\":[0,{\"Custom\":'' @ n @ ''}]}''"

definition hex_message :: "string \<Rightarrow> string" where
  "hex_message n = ''failed to send transaction: custom program error: 0x'' @ n"

lemma takeWhile_digits: "all_digits s \<Longrightarrow> takeWhile is_digit (s @ CHR ''}'' # r) = s"
  by (simp add: all_digits_def list_all_iff takeWhile_append2) (simp add: is_digit_def)

lemma digits_not_space: "all_digits s \<Longrightarrow> dropWhile is_space (s @ r) = s @ r"
  by (cases s) (auto simp: all_digits_def is_digit_def is_space_def)

lemma json_code_of_message:
  "all_digits s \<Longrightarrow> first_match json_code_at (json_message s) = Some (bigint_of s)"
  by (simp add: json_message_def json_code_at_def starts_with_def is_space_def digits_not_space
      takeWhile_digits) (auto simp: all_digits_def)

lemma code_of_json_message:
  "0 \<le> n \<Longrightarrow> extractCustomErrorCode (json_message (show_nat n)) = Some (to_number n)"
  by (simp add: extractCustomErrorCode_def json_code_of_message show_nat_digits bigint_of_show_nat)

lemma numbers_read:
  "extractCustomErrorCode (json_message ''6042'') = Some 6042"
  "extractCustomErrorCode (hex_message ''179a'') = Some 6042"
  "extractCustomErrorCode (json_message ''6001'') = Some 6001"
  "extractCustomErrorCode (json_message ''6004'') = Some 6004"
  by code_simp+

lemma no_words_of_slippage:
  "\<not> list_ex (str_includes (json_message ''6042'')) SLIPPAGE_PATTERNS"
  "\<not> list_ex (str_includes (hex_message ''179a'')) SLIPPAGE_PATTERNS"
  "\<not> list_ex (str_includes (json_message ''6001'')) SLIPPAGE_PATTERNS"
  "\<not> list_ex (str_includes (json_message ''6004'')) SLIPPAGE_PATTERNS"
  by code_simp+

section \<open>Properties\<close>



end
