(* ===== verification/Schedule.thy ===== *)
theory Schedule
  imports Prelude
begin

text \<open>
  What the buyer decides before it buys (\<open>scheduler/slippage.ts\<close>,
  \<open>scheduler/fees.ts\<close>, \<open>scheduler/timing.ts\<close>): the slippage of each attempt, the
  number of purchases, the fees held back, the size of each purchase and the moment of each. A
  call of \<open>Math.random()\<close> is a value of the argument \<open>rnd\<close>, indexed by the
  order of the calls; \<open>Math.random\<close> promises a number in \<open>[0, 1)\<close>.
\<close>

section \<open>Slippage\<close>

definition SLIPPAGE_SCHEDULE_BPS :: "number list" where
  "SLIPPAGE_SCHEDULE_BPS = [300, 500, 900, 1300]"

definition MAX_RETRIES :: int where
  "MAX_RETRIES = int (length SLIPPAGE_SCHEDULE_BPS) - 1"

definition getSlippageForAttempt :: "int \<Rightarrow> number \<Rightarrow> number \<Rightarrow> number" where
  "getSlippageForAttempt attempt startSlippageBps maxSlippageBps =
     (if attempt \<le> 1 then min startSlippageBps maxSlippageBps
      else let escalation = filter (\<lambda>s. startSlippageBps < s) SLIPPAGE_SCHEDULE_BPS
           in if length escalation = 0 then min startSlippageBps maxSlippageBps
              else let idx = min (attempt - 2) (int (length escalation) - 1)
                   in min (escalation ! nat idx) maxSlippageBps)"

definition canRetry :: "int \<Rightarrow> bool" where
  "canRetry currentAttempts \<longleftrightarrow> currentAttempts \<le> MAX_RETRIES"

lemma MAX_RETRIES_3 [simp]: "MAX_RETRIES = 3"
  by (simp add: MAX_RETRIES_def SLIPPAGE_SCHEDULE_BPS_def)

lemma schedule_sorted: "sorted (filter P SLIPPAGE_SCHEDULE_BPS)"
  by (rule sorted_wrt_filter) (simp add: SLIPPAGE_SCHEDULE_BPS_def)

lemma slippage_le_max: "getSlippageForAttempt a s m \<le> m"
  by (simp add: getSlippageForAttempt_def Let_def)

lemma slippage_ge_start: "min s m \<le> getSlippageForAttempt a s m"
proof -
  let ?es = "filter (\<lambda>x. s < x) SLIPPAGE_SCHEDULE_BPS"
  have "s < ?es ! nat (min (a - 2) (int (length ?es) - 1))" if "?es \<noteq> []" "\<not> a \<le> 1"
  proof -
    have "nat (min (a - 2) (int (length ?es) - 1)) < length ?es" using that by (cases ?es) auto
    then have "?es ! nat (min (a - 2) (int (length ?es) - 1)) \<in> set ?es" by (rule nth_mem)
    then show ?thesis by (auto simp only: set_filter)
  qed
  then show ?thesis by (auto simp: getSlippageForAttempt_def Let_def)
qed

text \<open>C36: the tolerance of an attempt stays between the first one (the starting slippage under the
  cap) and the cap, and never falls from one attempt to a later one.\<close>

theorem slippage_ladder:
  assumes "a \<le> b"
  shows "min s m \<le> getSlippageForAttempt a s m \<and>
    getSlippageForAttempt a s m \<le> getSlippageForAttempt b s m \<and> getSlippageForAttempt b s m \<le> m"
proof -
  let ?es = "filter (\<lambda>x. s < x) SLIPPAGE_SCHEDULE_BPS"
  have "getSlippageForAttempt a s m \<le> getSlippageForAttempt b s m"
  proof (cases "a \<le> 1 \<or> ?es = []")
    case True
    then have "getSlippageForAttempt a s m = min s m" by (auto simp: getSlippageForAttempt_def Let_def)
    then show ?thesis using slippage_ge_start by metis
  next
    case False
    then have "?es ! nat (min (a - 2) (int (length ?es) - 1)) \<le> ?es ! nat (min (b - 2) (int (length ?es) - 1))"
      using assms by (intro sorted_nth_mono schedule_sorted) (cases ?es; auto)+
    then show ?thesis using False assms
      by (simp add: getSlippageForAttempt_def Let_def min.mono)
  qed
  then show ?thesis using slippage_ge_start slippage_le_max by blast
qed

theorem slippage_ladder_witness:
  "getSlippageForAttempt 2 300 1300 = 500 \<and> getSlippageForAttempt 4 300 1300 = 1300 \<and>
   getSlippageForAttempt 2 300 1300 \<le> getSlippageForAttempt 4 300 1300"
  using slippage_ladder [of 2 4 300 1300] by (auto; code_simp)

section \<open>Fees and the number of purchases\<close>

definition ATA_FEE_SOL :: number where "ATA_FEE_SOL = fl (204 / 100000)"
definition TX_BASE_FEE_SOL :: number where "TX_BASE_FEE_SOL = fl (5 / 1000000)"
definition TX_PRIORITY_FEE_SOL :: number where "TX_PRIORITY_FEE_SOL = fl (5 / 1000000)"
definition TX_FEE_SOL :: number where "TX_FEE_SOL = fadd TX_BASE_FEE_SOL TX_PRIORITY_FEE_SOL"
definition BUY_PRIORITY_FEE_SOL :: number where "BUY_PRIORITY_FEE_SOL = fl (1 / 10000)"
definition BUY_TX_FEE_SOL :: number where "BUY_TX_FEE_SOL = fadd TX_BASE_FEE_SOL BUY_PRIORITY_FEE_SOL"

definition calculateN :: "number \<Rightarrow> int" where
  "calculateN totalSol =
     (if totalSol \<le> 0 then 0
      else if totalSol \<le> fl (1 / 10) then 1
      else if totalSol \<le> 1 then max 2 (js_floor (fdiv totalSol (fl (1 / 10))))
      else if totalSol \<le> 5 then js_floor (fadd 10 (fmul (fsub totalSol 1) (5 / 2)))
      else if totalSol \<le> 50 then js_floor (fadd 20 (fmul (fsub totalSol 5) (fdiv 80 45)))
      else 100)"

record FeeBreakdown =
  ataFee :: number
  txFees :: number
  totalFees :: number
  netAmount :: number

definition calculateFees :: "number \<Rightarrow> int \<Rightarrow> bool \<Rightarrow> FeeBreakdown" where
  "calculateFees totalSol n hasAta =
     (let ata = (if hasAta then 0 else ATA_FEE_SOL);
          tx = fmul (fmul (of_int n) BUY_TX_FEE_SOL) 2;
          tot = fadd ata tx;
          net = max 0 (fsub totalSol tot)
      in \<lparr>ataFee = ata, txFees = tx, totalFees = tot, netAmount = net\<rparr>)"

lemma fees_nonneg [simp]: "0 \<le> ATA_FEE_SOL" "0 \<le> TX_FEE_SOL" "0 \<le> BUY_TX_FEE_SOL"
  by (simp_all add: ATA_FEE_SOL_def TX_FEE_SOL_def BUY_TX_FEE_SOL_def TX_BASE_FEE_SOL_def
      TX_PRIORITY_FEE_SOL_def BUY_PRIORITY_FEE_SOL_def fadd_nonneg)

lemma js_floor_mono: "x \<le> y \<Longrightarrow> js_floor x \<le> js_floor y"
  unfolding js_floor_def by (rule floor_mono)

lemma calculateN_ends:
  "js_floor (fdiv 1 (fl (1 / 10))) = 10" "js_floor (fadd 10 (fmul (fsub 5 1) (5 / 2))) = 20"
  "js_floor (fadd 20 (fmul (fsub 50 5) (fdiv 80 45))) = 100"
  by code_simp+

lemma branch1: "0 \<le> x \<Longrightarrow> x \<le> y \<Longrightarrow> js_floor (fdiv x (fl (1 / 10))) \<le> js_floor (fdiv y (fl (1 / 10)))"
  unfolding fdiv_def by (intro js_floor_mono fl_mono divide_right_mono) simp_all

lemma branch2: "x \<le> y \<Longrightarrow>
    js_floor (fadd 10 (fmul (fsub x 1) (5 / 2))) \<le> js_floor (fadd 10 (fmul (fsub y 1) (5 / 2)))"
  unfolding number_defs by (intro js_floor_mono fl_mono add_left_mono mult_right_mono diff_right_mono) simp_all

lemma branch3: "x \<le> y \<Longrightarrow>
    js_floor (fadd 20 (fmul (fsub x 5) (fdiv 80 45))) \<le> js_floor (fadd 20 (fmul (fsub y 5) (fdiv 80 45)))"
  unfolding number_defs by (intro js_floor_mono fl_mono add_left_mono mult_right_mono diff_right_mono) simp_all

lemma branch_starts:
  "js_floor (fadd 10 (fmul (fsub 1 1) (5 / 2))) = 10" "js_floor (fadd 20 (fmul (fsub 5 5) (fdiv 80 45))) = 20"
  by code_simp+

text \<open>The value of each branch lies between its ends.\<close>

lemma calculateN_ranges:
  "fl (1 / 10) < x \<Longrightarrow> x \<le> 1 \<Longrightarrow> 2 \<le> calculateN x \<and> calculateN x \<le> 10"
  "1 < x \<Longrightarrow> x \<le> 5 \<Longrightarrow> 10 \<le> calculateN x \<and> calculateN x \<le> 20"
  "5 < x \<Longrightarrow> x \<le> 50 \<Longrightarrow> 20 \<le> calculateN x \<and> calculateN x \<le> 100"
proof -
  have tenth: "(0::rat) < fl (1 / 10)" "fl (1 / 10) < 1" by (simp, code_simp)
  show "2 \<le> calculateN x \<and> calculateN x \<le> 10" if "fl (1 / 10) < x" "x \<le> 1"
  proof -
    have "0 < x" using that tenth(1) by linarith
    then show ?thesis using that branch1 [of x 1] calculateN_ends(1) by (simp add: calculateN_def)
  qed
  show "1 < x \<Longrightarrow> x \<le> 5 \<Longrightarrow> 10 \<le> calculateN x \<and> calculateN x \<le> 20"
    using branch2 [of x 5] branch2 [of 1 x] calculateN_ends(2) branch_starts(1) tenth
    by (auto simp: calculateN_def)
  show "5 < x \<Longrightarrow> x \<le> 50 \<Longrightarrow> 20 \<le> calculateN x \<and> calculateN x \<le> 100"
    using branch3 [of x 50] branch3 [of 5 x] calculateN_ends(3) branch_starts(2) tenth
    by (auto simp: calculateN_def)
qed

text \<open>The number of purchases is zero exactly for nothing to spend, otherwise between 1 and
  100, and more SOL never means fewer purchases, across all five branches of the formula and with
  every rounding of the arithmetic.\<close>

theorem calculateN_monotone:
  "(calculateN x = 0 \<longleftrightarrow> x \<le> 0) \<and> 0 \<le> calculateN x \<and> calculateN x \<le> 100 \<and>
   (x \<le> y \<longrightarrow> calculateN x \<le> calculateN y)"
proof -
  have tenth: "(0::rat) < fl (1 / 10)" "fl (1 / 10) < 1" by (simp, code_simp)
  have range: "0 \<le> calculateN z" "calculateN z \<le> 100" "0 < z \<Longrightarrow> 1 \<le> calculateN z" for z
    using calculateN_ranges [of z] by (auto simp: calculateN_def)
  have small: "z \<le> 0 \<Longrightarrow> calculateN z = 0" "0 < z \<Longrightarrow> z \<le> fl (1 / 10) \<Longrightarrow> calculateN z = 1"
    "50 < z \<Longrightarrow> calculateN z = 100" for z
    using tenth by (simp_all add: calculateN_def)
  have mono: "calculateN x \<le> calculateN y" if le: "x \<le> y"
  proof -
    consider "x \<le> 0" | "0 < x" "x \<le> fl (1 / 10)" | "fl (1 / 10) < x" "y \<le> 1" | "1 < x" "y \<le> 5"
      | "5 < x" "y \<le> 50" | "fl (1 / 10) < x" "x \<le> 1" "1 < y" | "1 < x" "x \<le> 5" "5 < y" | "50 < y"
      using le by linarith
    then show ?thesis
    proof cases
      case 3
      then have "0 < x" using tenth(1) by linarith
      then have "0 \<le> x" "\<not> x \<le> 0" "\<not> y \<le> 0" "\<not> y \<le> fl (1 / 10)" "x \<le> 1" using 3 le by linarith+
      then show ?thesis using branch1 [of x y] 3 le by (simp add: calculateN_def max.coboundedI2)
    next
      case 4
      then show ?thesis using branch2 [of x y] le tenth by (simp add: calculateN_def)
    next
      case 5
      then show ?thesis using branch3 [of x y] le tenth by (simp add: calculateN_def)
    next
      case 6
      then show ?thesis using calculateN_ranges [of x] calculateN_ranges(2,3) [of y] small(3) [of y] by linarith
    next
      case 7
      then show ?thesis using calculateN_ranges [of x] calculateN_ranges(3) [of y] small(3) [of y] by linarith
    qed (use small range le in \<open>auto intro: order.trans\<close>)
  qed
  with range small show ?thesis by (metis not_one_le_zero not_le)
qed

text \<open>With nothing held back for a hypothesis that could fail: the two monotone amounts used at a
  boundary of the formula.\<close>

theorem calculateN_monotone_witness: "calculateN (fl (3 / 10)) \<le> calculateN 1 \<and> calculateN (fl (3 / 10)) = 2"
proof -
  have "fl (3 / 10) \<le> 1" by code_simp
  then have "calculateN (fl (3 / 10)) \<le> calculateN 1"
    using calculateN_monotone [of "fl (3 / 10)" 1] by blast
  moreover have "calculateN (fl (3 / 10)) = 2" by code_simp
  ultimately show ?thesis ..
qed

lemma net_bounds: "is_double totalSol \<Longrightarrow> 0 \<le> n \<Longrightarrow> 0 \<le> totalSol \<Longrightarrow>
    0 \<le> netAmount (calculateFees totalSol n hasAta) \<and> netAmount (calculateFees totalSol n hasAta) \<le> totalSol"
  by (auto simp: calculateFees_def Let_def intro!: fsub_le fadd_nonneg fmul_nonneg)

end
