(* ===== verification/Timing.thy ===== *)
theory Timing
  imports Schedule
begin

text \<open>
  The size of each purchase (\<open>splitAmount\<close> of \<open>scheduler/fees.ts\<close>) and the
  moment of each (\<open>scheduler/timing.ts\<close>). Both draw from \<open>Math.random()\<close>, the
  argument \<open>rnd\<close>.
\<close>

section \<open>Splitting the amount\<close>

text \<open>The loop that rounds every part to nine decimals and gives the last one what is left;
  \<open>acc\<close> is the running \<open>sum\<close>.\<close>

fun round_parts :: "number \<Rightarrow> number \<Rightarrow> number list \<Rightarrow> number list" where
  "round_parts net acc [] = []"
| "round_parts net acc [a] = [round9 (fsub net acc)]"
| "round_parts net acc (a # b # as) = round9 a # round_parts net (fadd acc (round9 a)) (b # as)"

definition splitAmount :: "(nat \<Rightarrow> number) \<Rightarrow> number \<Rightarrow> int \<Rightarrow> number list" where
  "splitAmount rnd net n =
     (if n \<le> 0 \<or> net \<le> 0 then []
      else if n = 1 then [net]
      else let baseAmount = fdiv net (of_int n);
               variance = fl (1 / 10);
               multipliers = map (\<lambda>i. fadd (fsub 1 variance) (fmul (fmul (rnd i) variance) 2)) [0..<nat n];
               rawAmounts = map (fmul baseAmount) multipliers;
               rawTotal = foldl fadd 0 rawAmounts;
               amounts = map (\<lambda>a. fmul (fdiv a rawTotal) net) rawAmounts
           in round_parts net 0 amounts)"

lemma length_round_parts [simp]: "length (round_parts net acc as) = length as"
  by (induction net acc as rule: round_parts.induct) auto

lemma length_splitAmount: "0 < net \<Longrightarrow> length (splitAmount rnd net n) = nat n"
  by (simp add: splitAmount_def Let_def)

text \<open>The last part closes the sum: it is the nine-decimal rounding of what the parts before it,
  added up in the order and with the roundings of the code, leave of the amount.\<close>

lemma round_parts_last:
  "as \<noteq> [] \<Longrightarrow>
    last (round_parts net acc as) = round9 (fsub net (foldl fadd acc (butlast (round_parts net acc as))))"
proof (induction net acc as rule: round_parts.induct)
  case (3 net acc a b as)
  then have "round_parts net (fadd acc (round9 a)) (b # as) \<noteq> []"
    by (metis length_0_conv length_round_parts list.distinct(1))
  with 3 show ?case by simp
qed simp_all

text \<open>C37: the split gives one part per purchase, a single purchase gets the whole amount
  unrounded, and otherwise the last part is what the others leave of the amount to nine decimals,
  so what the parts were meant to add up to is the amount itself.\<close>

theorem split_closes:
  assumes "0 < net" and "0 < n"
  shows "length (splitAmount rnd net n) = nat n \<and>
    (n = 1 \<longrightarrow> splitAmount rnd net n = [net]) \<and>
    (1 < n \<longrightarrow> last (splitAmount rnd net n) =
        round9 (fsub net (foldl fadd 0 (butlast (splitAmount rnd net n)))))"
proof -
  have "last (splitAmount rnd net n) = round9 (fsub net (foldl fadd 0 (butlast (splitAmount rnd net n))))"
    if "1 < n"
    using that assms unfolding splitAmount_def Let_def
    by (simp only: if_False not_le less_imp_not_eq2 simp_thms if_cancel) (simp, rule round_parts_last, simp)
  then show ?thesis using assms by (simp add: length_splitAmount) (simp add: splitAmount_def)
qed

theorem split_closes_witness:
  "length (splitAmount (\<lambda>_. 1 / 2) 1 3) = 3 \<and>
   last (splitAmount (\<lambda>_. 1 / 2) 1 3) = round9 (fsub 1 (foldl fadd 0 (butlast (splitAmount (\<lambda>_. 1 / 2) 1 3))))"
  using split_closes [of 1 3 "\<lambda>_. 1 / 2"] by simp

section \<open>The schedule\<close>

definition slot_offset :: "(nat \<Rightarrow> number) \<Rightarrow> nat \<Rightarrow> number \<Rightarrow> number \<Rightarrow> nat \<Rightarrow> int" where
  "slot_offset rnd n slotSize minGapMs i =
     (let slotStart = fmul (of_nat i) slotSize;
          slotEnd = fmul (of_nat (i + 1)) slotSize;
          adjustedStart = (if i = 0 then slotStart else fadd slotStart (fdiv minGapMs 2));
          adjustedEnd = (if i = n - 1 then slotEnd else fsub slotEnd (fdiv minGapMs 2));
          offset = fadd adjustedStart (fmul (rnd i) (fsub adjustedEnd adjustedStart))
      in js_floor offset)"

definition generateScheduleOffsets :: "(nat \<Rightarrow> number) \<Rightarrow> int \<Rightarrow> number \<Rightarrow> number \<Rightarrow> int list" where
  "generateScheduleOffsets rnd n windowMs minGapMs =
     (if n \<le> 0 \<or> windowMs \<le> 0 then []
      else if n = 1 then [js_floor (fmul (rnd 0) (fdiv windowMs 2))]
      else let slotSize = fdiv windowMs (of_int n)
           in map (slot_offset rnd (nat n) slotSize minGapMs) [0..<nat n])"

definition createSchedule :: "(nat \<Rightarrow> number) \<Rightarrow> int \<Rightarrow> millis \<Rightarrow> number \<Rightarrow> millis list" where
  "createSchedule rnd n startTime windowMinutes =
     (let windowMs = fmul (fmul windowMinutes 60) 1000;
          offsets = generateScheduleOffsets rnd n windowMs 5000
      in map (\<lambda>offset. startTime + offset) offsets)"

definition sleep_delay :: "millis \<Rightarrow> millis \<Rightarrow> millis" where
  "sleep_delay now targetTime = max 0 (targetTime - now)"

text \<open>One rounding of a number below \<open>2^48\<close> in size moves it by at most 1/32.\<close>

lemma fl_near:
  assumes "\<bar>x\<bar> \<le> 281474976710656"
  shows "\<bar>fl x - x\<bar> \<le> 1 / 32"
proof -
  have "\<bar>fl x - x\<bar> \<le> \<bar>x\<bar> / 9007199254740992" by (rule fl_error)
  also have "\<dots> \<le> 281474976710656 / 9007199254740992" using assms by (rule divide_right_mono) simp
  finally show ?thesis by simp
qed

text \<open>The random moment lies in its slot, up to the rounding.\<close>

lemma moment_in_slot:
  assumes r: "0 \<le> r" "r < 1" and le: "a \<le> e" and a: "0 \<le> a" and e: "e \<le> 70368744177664"
  shows "a - 1 / 32 \<le> fadd a (fmul r (fsub e a))" and "fadd a (fmul r (fsub e a)) \<le> e + 1 / 8"
proof -
  let ?d = "fl (e - a)"
  have d: "0 \<le> ?d" "\<bar>?d - (e - a)\<bar> \<le> 1 / 32" using assms by (simp, intro fl_near) linarith
  have "r * ?d \<le> 1 * ?d" using r d by (intro mult_right_mono) auto
  then have "fl (r * ?d) \<le> fl ?d" by (intro fl_mono) simp
  then have m: "0 \<le> fl (r * ?d)" "fl (r * ?d) \<le> ?d" using r d by simp_all
  then have "\<bar>fl (a + fl (r * ?d)) - (a + fl (r * ?d))\<bar> \<le> 1 / 32"
    using d a le e by (intro fl_near) linarith
  then show "a - 1 / 32 \<le> fadd a (fmul r (fsub e a))" "fadd a (fmul r (fsub e a)) \<le> e + 1 / 8"
    using m d unfolding number_defs by linarith+
qed

lemma slot_edges:
  assumes "0 \<le> s" "of_nat k * s \<le> 35184372088832" "0 \<le> g" "g \<le> 35184372088832"
  shows "\<bar>fmul (of_nat k) s - of_nat k * s\<bar> \<le> 1 / 32" "0 \<le> fmul (of_nat k) s"
    "\<bar>fadd (fmul (of_nat k) s) g - (of_nat k * s + g)\<bar> \<le> 1 / 16"
    "\<bar>fsub (fmul (of_nat k) s) g - (of_nat k * s - g)\<bar> \<le> 1 / 16"
proof -
  have p: "0 \<le> of_nat k * s" using assms by simp
  then have f: "\<bar>fl (of_nat k * s) - of_nat k * s\<bar> \<le> 1 / 32" using assms by (intro fl_near) linarith
  then show "\<bar>fmul (of_nat k) s - of_nat k * s\<bar> \<le> 1 / 32" "0 \<le> fmul (of_nat k) s"
    using p unfolding fmul_def by simp_all
  have "\<bar>fl (fl (of_nat k * s) + g) - (fl (of_nat k * s) + g)\<bar> \<le> 1 / 32"
    "\<bar>fl (fl (of_nat k * s) - g) - (fl (of_nat k * s) - g)\<bar> \<le> 1 / 32"
    using assms f p by (intro fl_near; linarith)+
  with f show "\<bar>fadd (fmul (of_nat k) s) g - (of_nat k * s + g)\<bar> \<le> 1 / 16"
    "\<bar>fsub (fmul (of_nat k) s) g - (of_nat k * s - g)\<bar> \<le> 1 / 16"
    unfolding number_defs by linarith+
qed

text \<open>The edges of a slot and the moment drawn in it, with \<open>s\<close> the slot size as computed and
  \<open>h\<close> half the minimum gap: the moment keeps half a gap from the neighbouring slots.\<close>

lemma slot_moment:
  assumes r: "0 \<le> rnd i" "rnd i < 1" and i: "i < n" and h: "0 \<le> fdiv g 2" "2 * fdiv g 2 + 1 \<le> s"
    and big: "of_nat n * s \<le> 35184372088832"
  shows "of_nat i * s + (if i = 0 then 0 else fdiv g 2) - 5 / 4 < of_int (slot_offset rnd n s g i)"
    and "of_int (slot_offset rnd n s g i) \<le> of_nat (Suc i) * s - (if Suc i = n then 0 else fdiv g 2) + 7 / 32"
    and "0 \<le> slot_offset rnd n s g i"
proof -
  let ?h = "fdiv g 2"
  let ?a = "if i = 0 then fmul (of_nat i) s else fadd (fmul (of_nat i) s) ?h"
  let ?e = "if i = n - 1 then fmul (of_nat (Suc i)) s else fsub (fmul (of_nat (Suc i)) s) ?h"
  have s: "0 \<le> s" using h by linarith
  have "of_nat (Suc i) * s \<le> of_nat n * s" using i s by (intro mult_right_mono) simp_all
  then have b: "of_nat (Suc i) * s \<le> 35184372088832" and b': "of_nat i * s \<le> 35184372088832"
    using big s by (simp_all add: algebra_simps)
  have si: "of_nat (Suc i) * s = of_nat i * s + s" by (simp add: algebra_simps)
  have p: "0 \<le> of_nat i * s" using s by simp
  have hb: "?h \<le> 35184372088832" using h b si p by linarith
  note edge = slot_edges [OF s b' h(1) hb] slot_edges [OF s b h(1) hb]
  have last: "(i = n - 1) = (Suc i = n)" using i by auto
  have a: "0 \<le> ?a \<and> ?a \<le> of_nat i * s + (if i = 0 then 0 else ?h) + 1 / 16 \<and>
      of_nat i * s + (if i = 0 then 0 else ?h) - 1 / 16 \<le> ?a"
    using edge(1,2,3) fadd_nonneg [OF edge(2) h(1)]
    by (cases "i = 0"; simp only: if_True if_False simp_thms; linarith)
  have e: "?e \<le> of_nat (Suc i) * s - (if Suc i = n then 0 else ?h) + 1 / 16 \<and>
      of_nat (Suc i) * s - (if Suc i = n then 0 else ?h) - 1 / 16 \<le> ?e"
    using edge(5,8) unfolding last
    by (cases "Suc i = n"; simp only: if_True if_False simp_thms; linarith)
  have le: "?a \<le> ?e" using a e h si by (auto split: if_splits)
  have eb: "?e \<le> 70368744177664" using e b h by (auto split: if_splits)
  note m = moment_in_slot [OF r le conjunct1 [OF a] eb]
  let ?m = "fadd ?a (fmul (rnd i) (fsub ?e ?a))"
  have o: "slot_offset rnd n s g i = \<lfloor>?m\<rfloor>"
    by (simp add: slot_offset_def Let_def js_floor_def)
  have f: "of_int \<lfloor>?m\<rfloor> \<le> ?m" "?m < of_int \<lfloor>?m\<rfloor> + 1" by linarith+
  show "of_nat i * s + (if i = 0 then 0 else ?h) - 5 / 4 < of_int (slot_offset rnd n s g i)"
    unfolding o using f(2) m(1) a by linarith
  show "of_int (slot_offset rnd n s g i) \<le> of_nat (Suc i) * s - (if Suc i = n then 0 else ?h) + 7 / 32"
    unfolding o using f(1) m(2) e by linarith
  have "0 \<le> ?m" using a le r by (intro fadd_nonneg fmul_nonneg fsub_nonneg) auto
  then show "0 \<le> slot_offset rnd n s g i" unfolding o by simp
qed

text \<open>The slot size is the window divided by the purchases, up to one rounding.\<close>

lemma slot_size_near:
  assumes "0 < n" "0 \<le> w" "w \<le> 17592186044416"
  shows "\<bar>of_nat n * fdiv w (of_nat n) - w\<bar> \<le> 1 / 32"
proof -
  let ?q = "w / of_nat n"
  have "\<bar>fl ?q - ?q\<bar> \<le> ?q / 9007199254740992"
    using fl_error [of ?q] assms by simp
  then have "of_nat n * \<bar>fl ?q - ?q\<bar> \<le> of_nat n * (?q / 9007199254740992)"
    by (rule mult_left_mono) simp
  also have "\<dots> = w / 9007199254740992" using assms by simp
  also have "\<dots> \<le> 1 / 32" using assms by simp
  finally have "\<bar>of_nat n * (fl ?q - ?q)\<bar> \<le> 1 / 32" by (simp add: abs_mult)
  then show ?thesis using assms by (simp add: fdiv_def algebra_simps)
qed

text \<open>C38: the schedule of a batch. For a window of whole minutes cut into at least two slots that are
  at least 5001 ms wide, one moment is drawn per purchase, every moment lies in the window, and two
  consecutive purchases are at least 4999 ms apart, whatever \<open>Math.random\<close> returns and with
  every rounding of the arithmetic (the code asks for 5000, floors cost one).\<close>

theorem schedule_spacing:
  assumes rnd: "\<And>i. 0 \<le> rnd i \<and> rnd i < 1" and n: "2 \<le> n" and m: "0 < m" "m \<le> 100000000"
    and slot: "5001 * n \<le> m * 60000"
  shows "length (createSchedule rnd n start (of_int m)) = nat n \<and>
    (\<forall>t \<in> set (createSchedule rnd n start (of_int m)). start \<le> t \<and> t \<le> start + m * 60000) \<and>
    (\<forall>i. Suc i < nat n \<longrightarrow>
       createSchedule rnd n start (of_int m) ! i + 4999 \<le> createSchedule rnd n start (of_int m) ! Suc i)"
proof -
  let ?w = "of_int m * 60000 :: rat" and ?n = "nat n"
  let ?s = "fdiv ?w (of_nat ?n)"
  let ?o = "slot_offset rnd ?n ?s 5000"
  have w: "fmul (fmul (of_int m) 60) 1000 = ?w"
    using fl_of_int [of "m * 60"] fl_of_int [of "60000 * m"] m by (simp add: fmul_def mult.commute)
  have nn: "of_nat ?n = (of_int n :: rat)" using n by simp
  have sched: "createSchedule rnd n start (of_int m) = map (\<lambda>i. start + ?o i) [0..<?n]"
    using n m by (simp add: createSchedule_def generateScheduleOffsets_def w Let_def)
  have h: "fdiv 5000 2 = 2500" by (simp add: fdiv_def)
  have "(of_int (m * 60000) :: rat) \<le> of_int (100000000 * 60000)" unfolding of_int_le_iff using m by simp
  then have wb: "?w \<le> 17592186044416" by simp
  have wp: "0 \<le> ?w" using m by simp
  have near: "\<bar>of_nat ?n * ?s - ?w\<bar> \<le> 1 / 32"
    by (rule slot_size_near [OF _ wp wb]) (use n in simp)
  then have big: "of_nat ?n * ?s \<le> 35184372088832" using wb by linarith
  have "(of_int (5001 * n) :: rat) \<le> of_int (m * 60000)" unfolding of_int_le_iff by (rule slot)
  then have "5001 \<le> ?w / of_nat ?n" using n by (simp add: pos_le_divide_eq)
  then have "fl 5001 \<le> ?s" unfolding fdiv_def by (rule fl_mono)
  then have s: "2 * fdiv 5000 2 + 1 \<le> ?s" unfolding h by simp
  have h0: "0 \<le> fdiv 5000 2" by (simp add: h)
  note mom = slot_moment [of rnd _ ?n 5000 ?s, OF conjunct1 [OF rnd] conjunct2 [OF rnd] _ h0 s big, unfolded h]
  have low: "0 \<le> ?o i" if "i < ?n" for i using mom(3) [OF that] .
  have high: "?o i \<le> m * 60000" if "i < ?n" for i
  proof -
    have "of_nat (Suc i) * ?s \<le> of_nat ?n * ?s" using that s unfolding h by (intro mult_right_mono) simp_all
    moreover have "(0::rat) \<le> (if Suc i = ?n then 0 else 2500)" by simp
    ultimately have "of_int (?o i) < ?w + 1" using mom(2) [OF that] near by linarith
    then have "of_int (?o i) < (of_int (m * 60000 + 1) :: rat)" by simp
    then show ?thesis unfolding of_int_less_iff by simp
  qed
  have gap: "?o i + 4999 \<le> ?o (Suc i)" if "Suc i < ?n" for i
  proof -
    have "of_int (?o i) \<le> of_nat (Suc i) * ?s - 2500 + 7 / 32"
      using mom(2) [of i] that by simp
    moreover have "of_nat (Suc i) * ?s + 2500 - 5 / 4 < of_int (?o (Suc i))"
      using mom(1) [OF that] by simp
    ultimately have "(of_int (?o i + 4998) :: rat) < of_int (?o (Suc i))" by simp
    then show ?thesis unfolding of_int_less_iff by simp
  qed
  show ?thesis unfolding sched using low high gap by auto
qed

theorem schedule_spacing_witness:
  "length (createSchedule (\<lambda>_. 1 / 2) 4 1000 (of_int 20)) = 4 \<and>
   list_all (\<lambda>t. 1000 \<le> t \<and> t \<le> 1201000) (createSchedule (\<lambda>_. 1 / 2) 4 1000 (of_int 20)) \<and>
   createSchedule (\<lambda>_. 1 / 2) 4 1000 (of_int 20) ! 0 + 4999 \<le> createSchedule (\<lambda>_. 1 / 2) 4 1000 (of_int 20) ! 1"
  using schedule_spacing [of "\<lambda>_. 1 / 2" 4 20 1000] by (simp del: of_int_numeral add: list_all_iff)

end
