(* ===== verification/Batch_State.thy ===== *)
theory Batch_State
  imports Errors Schedule
begin

text \<open>
  The state of one batch of purchases and its manager (\<open>scheduler/types.ts\<close>,
  \<open>scheduler/state.ts\<close>). The manager holds the state in memory and the file it is written
  to; every change is followed by \<open>save\<close>. The lemmas say that whatever is in memory is on
  disk after each operation, that the summary always matches the purchases, and that no operation
  adds, removes or renumbers a purchase, so the "not found" exception of \<open>updatePurchase\<close>
  cannot arise in a batch that walks its own purchases.
\<close>

section \<open>Types\<close>

datatype PurchaseStatus = PPending | PInProgress | PCompleted | PFailed | PAbandoned

record SentAttemptRecord =
  sa_signature :: signature
  sa_limit :: int
  sa_at :: millis

record PurchaseRecord =
  p_id :: string
  p_index :: int
  p_scheduledAt :: millis
  p_solAmount :: number
  p_plannedSolAmount :: "number option"
  p_status :: PurchaseStatus
  p_signature :: "signature option"
  p_pendingSignature :: "signature option"
  p_pendingLimit :: "int option"
  p_sentAttempts :: "SentAttemptRecord list"
  p_venue :: "venue option"
  p_attempts :: int
  p_lastSlippageBps :: "number option"
  p_errorMessage :: "string option"
  p_updatedAt :: millis

record BatchSummary =
  completedPurchases :: int
  abandonedPurchases :: int
  totalSolSpent :: number
  bs_startedAt :: millis
  bs_finishedAt :: "millis option"
  retryStartedAt :: "millis option"
  retryEndsAt :: "millis option"

record BatchConfig =
  windowMinutes :: number
  retryBufferMinutes :: number
  startSlippageBps :: number
  maxSlippageBps :: number
  cfg_hadAtaAtStart :: bool

text \<open>The nested counters of \<open>BatchMetrics\<close> are a map from their dot path.\<close>

type_synonym metrics = "(string, bigint) jmap"

record BatchState =
  runId :: string
  b_mint :: mint
  totalSolAmount :: number
  purchaseCount :: int
  b_config :: BatchConfig
  purchases :: "PurchaseRecord list"
  b_summary :: BatchSummary
  b_metrics :: metrics

record BatchMgr =
  bstate :: BatchState
  bdisk :: "BatchState option"
  bpath :: string

section \<open>The manager\<close>

definition b_save :: "BatchMgr \<Rightarrow> BatchMgr" where
  "b_save m = m\<lparr>bdisk := Some (bstate m)\<rparr>"

definition batch_metric_names :: "string list" where
  "batch_metric_names =
    [''venueRouting.pumpfunDirect'', ''venueRouting.dexDirect'', ''venueRouting.fallbackToDex'',
     ''venueRouting.fallbackToPumpswap'', ''venueRouting.postSendErrorBlocked'',
     ''pumpfun.graduationDetected'', ''pumpfun.simulationFailed'', ''pumpfun.sendFailed'',
     ''pumpfun.onChainFailure'', ''pumpfun.token2022Used'',
     ''dex.quoteFailed'', ''dex.noRoute'', ''dex.swapBuildFailed'', ''dex.timeout'', ''dex.onChainFailure'',
     ''balance.shrunkToFit'', ''balance.abandonedEmpty'', ''balance.shrunkAfterFailure'',
     ''retry.slippageInstantRetry'', ''retry.slippageInstantRetrySuccess'',
     ''retry.slippageInstantRetryFail'', ''retry.pendingTxConfirmed'', ''retry.inFlightStopped'',
     ''retry.nonRetryableAbandon'', ''retry.retryableDeferred'', ''retry.unknownDeferred'',
     ''retry.retrySuccess'', ''retry.maxAttemptsAbandon'', ''retry.windowExpiredAbandon'',
     ''errors.retryable'', ''errors.nonRetryable'', ''errors.unknown'']"

definition createEmptyBatchMetrics :: metrics where
  "createEmptyBatchMetrics = map (\<lambda>k. (k, 0)) batch_metric_names"

definition b_create :: "millis \<Rightarrow> string \<Rightarrow> mint \<Rightarrow> number \<Rightarrow> PurchaseRecord list \<Rightarrow> BatchConfig \<Rightarrow> string \<Rightarrow> BatchMgr" where
  "b_create now rid mnt tot ps cfg path =
     b_save \<lparr>bstate = \<lparr>runId = rid, b_mint = mnt, totalSolAmount = tot,
         purchaseCount = int (length ps), b_config = cfg, purchases = ps,
         b_summary = \<lparr>completedPurchases = 0, abandonedPurchases = 0, totalSolSpent = 0,
           bs_startedAt = now, bs_finishedAt = None, retryStartedAt = None, retryEndsAt = None\<rparr>,
         b_metrics = createEmptyBatchMetrics\<rparr>,
       bdisk = None, bpath = path\<rparr>"

definition getPurchase :: "int \<Rightarrow> BatchMgr \<Rightarrow> PurchaseRecord option" where
  "getPurchase i m = List.find (\<lambda>p. p_index p = i) (purchases (bstate m))"

definition getPendingPurchases :: "BatchMgr \<Rightarrow> PurchaseRecord list" where
  "getPendingPurchases m = filter (\<lambda>p. p_status p = PPending) (purchases (bstate m))"

definition getFailedPurchases :: "BatchMgr \<Rightarrow> PurchaseRecord list" where
  "getFailedPurchases m = filter (\<lambda>p. p_status p = PFailed) (purchases (bstate m))"

definition summary_of :: "PurchaseRecord list \<Rightarrow> BatchSummary \<Rightarrow> BatchSummary" where
  "summary_of ps s =
     (let completed = filter (\<lambda>p. p_status p = PCompleted) ps;
          abandoned = filter (\<lambda>p. p_status p = PAbandoned) ps
      in s\<lparr>completedPurchases := int (length completed), abandonedPurchases := int (length abandoned),
          totalSolSpent := foldl (\<lambda>sum p. fadd sum (p_solAmount p)) 0 completed\<rparr>)"

definition updateSummary :: "BatchMgr \<Rightarrow> BatchMgr" where
  "updateSummary m = m\<lparr>bstate := (bstate m)\<lparr>b_summary :=
     summary_of (purchases (bstate m)) (b_summary (bstate m))\<rparr>\<rparr>"

definition updatePurchase ::
  "millis \<Rightarrow> int \<Rightarrow> (PurchaseRecord \<Rightarrow> PurchaseRecord) \<Rightarrow> BatchMgr \<Rightarrow> string + BatchMgr" where
  "updatePurchase now i f m =
     (case getPurchase i m of
        None \<Rightarrow> Inl (''Purchase '' @ show_nat i @ '' not found'')
      | Some _ \<Rightarrow> Inr (b_save (updateSummary (m\<lparr>bstate := (bstate m)\<lparr>purchases :=
          upd_first (\<lambda>p. p_index p = i) (\<lambda>p. (f p)\<lparr>p_updatedAt := now\<rparr>) (purchases (bstate m))\<rparr>\<rparr>))))"

definition recordSentAttempt :: "millis \<Rightarrow> int \<Rightarrow> signature \<Rightarrow> int \<Rightarrow> BatchMgr \<Rightarrow> string + BatchMgr" where
  "recordSentAttempt now i sig limit m =
     (case getPurchase i m of
        None \<Rightarrow> Inl (''Purchase '' @ show_nat i @ '' not found'')
      | Some p \<Rightarrow> updatePurchase now i (\<lambda>q. q\<lparr>p_pendingSignature := Some sig, p_pendingLimit := Some limit,
          p_sentAttempts := p_sentAttempts p @ [\<lparr>sa_signature = sig, sa_limit = limit, sa_at = now\<rparr>]\<rparr>) m)"

definition markInProgress :: "millis \<Rightarrow> int \<Rightarrow> number \<Rightarrow> BatchMgr \<Rightarrow> string + BatchMgr" where
  "markInProgress now i slip m =
     updatePurchase now i (\<lambda>p. p\<lparr>p_status := PInProgress, p_lastSlippageBps := Some slip\<rparr>) m"

definition markCompleted :: "millis \<Rightarrow> int \<Rightarrow> signature \<Rightarrow> venue \<Rightarrow> BatchMgr \<Rightarrow> string + BatchMgr" where
  "markCompleted now i sig v m =
     (case getPurchase i m of
        None \<Rightarrow> Inr m
      | Some p \<Rightarrow> updatePurchase now i (\<lambda>q. q\<lparr>p_status := PCompleted, p_signature := Some sig,
          p_venue := Some v, p_attempts := p_attempts p + 1\<rparr>) m)"

definition markFailed :: "millis \<Rightarrow> int \<Rightarrow> string \<Rightarrow> BatchMgr \<Rightarrow> string + BatchMgr" where
  "markFailed now i msg m =
     (case getPurchase i m of
        None \<Rightarrow> Inr m
      | Some p \<Rightarrow> updatePurchase now i (\<lambda>q. q\<lparr>p_status := PFailed, p_errorMessage := Some msg,
          p_attempts := p_attempts p + 1\<rparr>) m)"

definition markAbandoned :: "millis \<Rightarrow> int \<Rightarrow> string \<Rightarrow> BatchMgr \<Rightarrow> string + BatchMgr" where
  "markAbandoned now i msg m =
     updatePurchase now i (\<lambda>p. p\<lparr>p_status := PAbandoned, p_errorMessage := Some msg\<rparr>) m"

definition resetForRetry :: "millis \<Rightarrow> int \<Rightarrow> BatchMgr \<Rightarrow> string + BatchMgr" where
  "resetForRetry now i m =
     updatePurchase now i (\<lambda>p. p\<lparr>p_status := PPending, p_errorMessage := None\<rparr>) m"

definition markRetryWindow :: "millis \<Rightarrow> millis \<Rightarrow> BatchMgr \<Rightarrow> BatchMgr" where
  "markRetryWindow startedAt endsAt m = b_save (m\<lparr>bstate := (bstate m)\<lparr>b_summary :=
     (b_summary (bstate m))\<lparr>retryStartedAt := Some startedAt, retryEndsAt := Some endsAt\<rparr>\<rparr>\<rparr>)"

definition b_incrementMetric :: "string \<Rightarrow> bigint \<Rightarrow> BatchMgr \<Rightarrow> BatchMgr" where
  "b_incrementMetric path n m = b_save (m\<lparr>bstate := (bstate m)\<lparr>b_metrics :=
     jm_add path n (b_metrics (bstate m))\<rparr>\<rparr>)"

definition incrementErrorPattern :: "string \<Rightarrow> BatchMgr \<Rightarrow> BatchMgr" where
  "incrementErrorPattern pattern m = b_incrementMetric (''errors.byPattern.'' @ pattern) 1 m"

definition b_finalize :: "millis \<Rightarrow> BatchMgr \<Rightarrow> BatchMgr" where
  "b_finalize now m = b_save (m\<lparr>bstate := (bstate m)\<lparr>b_summary :=
     (b_summary (bstate m))\<lparr>bs_finishedAt := Some now\<rparr>\<rparr>\<rparr>)"

section \<open>Invariants of the manager\<close>

definition indices :: "BatchMgr \<Rightarrow> int list" where
  "indices m = map p_index (purchases (bstate m))"

definition b_synced :: "BatchMgr \<Rightarrow> bool" where
  "b_synced m \<longleftrightarrow> bdisk m = Some (bstate m)"

definition summary_ok :: "BatchMgr \<Rightarrow> bool" where
  "summary_ok m \<longleftrightarrow>
     (let ps = purchases (bstate m); s = b_summary (bstate m) in
      completedPurchases s = int (length (filter (\<lambda>p. p_status p = PCompleted) ps)) \<and>
      abandonedPurchases s = int (length (filter (\<lambda>p. p_status p = PAbandoned) ps)) \<and>
      totalSolSpent s = foldl (\<lambda>sum p. fadd sum (p_solAmount p)) 0 (filter (\<lambda>p. p_status p = PCompleted) ps))"

definition mgr_ok :: "int list \<Rightarrow> BatchMgr \<Rightarrow> bool" where
  "mgr_ok is m \<longleftrightarrow> indices m = is \<and> b_synced m \<and> summary_ok m"

lemma summary_ok_update [simp]: "summary_ok (b_save (updateSummary m))"
  by (simp add: summary_ok_def b_save_def updateSummary_def summary_of_def Let_def)

lemma b_synced_save [simp]: "b_synced (b_save m)"
  by (simp add: b_synced_def b_save_def)

lemma getPurchase_iff: "getPurchase i m = None \<longleftrightarrow> i \<notin> set (indices m)"
  by (simp add: getPurchase_def indices_def find_None_iff_map del: set_map)

lemma getPurchase_index: "getPurchase i m = Some p \<Longrightarrow> p_index p = i \<and> p \<in> set (purchases (bstate m))"
  by (auto simp: getPurchase_def elim: find_SomeE)

lemma getPurchase_exists: "i \<in> set (indices m) \<Longrightarrow> \<exists>p. getPurchase i m = Some p"
  using getPurchase_iff [of i m] by auto

text \<open>The update as the record sees it: the purchase with that index, and it alone, changes.\<close>

lemma get_updatePurchase:
  assumes "getPurchase i m = Some r" "\<And>r. p_index (f r) = p_index r" "updatePurchase now i f m = Inr m'"
  shows "getPurchase j m' = (if j = i then Some ((f r)\<lparr>p_updatedAt := now\<rparr>) else getPurchase j m)"
proof -
  have "getPurchase j m' = List.find (\<lambda>p. p_index p = j) (upd_first (\<lambda>p. p_index p = i)
      (\<lambda>p. (f p)\<lparr>p_updatedAt := now\<rparr>) (purchases (bstate m)))"
    using assms(1,3) by (auto simp: updatePurchase_def getPurchase_def b_save_def updateSummary_def)
  then show ?thesis using assms(1,2)
    by (auto simp: getPurchase_def find_upd_first intro!: find_upd_first_other)
qed

interpretation purchases: record_store p_index getPurchase "updatePurchase now" "\<lambda>p. p\<lparr>p_updatedAt := now\<rparr>" b_synced
  for now
proof unfold_locales
  show "p_index r = k" if "getPurchase k m = Some r" for k m r
    using getPurchase_index [OF that] by simp
  show "isl (updatePurchase now k f m)" if "getPurchase k m = None" for k m f
    using that by (simp add: updatePurchase_def)
  show "\<not> isl (updatePurchase now k f m)" if "getPurchase k m = Some r" for k m f r
    using that by (simp add: updatePurchase_def)
  show "b_synced m'" if "updatePurchase now k f m = Inr m'" for k f m m'
    using that by (auto simp: updatePurchase_def split: option.splits)
qed (rule get_updatePurchase)

definition keeps_index :: "(PurchaseRecord \<Rightarrow> PurchaseRecord) \<Rightarrow> bool" where
  "keeps_index f \<longleftrightarrow> (\<forall>p. p_index (f p) = p_index p)"

lemmas update_get = purchases.get_sure

lemma update_mgr_ok: "mgr_ok is m \<Longrightarrow> keeps_index f \<Longrightarrow> mgr_ok is (sure m (updatePurchase now i f m))"
  by (auto simp: updatePurchase_def sure_def mgr_ok_def indices_def keeps_index_def map_upd_first
      updateSummary_def summary_ok_def b_synced_def b_save_def summary_of_def Let_def
      split: option.split)

lemma metric_mgr_ok [simp]: "mgr_ok is m \<Longrightarrow> mgr_ok is (b_incrementMetric k n m)"
  by (simp add: mgr_ok_def indices_def b_incrementMetric_def b_save_def b_synced_def summary_ok_def Let_def)

lemma metric_get [simp]: "getPurchase i (b_incrementMetric k n m) = getPurchase i m"
  by (simp add: getPurchase_def b_incrementMetric_def b_save_def)

lemma metric_purchases [simp]: "purchases (bstate (b_incrementMetric k n m)) = purchases (bstate m)"
  by (simp add: b_incrementMetric_def b_save_def)

end
