(* ===== verification/Outcome.thy ===== *)
theory Outcome
  imports Prelude
begin

text \<open>
  Whether a signed transaction has landed, never will, or may still
  (\<open>solana/signatureOutcome.ts\<close>). The two answers of the node are arguments: the finalized
  height, asked first and only when the limit of the blockhash is known, and the status of the
  signature. \<open>None\<close> is a request that threw. The property ties \<open>absent\<close> to the chain:
  under the laws the comment of the file states, an absent transaction is in no block, now or later.
\<close>

datatype SignatureOutcome = Landed | Absent | FailedOnChain | UnknownYet

datatype commitment = Processed | Confirmed | Finalized

record status_value =
  sv_err :: bool
  sv_conf :: "commitment option"

definition EXPIRY_MARGIN_BLOCKS :: int where "EXPIRY_MARGIN_BLOCKS = 32"

type_synonym status_answer = "status_value option option"

definition signatureOutcome :: "int option \<Rightarrow> int option \<Rightarrow> status_answer \<Rightarrow> SignatureOutcome" where
  "signatureOutcome lastValidBlockHeight height status =
     (if lastValidBlockHeight \<noteq> None \<and> height = None then UnknownYet
      else case status of
        None \<Rightarrow> UnknownYet
      | Some None \<Rightarrow>
          (case lastValidBlockHeight of
             Some limit \<Rightarrow> if the height \<le> limit + EXPIRY_MARGIN_BLOCKS then UnknownYet else Absent
           | None \<Rightarrow> Absent)
      | Some (Some v) \<Rightarrow>
          if sv_err v then FailedOnChain
          else if sv_conf v = Some Confirmed \<or> sv_conf v = Some Finalized then Landed
          else UnknownYet)"

lemma outcome_absent_iff:
  "signatureOutcome limit height status = Absent \<longleftrightarrow>
    status = Some None \<and> (limit = None \<or> (\<exists>l h. limit = Some l \<and> height = Some h \<and> l + EXPIRY_MARGIN_BLOCKS < h))"
  by (auto simp: signatureOutcome_def split: option.splits)

lemma outcome_decided:
  "signatureOutcome limit height status = Landed \<longleftrightarrow> (limit = None \<or> height \<noteq> None) \<and>
     (\<exists>v. status = Some (Some v) \<and> \<not> sv_err v \<and> sv_conf v \<in> {Some Confirmed, Some Finalized})"
  "signatureOutcome limit height status = FailedOnChain \<longleftrightarrow> (limit = None \<or> height \<noteq> None) \<and>
     (\<exists>v. status = Some (Some v) \<and> sv_err v)"
  by (auto simp: signatureOutcome_def split: option.splits)

text \<open>C20: a signature judged \<open>absent\<close> under its blockhash limit is in no block and never will be.
  \<open>block_of\<close> gives the height of the block a signature is ever included in. The hypotheses are the
  documented behaviour of the chain and the node: no block above the limit takes the transaction; the
  node that answers the status knows every block up to its own height \<open>view\<close>; and that height
  is behind the finalized height read before by no more than the margin.\<close>

theorem absent_is_final:
  assumes "signatureOutcome (Some limit) (Some h) status = Absent"
    and expiry: "\<And>k. block_of s = Some k \<Longrightarrow> k \<le> limit"
    and node: "\<And>k. block_of s = Some k \<Longrightarrow> k \<le> view \<Longrightarrow> status \<noteq> Some None"
    and behind: "h - EXPIRY_MARGIN_BLOCKS \<le> view"
  shows "block_of s = None"
proof (cases "block_of s")
  case (Some k)
  from assms(1) have "status = Some None" "limit + EXPIRY_MARGIN_BLOCKS < h"
    by (auto simp: outcome_absent_iff)
  then show ?thesis using expiry [OF Some] node [OF Some] behind by simp
qed

theorem absent_is_final_witness:
  "signatureOutcome (Some 1000) (Some 1033) (Some None) = Absent \<and> (\<lambda>_::signature. None :: int option) ''s'' = None"
proof -
  have "signatureOutcome (Some 1000) (Some 1033) (Some None) = Absent" by code_simp
  moreover from this have "(\<lambda>_::signature. None :: int option) ''s'' = None"
    by (rule absent_is_final [where view = 1001]) (simp_all add: EXPIRY_MARGIN_BLOCKS_def)
  ultimately show ?thesis by simp
qed

end
