(* ===== verification/Batch.thy ===== *)
theory Batch
  imports Batch_State Outcome Timing
begin

text \<open>
  The purchase of one coin (\<open>scheduler/batch.ts\<close>): planning, the main loop with its three
  recoveries (an expired blockhash, an empty keeper, slippage), the retry phase and the end. The
  world is the state manager, the flag of the drained keeper, the number of answers received from
  outside and the trace of what was bought and asked. What the code cannot decide (the purchase path,
  the node, the balance, the clock) are functions of that number: a fresh answer each time.
\<close>

section \<open>The outside and the world\<close>

record BuyResult =
  res_signature :: signature
  res_venue :: venue
  res_fallback :: bool

text \<open>One call of \<open>buy\<close>: the attempts it reported through \<open>onSigned\<close>, each with its blockhash
  limit, and how it ended.\<close>

record buy_answer =
  ans_signed :: "(signature \<times> int) list"
  ans_result :: "js_error + BuyResult"

record outside =
  ask_buy :: "nat \<Rightarrow> number \<Rightarrow> number \<Rightarrow> buy_answer"
  ask_height :: "nat \<Rightarrow> int option"
  ask_status :: "nat \<Rightarrow> signature \<Rightarrow> status_answer"
  ask_balance :: "nat \<Rightarrow> int option"
  clock :: "nat \<Rightarrow> millis"

text \<open>What happened, tagged with the purchase it happened for.\<close>

datatype event =
    EvBuy int number number buy_answer
  | EvOutcome int signature "int option" SignatureOutcome
  | EvSleep int millis

record world =
  w_mgr :: BatchMgr
  w_drained :: bool
  w_step :: nat
  w_trace :: "event list"

definition mut :: "outside \<Rightarrow> (millis \<Rightarrow> BatchMgr \<Rightarrow> string + BatchMgr) \<Rightarrow> world \<Rightarrow> world" where
  "mut env f w = w\<lparr>w_mgr := sure (w_mgr w) (f (clock env (w_step w)) (w_mgr w))\<rparr>"

definition met :: "string \<Rightarrow> world \<Rightarrow> world" where
  "met k w = w\<lparr>w_mgr := b_incrementMetric k 1 (w_mgr w)\<rparr>"

definition log_event :: "event \<Rightarrow> world \<Rightarrow> world" where
  "log_event ev w = w\<lparr>w_step := w_step w + 1, w_trace := w_trace w @ [ev]\<rparr>"

definition current :: "int \<Rightarrow> world \<Rightarrow> PurchaseRecord option" where
  "current i w = getPurchase i (w_mgr w)"

section \<open>Constants\<close>

definition DEFAULT_WINDOW_MINUTES :: number where "DEFAULT_WINDOW_MINUTES = 20"
definition DEFAULT_RETRY_BUFFER_MINUTES :: number where "DEFAULT_RETRY_BUFFER_MINUTES = 3"
definition RETRY_SECONDS_PER_PURCHASE :: int where "RETRY_SECONDS_PER_PURCHASE = 25"
definition MAX_RETRY_WINDOW_MINUTES :: number where "MAX_RETRY_WINDOW_MINUTES = 15"
definition DEFAULT_START_SLIPPAGE_BPS :: number where "DEFAULT_START_SLIPPAGE_BPS = 300"
definition DEFAULT_MAX_SLIPPAGE_BPS :: number where "DEFAULT_MAX_SLIPPAGE_BPS = 1300"
definition IN_FLIGHT_POLL_MS :: millis where "IN_FLIGHT_POLL_MS = 5000"
definition IN_FLIGHT_POLLS :: nat where "IN_FLIGHT_POLLS = 24"
definition MAX_EXPIRY_RESIGNS :: nat where "MAX_EXPIRY_RESIGNS = 2"
definition MIN_PURCHASE_SOL :: number where "MIN_PURCHASE_SOL = fl (1 / 1000)"

section \<open>What became of a sent transaction\<close>

datatype PendingVerdict = VLanded signature | VClear | VInFlight signature

definition sleepUntil :: "int \<Rightarrow> millis \<Rightarrow> world \<Rightarrow> world" where
  "sleepUntil i t w = log_event (EvSleep i t) w"

definition ask_outcome :: "outside \<Rightarrow> int \<Rightarrow> signature \<Rightarrow> int option \<Rightarrow> world \<Rightarrow> SignatureOutcome \<times> world" where
  "ask_outcome env i sig limit w =
     (let out = signatureOutcome limit (ask_height env (w_step w)) (ask_status env (w_step w) sig)
      in (out, log_event (EvOutcome i sig limit out) w))"

fun signatureVerdict ::
  "outside \<Rightarrow> int \<Rightarrow> signature \<Rightarrow> int option \<Rightarrow> nat \<Rightarrow> world \<Rightarrow> PendingVerdict \<times> world" where
  "signatureVerdict env i sig limit polls w =
     (let (out, w') = ask_outcome env i sig limit w
      in if out = Landed then (VLanded sig, w')
         else if out = Absent \<or> out = FailedOnChain then (VClear, w')
         else if limit = None then (VClear, w')
         else case polls of
             0 \<Rightarrow> (VInFlight sig, w')
           | Suc n \<Rightarrow> signatureVerdict env i sig limit n
               (sleepUntil i (clock env (w_step w') + IN_FLIGHT_POLL_MS) w'))"

definition pendingVerdict :: "outside \<Rightarrow> int \<Rightarrow> js_error \<Rightarrow> nat \<Rightarrow> world \<Rightarrow> PendingVerdict \<times> world" where
  "pendingVerdict env i e polls w =
     (case esig e of
        Some sig \<Rightarrow> if epost e then signatureVerdict env i sig (elimit e) polls w else (VClear, w)
      | None \<Rightarrow> (VClear, w))"

definition checkPendingSignature :: "outside \<Rightarrow> int \<Rightarrow> js_error \<Rightarrow> world \<Rightarrow> signature option \<times> world" where
  "checkPendingSignature env i e w =
     (let (v, w') = pendingVerdict env i e 0 w
      in (case v of VLanded sig \<Rightarrow> Some sig | _ \<Rightarrow> None, w'))"

text \<open>\<open>/block height exceeded/i\<close> on the message.\<close>

definition isBlockhashExpiry :: "js_error \<Rightarrow> bool" where
  "isBlockhashExpiry e \<longleftrightarrow>
     epost e \<and> esig e \<noteq> None \<and> elimit e \<noteq> None \<and> str_includes (map lower (emsg e)) ''block height exceeded''"

definition isInsufficientFunds :: "js_error \<Rightarrow> bool" where
  "isInsufficientFunds e \<longleftrightarrow>
     str_includes (emsg e) ''insufficient lamports'' \<or> str_includes (emsg e) ''insufficient funds'' \<or>
     str_includes (emsg e) ''Insufficient funds''"

section \<open>Buying once, and closing a purchase\<close>

definition do_buy :: "outside \<Rightarrow> int \<Rightarrow> number \<Rightarrow> number \<Rightarrow> world \<Rightarrow> (js_error + BuyResult) \<times> world" where
  "do_buy env i amount slippage w =
     (let ans = ask_buy env (w_step w) amount slippage;
          w1 = foldl (\<lambda>w (sig, limit). mut env (\<lambda>now. recordSentAttempt now i sig limit) w) w (ans_signed ans)
      in (ans_result ans, log_event (EvBuy i amount slippage ans) w1))"

definition recordVenueRouting :: "BuyResult \<Rightarrow> world \<Rightarrow> world" where
  "recordVenueRouting r w =
     (if res_fallback r \<and> res_venue r = Pumpswap then met ''venueRouting.fallbackToPumpswap'' w
      else if res_fallback r then met ''venueRouting.fallbackToDex'' w
      else if res_venue r = Pumpfun then met ''venueRouting.pumpfunDirect'' w
      else met ''venueRouting.dexDirect'' w)"

definition complete :: "outside \<Rightarrow> int \<Rightarrow> BuyResult \<Rightarrow> world \<Rightarrow> world" where
  "complete env i r w = mut env (\<lambda>now. markCompleted now i (res_signature r) (res_venue r)) w"

text \<open>Completion from a signature that landed after all.\<close>

definition confirm_landed :: "outside \<Rightarrow> int \<Rightarrow> js_error \<Rightarrow> signature \<Rightarrow> world \<Rightarrow> world" where
  "confirm_landed env i e sig w =
     (let v = (case getErrorVenue e of Some v \<Rightarrow> v | None \<Rightarrow> Pumpfun);
          r = \<lparr>res_signature = sig, res_venue = v, res_fallback = False\<rparr>
      in met ''retry.pendingTxConfirmed'' (recordVenueRouting r (complete env i r w)))"

definition tryConfirmPending :: "outside \<Rightarrow> js_error \<Rightarrow> int \<Rightarrow> world \<Rightarrow> bool \<times> world" where
  "tryConfirmPending env e i w =
     (let (c, w') = checkPendingSignature env i e w
      in case c of None \<Rightarrow> (False, w') | Some sig \<Rightarrow> (True, confirm_landed env i e sig w'))"

fun class_name :: "error_class \<Rightarrow> string" where
  "class_name Retryable = ''retryable''"
| "class_name NonRetryable = ''non-retryable''"
| "class_name Unknown = ''unknown''"

definition count_error :: "js_error \<Rightarrow> world \<Rightarrow> world" where
  "count_error e w =
     (let w1 = met (''errors.'' @ class_name (fst (classifyError e))) w
      in case snd (classifyError e) of
           None \<Rightarrow> w1
         | Some p \<Rightarrow> w1\<lparr>w_mgr := incrementErrorPattern p (w_mgr w1)\<rparr>)"

definition setPending :: "outside \<Rightarrow> int \<Rightarrow> signature \<Rightarrow> world \<Rightarrow> world" where
  "setPending env i sig w = mut env (\<lambda>now. updatePurchase now i (\<lambda>p. p\<lparr>p_pendingSignature := Some sig\<rparr>)) w"

definition abandon :: "outside \<Rightarrow> int \<Rightarrow> string \<Rightarrow> world \<Rightarrow> world" where
  "abandon env i msg w = mut env (\<lambda>now. markAbandoned now i msg) w"

definition fail :: "outside \<Rightarrow> int \<Rightarrow> string \<Rightarrow> world \<Rightarrow> world" where
  "fail env i msg w = mut env (\<lambda>now. markFailed now i msg) w"

definition begin_attempt :: "outside \<Rightarrow> int \<Rightarrow> number \<Rightarrow> world \<Rightarrow> world" where
  "begin_attempt env i slippage w = mut env (\<lambda>now. markInProgress now i slippage) w"

definition recordPurchaseFailure :: "outside \<Rightarrow> js_error \<Rightarrow> int \<Rightarrow> world \<Rightarrow> world" where
  "recordPurchaseFailure env e i w =
     (let c = fst (classifyError e);
          w1 = count_error e w
      in if c = NonRetryable
         then met ''retry.nonRetryableAbandon'' (abandon env i (emsg e) w1)
         else let w2 = fail env i (emsg e) w1;
                  w3 = (case esig e of
                      Some sig \<Rightarrow> if epost e
                        then met ''venueRouting.postSendErrorBlocked'' (setPending env i sig w2) else w2
                    | None \<Rightarrow> w2)
              in if c = Unknown then met ''retry.unknownDeferred'' w3
                 else met ''retry.retryableDeferred'' w3)"

section \<open>The balance\<close>

definition keeperFloorSol :: "bool \<Rightarrow> number" where
  "keeperFloorSol needsAta = fadd (if needsAta then ATA_FEE_SOL else 0) (fmul 2 BUY_TX_FEE_SOL)"

text \<open>\<open>lamports\<close> is the answer of \<open>getBalance\<close>; the result is the amount to buy with, or
  \<open>None\<close> for \<open>null\<close>.\<close>

definition spendable_of :: "int option \<Rightarrow> number \<Rightarrow> bool \<Rightarrow> number option" where
  "spendable_of lamports scheduled needsAta =
     (case lamports of
        None \<Rightarrow> Some scheduled
      | Some l \<Rightarrow>
          let balanceSol = fdiv (of_int l) 1000000000;
              spendable = fsub balanceSol (keeperFloorSol needsAta)
          in if scheduled \<le> spendable then Some scheduled
             else if spendable < MIN_PURCHASE_SOL then None
             else Some (fdiv (of_int (js_floor (fmul spendable 1000000000))) 1000000000))"

definition resolveSpendableAmount :: "outside \<Rightarrow> number \<Rightarrow> bool \<Rightarrow> world \<Rightarrow> number option \<times> world" where
  "resolveSpendableAmount env scheduled needsAta w =
     (spendable_of (ask_balance env (w_step w)) scheduled needsAta, w\<lparr>w_step := w_step w + 1\<rparr>)"

definition shrink :: "outside \<Rightarrow> int \<Rightarrow> number \<Rightarrow> world \<Rightarrow> world" where
  "shrink env i amount w =
     mut env (\<lambda>now. updatePurchase now i (\<lambda>p. p\<lparr>
       p_plannedSolAmount := Some (case p_plannedSolAmount p of Some a \<Rightarrow> a | None \<Rightarrow> p_solAmount p),
       p_solAmount := amount\<rparr>)) w"

section \<open>The main loop\<close>

definition start_slip :: "world \<Rightarrow> number" where
  "start_slip w = startSlippageBps (b_config (bstate (w_mgr w)))"
definition max_slip :: "world \<Rightarrow> number" where
  "max_slip w = maxSlippageBps (b_config (bstate (w_mgr w)))"
definition had_ata :: "world \<Rightarrow> bool" where
  "had_ata w = cfg_hadAtaAtStart (b_config (bstate (w_mgr w)))"
definition slip_for :: "int \<Rightarrow> world \<Rightarrow> number" where
  "slip_for attempt w = getSlippageForAttempt attempt (start_slip w) (max_slip w)"

text \<open>The loop that signs again after an expired blockhash, \<open>resigns\<close> times at most. The result
  is the failure that is left, or \<open>None\<close> when the purchase is settled.\<close>

fun resign_loop ::
  "outside \<Rightarrow> int \<Rightarrow> number \<Rightarrow> number \<Rightarrow> nat \<Rightarrow> js_error \<Rightarrow> world \<Rightarrow> js_error option \<times> world" where
  "resign_loop env i amount slippage 0 failure w = (Some failure, w)"
| "resign_loop env i amount slippage (Suc resigns) failure w =
     (if \<not> isBlockhashExpiry failure then (Some failure, w)
      else case signatureVerdict env i (the (esig failure)) (elimit failure) IN_FLIGHT_POLLS w of
          (VLanded sig, w1) \<Rightarrow> (None, confirm_landed env i failure sig w1)
        | (VInFlight _, w1) \<Rightarrow> (Some failure, met ''retry.expiryStillInFlight'' w1)
        | (VClear, w1) \<Rightarrow>
            (case do_buy env i amount slippage
                (begin_attempt env i slippage (met ''retry.expiredResigned'' w1)) of
               (Inr r, w2) \<Rightarrow>
                 (None, met ''retry.expiredResignSuccess'' (recordVenueRouting r (complete env i r w2)))
             | (Inl e, w2) \<Rightarrow>
                 (case tryConfirmPending env e i w2 of
                    (True, w3) \<Rightarrow> (None, w3)
                  | (False, w3) \<Rightarrow> resign_loop env i amount slippage resigns e w3)))"

text \<open>The recovery from an empty keeper; the result also carries the amount later attempts use.\<close>

definition funds_step ::
  "outside \<Rightarrow> int \<Rightarrow> number \<Rightarrow> number \<Rightarrow> js_error \<Rightarrow> world \<Rightarrow> (js_error \<times> number) option \<times> world" where
  "funds_step env i amount slippage failure w =
     (if \<not> isInsufficientFunds failure then (Some (failure, amount), w)
      else case resolveSpendableAmount env amount (\<not> had_ata w) w of
          (None, w1) \<Rightarrow>
            (None, met ''balance.abandonedEmpty''
              (abandon env i ''Keeper balance exhausted before this purchase'' (w1\<lparr>w_drained := True\<rparr>)))
        | (Some shrunk, w1) \<Rightarrow>
            if \<not> shrunk < amount then (Some (failure, amount), w1)
            else case do_buy env i shrunk slippage
                (begin_attempt env i slippage (shrink env i shrunk
                  (met ''balance.shrunkToFit'' (met ''balance.shrunkAfterFailure'' w1)))) of
              (Inr r, w2) \<Rightarrow> (None, recordVenueRouting r (complete env i r w2))
            | (Inl e, w2) \<Rightarrow>
                (case tryConfirmPending env e i w2 of
                   (True, w3) \<Rightarrow> (None, w3)
                 | (False, w3) \<Rightarrow> (Some (e, shrunk), w3)))"

text \<open>The attempts of the slippage ladder; the result is its last error, or \<open>None\<close> when it bought.\<close>

fun ladder :: "outside \<Rightarrow> int \<Rightarrow> number \<Rightarrow> int list \<Rightarrow> js_error \<Rightarrow> world \<Rightarrow> js_error option \<times> world" where
  "ladder env i amount [] lastError w = (Some lastError, w)"
| "ladder env i amount (attempt # attempts) lastError w =
     (let slippage = slip_for attempt w
      in case do_buy env i amount slippage
          (begin_attempt env i slippage (met ''retry.slippageInstantRetry'' w)) of
        (Inr r, w1) \<Rightarrow>
          (None, recordVenueRouting r (met ''retry.slippageInstantRetrySuccess'' (complete env i r w1)))
      | (Inl e, w1) \<Rightarrow>
          if \<not> isSlippageError e then (Some e, w1) else ladder env i amount attempts e w1)"

definition slippage_step :: "outside \<Rightarrow> int \<Rightarrow> number \<Rightarrow> js_error \<Rightarrow> world \<Rightarrow> js_error option \<times> world" where
  "slippage_step env i amount failure w =
     (if \<not> isSlippageError failure then (Some failure, w)
      else case ladder env i amount [2, 3] failure w of
          (None, w1) \<Rightarrow> (None, w1)
        | (Some e, w1) \<Rightarrow>
            (case tryConfirmPending env e i w1 of
               (True, w2) \<Rightarrow> (None, w2)
             | (False, w2) \<Rightarrow> (Some e, met ''retry.slippageInstantRetryFail'' w2)))"

text \<open>The \<open>catch\<close> of the main loop, in its order.\<close>

definition recover :: "outside \<Rightarrow> int \<Rightarrow> number \<Rightarrow> number \<Rightarrow> js_error \<Rightarrow> world \<Rightarrow> world" where
  "recover env i amount slippage e w =
     (case tryConfirmPending env e i w of
        (True, w1) \<Rightarrow> w1
      | (False, w1) \<Rightarrow>
          (case resign_loop env i amount slippage MAX_EXPIRY_RESIGNS e w1 of
             (None, w2) \<Rightarrow> w2
           | (Some f, w2) \<Rightarrow>
               (case funds_step env i amount slippage f w2 of
                  (None, w3) \<Rightarrow> w3
                | (Some (g, amount'), w3) \<Rightarrow>
                    (case slippage_step env i amount' g w3 of
                       (None, w4) \<Rightarrow> w4
                     | (Some h, w4) \<Rightarrow> recordPurchaseFailure env h i w4))))"

definition wait_for :: "outside \<Rightarrow> int \<Rightarrow> millis \<Rightarrow> world \<Rightarrow> world" where
  "wait_for env i t w = (if 0 < t - clock env (w_step w) then sleepUntil i t w else w)"

definition main_purchase :: "outside \<Rightarrow> int \<Rightarrow> world \<Rightarrow> world" where
  "main_purchase env i w0 =
     (case current i w0 of
        None \<Rightarrow> w0
      | Some p \<Rightarrow>
          let w = wait_for env i (p_scheduledAt p) w0
          in if w_drained w
             then met ''balance.abandonedEmpty''
                (abandon env i ''Keeper balance exhausted before this purchase'' w)
             else let slippage = slip_for 1 w
                  in case do_buy env i (p_solAmount p) slippage (begin_attempt env i slippage w) of
                       (Inr r, w1) \<Rightarrow> recordVenueRouting r (complete env i r w1)
                     | (Inl e, w1) \<Rightarrow> recover env i (p_solAmount p) slippage e w1)"

definition main_loop :: "outside \<Rightarrow> int list \<Rightarrow> world \<Rightarrow> world" where
  "main_loop env is w = fold (main_purchase env) is w"

section \<open>The retry phase\<close>

text \<open>One turn of the retry loop: whether the loop goes on, and the world after it.\<close>

definition retry_failed :: "outside \<Rightarrow> int \<Rightarrow> int \<Rightarrow> js_error \<Rightarrow> world \<Rightarrow> bool \<times> world" where
  "retry_failed env i attempts e w =
     (case pendingVerdict env i e IN_FLIGHT_POLLS w of
        (VInFlight sig, w1) \<Rightarrow>
          (False, met ''retry.inFlightStopped'' (fail env i (emsg e) (setPending env i sig w1)))
      | (VLanded sig, w1) \<Rightarrow>
          let known = (case current i w1 of Some p \<Rightarrow> p_venue p | None \<Rightarrow> None);
              v = (case getErrorVenue e of Some v \<Rightarrow> v
                   | None \<Rightarrow> (case known of Some v \<Rightarrow> v | None \<Rightarrow> Pumpfun))
          in (False, met ''retry.pendingTxConfirmed'' (mut env (\<lambda>now. markCompleted now i sig v) w1))
      | (VClear, w1) \<Rightarrow>
          let w2 = count_error e w1;
              w3 = (case esig e of
                  Some sig \<Rightarrow> if epost e then setPending env i sig w2 else w2
                | None \<Rightarrow> w2)
          in if fst (classifyError e) = NonRetryable
             then (False, met ''retry.nonRetryableAbandon'' (abandon env i (emsg e) w3))
             else if attempts > MAX_RETRIES
             then (True, met ''retry.maxAttemptsAbandon'' (abandon env i (emsg e) w3))
             else (True, fail env i (emsg e) w3))"

definition retry_attempt :: "outside \<Rightarrow> int \<Rightarrow> millis \<Rightarrow> int \<Rightarrow> world \<Rightarrow> bool \<times> world" where
  "retry_attempt env i retryEnd attempts w =
     (if retryEnd < clock env (w_step w)
      then (False, met ''retry.windowExpiredAbandon'' (abandon env i ''Retry window expired'' w))
      else let slippage = slip_for attempts w;
               sol = (case current i w of Some p \<Rightarrow> p_solAmount p | None \<Rightarrow> 0)
           in case resolveSpendableAmount env sol (\<not> had_ata w) w of
                (None, w1) \<Rightarrow>
                  (False, met ''balance.abandonedEmpty'' (abandon env i ''Keeper balance exhausted before retry'' w1))
              | (Some amount, w1) \<Rightarrow>
                  let w2 = (if amount < sol then met ''balance.shrunkToFit'' (shrink env i amount w1) else w1)
                  in case do_buy env i amount slippage (begin_attempt env i slippage w2) of
                       (Inr r, w3) \<Rightarrow>
                         (False, recordVenueRouting r (met ''retry.retrySuccess'' (complete env i r w3)))
                     | (Inl e, w3) \<Rightarrow> retry_failed env i attempts e w3)"

function retry_loop :: "outside \<Rightarrow> int \<Rightarrow> millis \<Rightarrow> int \<Rightarrow> world \<Rightarrow> world" where
  "retry_loop env i retryEnd attempts w =
     (if \<not> canRetry attempts then w
      else case retry_attempt env i retryEnd (attempts + 1) w of
          (False, w1) \<Rightarrow> w1
        | (True, w1) \<Rightarrow> retry_loop env i retryEnd (attempts + 1) w1)"
  by pat_completeness auto
termination
  by (relation "measure (\<lambda>(env, i, t, a, w). nat (4 - a))") (auto simp: canRetry_def)

declare retry_loop.simps [simp del] signatureVerdict.simps [simp del]

definition close_failed :: "outside \<Rightarrow> int \<Rightarrow> world \<Rightarrow> world" where
  "close_failed env i w =
     (case current i w of
        None \<Rightarrow> w
      | Some p \<Rightarrow> if p_status p = PFailed
          then abandon env i (case p_errorMessage p of
              Some m \<Rightarrow> if m = [] then ''Max retries exceeded'' else m
            | None \<Rightarrow> ''Max retries exceeded'') w
          else w)"

text \<open>The check of the transaction left over from the main loop: \<open>None\<close> when the purchase is settled.\<close>

definition check_leftover :: "outside \<Rightarrow> int \<Rightarrow> world \<Rightarrow> bool \<times> world" where
  "check_leftover env i w =
     (case current i w of
        None \<Rightarrow> (True, w)
      | Some p \<Rightarrow>
          (case p_pendingSignature p of
             None \<Rightarrow> (True, w)
           | Some pending \<Rightarrow>
               (case signatureVerdict env i pending (p_pendingLimit p) IN_FLIGHT_POLLS w of
                  (VLanded _, w1) \<Rightarrow>
                    (False, met ''retry.pendingTxConfirmed'' (mut env (\<lambda>now. markCompleted now i pending
                      (case p_venue p of Some v \<Rightarrow> v | None \<Rightarrow> Pumpfun)) w1))
                | (VInFlight _, w1) \<Rightarrow>
                    (False, met ''retry.inFlightStopped''
                      (abandon env i ''Earlier transaction may still land; not signing another'' w1))
                | (VClear, w1) \<Rightarrow> (True, w1))))"

definition retry_purchase :: "outside \<Rightarrow> millis \<Rightarrow> int \<times> millis \<Rightarrow> world \<Rightarrow> world" where
  "retry_purchase env retryEnd it w0 =
     (let w = wait_for env (fst it) (snd it) w0
      in case check_leftover env (fst it) w of
           (False, w1) \<Rightarrow> w1
         | (True, w1) \<Rightarrow> close_failed env (fst it) (retry_loop env (fst it) retryEnd 0 w1))"

definition retry_window_minutes :: "number \<Rightarrow> int \<Rightarrow> number" where
  "retry_window_minutes retryBuffer failed =
     min MAX_RETRY_WINDOW_MINUTES
       (max retryBuffer (of_int (js_ceil (fdiv (of_int (failed * RETRY_SECONDS_PER_PURCHASE)) 60))))"

text \<open>The end of the window and the moments of the retries are numbers in the code, compared with a
  clock of whole milliseconds; the whole millisecond that gives the same comparison stands for each.\<close>

definition retry_window_end :: "millis \<Rightarrow> number \<Rightarrow> millis" where
  "retry_window_end retryStart retryWindowMs = js_floor (fadd (of_int retryStart) retryWindowMs)"

definition retry_times :: "PurchaseRecord list \<Rightarrow> millis \<Rightarrow> number \<Rightarrow> (int \<times> millis) list" where
  "retry_times failed retryStart retryWindowMs =
     (let retryInterval = fdiv retryWindowMs (of_int (int (length failed) + 1))
      in map (\<lambda>k. (p_index (failed ! k),
           js_ceil (fadd (of_int retryStart) (fmul (of_int (int k + 1)) retryInterval)))) [0..<length failed])"

definition retry_phase :: "outside \<Rightarrow> world \<Rightarrow> world" where
  "retry_phase env w =
     (let failed = getFailedPurchases (w_mgr w)
      in if failed = [] then w
         else let minutes = retry_window_minutes (retryBufferMinutes (b_config (bstate (w_mgr w)))) (int (length failed));
                  retryWindowMs = fmul (fmul minutes 60) 1000;
                  retryStart = clock env (w_step w);
                  retryEnd = retry_window_end retryStart retryWindowMs
              in fold (retry_purchase env retryEnd) (retry_times failed retryStart retryWindowMs)
                   (w\<lparr>w_mgr := markRetryWindow retryStart retryEnd (w_mgr w)\<rparr>))"

definition finish :: "outside \<Rightarrow> world \<Rightarrow> world" where
  "finish env w = w\<lparr>w_mgr := b_finalize (clock env (w_step w)) (w_mgr w)\<rparr>"

definition run_batch :: "outside \<Rightarrow> world \<Rightarrow> world" where
  "run_batch env w = finish env (retry_phase env (main_loop env (indices (w_mgr w)) w))"

section \<open>The whole batch\<close>

record BatchBuyParams =
  bp_mint :: mint
  bp_totalSolAmount :: number
  bp_windowMinutes :: "number option"
  bp_retryBufferMinutes :: "number option"
  bp_startSlippageBps :: "number option"
  bp_maxSlippageBps :: "number option"
  bp_stateFilePath :: "string option"

definition or_default :: "'a option \<Rightarrow> 'a \<Rightarrow> 'a" where
  "or_default x d = (case x of None \<Rightarrow> d | Some v \<Rightarrow> v)"

definition getDefaultStatePath :: "string \<Rightarrow> string" where
  "getDefaultStatePath rid = ''./logs/'' @ rid @ ''.json''"

text \<open>The part of the run id after its last underscore, or the random suffix when that is empty.\<close>

definition generatePurchaseId :: "string \<Rightarrow> int \<Rightarrow> string \<Rightarrow> string" where
  "generatePurchaseId random i rid =
     (let suffix = rev (takeWhile (\<lambda>c. c \<noteq> CHR ''_'') (rev rid))
      in ''purchase_'' @ show_nat i @ ''_'' @ (if suffix = [] then random else suffix))"

text \<open>The purchase records; a missing moment of the schedule (an empty window) is no wait, like 0.\<close>

definition plan_purchases :: "millis \<Rightarrow> string \<Rightarrow> string \<Rightarrow> number list \<Rightarrow> millis list \<Rightarrow> PurchaseRecord list" where
  "plan_purchases now random rid amounts sched =
     map (\<lambda>k. \<lparr>p_id = generatePurchaseId random (int k + 1) rid, p_index = int k + 1,
          p_scheduledAt = (if k < length sched then sched ! k else 0), p_solAmount = amounts ! k,
          p_plannedSolAmount = None, p_status = PPending, p_signature = None, p_pendingSignature = None,
          p_pendingLimit = None, p_sentAttempts = [], p_venue = None, p_attempts = 0,
          p_lastSlippageBps = None, p_errorMessage = None, p_updatedAt = now\<rparr>) [0..<length amounts]"

definition join_with :: "string \<Rightarrow> string list \<Rightarrow> string" where
  "join_with sep xs = (case xs of [] \<Rightarrow> [] | y # ys \<Rightarrow> y @ concat (map (\<lambda>z. sep @ z) ys))"

text \<open>\<open>blockers\<close> is the answer of \<open>inspectMint\<close>, \<open>hasAta\<close> of \<open>checkAtaExists\<close>; the two random
  sources are those of the split and of the schedule.\<close>

definition plan_batch ::
  "millis \<Rightarrow> BatchBuyParams \<Rightarrow> bool \<Rightarrow> (nat \<Rightarrow> number) \<Rightarrow> (nat \<Rightarrow> number) \<Rightarrow> string \<Rightarrow> string \<Rightarrow> BatchMgr" where
  "plan_batch now params hasAta rnd1 rnd2 rid random =
     (let n = calculateN (bp_totalSolAmount params);
          window = or_default (bp_windowMinutes params) DEFAULT_WINDOW_MINUTES;
          fees = calculateFees (bp_totalSolAmount params) n hasAta;
          amounts = splitAmount rnd1 (netAmount fees) n;
          sched = createSchedule rnd2 n now window
      in b_create now rid (bp_mint params) (bp_totalSolAmount params)
           (plan_purchases now random rid amounts sched)
           \<lparr>windowMinutes = window,
            retryBufferMinutes = or_default (bp_retryBufferMinutes params) DEFAULT_RETRY_BUFFER_MINUTES,
            startSlippageBps = or_default (bp_startSlippageBps params) DEFAULT_START_SLIPPAGE_BPS,
            maxSlippageBps = or_default (bp_maxSlippageBps params) DEFAULT_MAX_SLIPPAGE_BPS,
            cfg_hadAtaAtStart = hasAta\<rparr>
           (case bp_stateFilePath params of Some f \<Rightarrow> if f = [] then getDefaultStatePath rid else f
            | None \<Rightarrow> getDefaultStatePath rid))"

definition batchBuy ::
  "outside \<Rightarrow> BatchBuyParams \<Rightarrow> string list \<Rightarrow> bool \<Rightarrow> (nat \<Rightarrow> number) \<Rightarrow> (nat \<Rightarrow> number) \<Rightarrow> string \<Rightarrow> string \<Rightarrow>
    string + world" where
  "batchBuy env params blockers hasAta rnd1 rnd2 rid random =
     (if blockers \<noteq> [] then Inl (''Mint cannot be distributed to winners: '' @ join_with ''; '' blockers)
      else Inr (run_batch env \<lparr>w_mgr = plan_batch (clock env 0) params hasAta rnd1 rnd2 rid random,
        w_drained = False, w_step = 0, w_trace = []\<rparr>))"

end
