(* ===== verification/Batch_Frame.thy ===== *)
theory Batch_Frame
  imports Batch
begin

text \<open>
  What the handling of one purchase leaves alone. The locale collects the primitive steps the flow is
  made of (one purchase updated, a metric, an event of this purchase, an answer from outside): a
  relation between worlds that every primitive step respects is respected by the whole flow. It is
  interpreted on the frame of a purchase (the other purchases, the invariants of the manager, the
  trace) and on the count of the purchases signed.
\<close>

fun ev_index :: "event \<Rightarrow> int" where
  "ev_index (EvBuy i a s r) = i"
| "ev_index (EvOutcome i s l r) = i"
| "ev_index (EvSleep i t) = i"

text \<open>An operation of the manager that changes purchase \<open>i\<close> at most, and not its index.\<close>

definition own_op :: "int \<Rightarrow> (millis \<Rightarrow> BatchMgr \<Rightarrow> string + BatchMgr) \<Rightarrow> bool" where
  "own_op i op \<longleftrightarrow> (\<forall>now m. (\<exists>e. op now m = Inl e) \<or> op now m = Inr m \<or>
     (\<exists>f. keeps_index f \<and> op now m = updatePurchase now i f m))"

lemma own_op_update: "keeps_index f \<Longrightarrow> own_op i (\<lambda>now. updatePurchase now i f)"
  by (auto simp: own_op_def)

lemma own_op_found:
  assumes "\<And>now m. getPurchase i m = None \<Longrightarrow> (\<exists>e. op now m = Inl e) \<or> op now m = Inr m"
    and "\<And>now m p. getPurchase i m = Some p \<Longrightarrow> op now m = updatePurchase now i (f now p) m"
    and "\<And>now p. keeps_index (f now p)"
  shows "own_op i op"
  unfolding own_op_def
proof (intro allI)
  fix now m
  show "(\<exists>e. op now m = Inl e) \<or> op now m = Inr m \<or> (\<exists>f. keeps_index f \<and> op now m = updatePurchase now i f m)"
    using assms(1) [of m now] assms(2) [of m _ now] assms(3) [of now] by (cases "getPurchase i m") auto
qed

lemma own_mark [simp]:
  "own_op i (\<lambda>now. markInProgress now i s)" "own_op i (\<lambda>now. markAbandoned now i msg)"
  "own_op i (\<lambda>now. updatePurchase now i (\<lambda>p. p\<lparr>p_pendingSignature := Some sig\<rparr>))"
  "own_op i (\<lambda>now. updatePurchase now i (\<lambda>p. p\<lparr>
       p_plannedSolAmount := Some (case p_plannedSolAmount p of Some a \<Rightarrow> a | None \<Rightarrow> p_solAmount p),
       p_solAmount := amount\<rparr>))"
  unfolding markInProgress_def markAbandoned_def by (rule own_op_update, simp add: keeps_index_def)+

lemma own_completed [simp]: "own_op i (\<lambda>now. markCompleted now i sig v)"
  by (rule own_op_found [where f = "\<lambda>now p q. q\<lparr>p_status := PCompleted, p_signature := Some sig,
          p_venue := Some v, p_attempts := p_attempts p + 1\<rparr>"])
    (simp_all add: markCompleted_def keeps_index_def)

lemma own_failed [simp]: "own_op i (\<lambda>now. markFailed now i msg)"
  by (rule own_op_found [where f = "\<lambda>now p q. q\<lparr>p_status := PFailed, p_errorMessage := Some msg,
          p_attempts := p_attempts p + 1\<rparr>"])
    (simp_all add: markFailed_def keeps_index_def)

lemma own_attempt [simp]: "own_op i (\<lambda>now. recordSentAttempt now i sig limit)"
  by (rule own_op_found [where f = "\<lambda>now p q. q\<lparr>p_pendingSignature := Some sig, p_pendingLimit := Some limit,
          p_sentAttempts := p_sentAttempts p @ [\<lparr>sa_signature = sig, sa_limit = limit, sa_at = now\<rparr>]\<rparr>"])
    (simp_all add: recordSentAttempt_def keeps_index_def)

locale batch_rel =
  fixes env :: outside and i :: int and R :: "world \<Rightarrow> world \<Rightarrow> bool"
  assumes R_refl: "R w w"
    and R_trans: "R a b \<Longrightarrow> R b c \<Longrightarrow> R a c"
    and R_mut: "own_op i op \<Longrightarrow> R w (mut env op w)"
    and R_met: "R w (met k w)"
    and R_pattern: "R w (w\<lparr>w_mgr := incrementErrorPattern p (w_mgr w)\<rparr>)"
    and R_drained: "R w (w\<lparr>w_drained := True\<rparr>)"
    and R_log: "ev_index ev = i \<Longrightarrow> R w (log_event ev w)"
    and R_step: "R w (w\<lparr>w_step := Suc (w_step w)\<rparr>)"
begin

lemma R_ops:
  "R a b \<Longrightarrow> own_op i op \<Longrightarrow> R a (mut env op b)"
  "R a b \<Longrightarrow> R a (met k b)"
  "R a b \<Longrightarrow> R a (b\<lparr>w_mgr := incrementErrorPattern p (w_mgr b)\<rparr>)"
  "R a b \<Longrightarrow> R a (b\<lparr>w_drained := True\<rparr>)"
  "R a b \<Longrightarrow> ev_index ev = i \<Longrightarrow> R a (log_event ev b)"
  "R a b \<Longrightarrow> R a (b\<lparr>w_step := Suc (w_step b)\<rparr>)"
  using R_trans R_mut R_met R_pattern R_drained R_log R_step by blast+

lemma R_small:
  "R a b \<Longrightarrow> R a (sleepUntil i t b)"
  "R a b \<Longrightarrow> R a (complete env i r b)"
  "R a b \<Longrightarrow> R a (setPending env i sig b)"
  "R a b \<Longrightarrow> R a (abandon env i msg b)"
  "R a b \<Longrightarrow> R a (fail env i msg b)"
  "R a b \<Longrightarrow> R a (begin_attempt env i s b)"
  "R a b \<Longrightarrow> R a (shrink env i x b)"
  "R a b \<Longrightarrow> R a (recordVenueRouting r b)"
  "R a b \<Longrightarrow> R a (snd (ask_outcome env i sig limit b))"
  "R a b \<Longrightarrow> R a (snd (resolveSpendableAmount env x y b))"
  "R a b \<Longrightarrow> R a (wait_for env i t b)"
  by (simp_all add: sleepUntil_def complete_def setPending_def abandon_def fail_def begin_attempt_def
      shrink_def recordVenueRouting_def ask_outcome_def resolveSpendableAmount_def wait_for_def Let_def R_ops)

lemma R_confirm: "R a b \<Longrightarrow> R a (confirm_landed env i e sig b)"
  by (simp add: confirm_landed_def Let_def R_ops R_small)

lemma R_count: "R a b \<Longrightarrow> R a (count_error e b)"
  by (simp add: count_error_def Let_def R_ops split: option.split)

lemma R_failure: "R a b \<Longrightarrow> R a (recordPurchaseFailure env e i b)"
  by (simp add: recordPurchaseFailure_def Let_def R_ops R_small R_count split: option.split)

lemma R_verdict: "R a w \<Longrightarrow> R a (snd (signatureVerdict env i sig limit polls w))"
proof (induction polls arbitrary: w)
  case 0
  obtain out w' where o: "ask_outcome env i sig limit w = (out, w')" by fastforce
  then have "R a w'" using R_small(9) [OF 0] by (metis snd_conv)
  then show ?case by (subst signatureVerdict.simps) (simp add: o)
next
  case (Suc n)
  obtain out w' where o: "ask_outcome env i sig limit w = (out, w')" by fastforce
  then have "R a w'" using R_small(9) [OF Suc.prems] by (metis snd_conv)
  with Suc.IH show ?case by (subst signatureVerdict.simps) (simp add: o Let_def R_small)
qed

lemma R_pendingVerdict: "R a w \<Longrightarrow> R a (snd (pendingVerdict env i e polls w))"
  by (simp add: pendingVerdict_def R_verdict split: option.split)

lemma R_tryConfirm: "R a w \<Longrightarrow> R a (snd (tryConfirmPending env e i w))"
  using R_pendingVerdict [of a w e 0]
  by (auto simp: tryConfirmPending_def checkPendingSignature_def Let_def R_confirm split: prod.split option.split PendingVerdict.split)

lemma R_signed: "R a w \<Longrightarrow> R a (foldl (\<lambda>w (sig, limit). mut env (\<lambda>now. recordSentAttempt now i sig limit) w) w xs)"
  by (induction xs arbitrary: w) (auto simp: R_ops)

lemma R_buy: "R a w \<Longrightarrow> R a (snd (do_buy env i amount slippage w))"
  by (simp add: do_buy_def Let_def R_ops R_signed)

text \<open>The case splits of the flow, on the result and the world of a call.\<close>

lemma R_case:
  "R a (snd p) \<Longrightarrow> (\<And>r w'. R a w' \<Longrightarrow> R a (f r w')) \<Longrightarrow> R a (case p of (r, w') \<Rightarrow> f r w')"
  "R a (snd p) \<Longrightarrow> (\<And>r w'. R a w' \<Longrightarrow> R a (snd (g r w'))) \<Longrightarrow> R a (snd (case p of (r, w') \<Rightarrow> g r w'))"
  by (cases p, simp)+

lemma R_pair:
  fixes p :: "js_error \<times> number"
  shows "(\<And>e x. R a (f e x)) \<Longrightarrow> R a (case p of (e, x) \<Rightarrow> f e x)"
  by (cases p) simp

lemmas R_all = R_ops R_small R_confirm R_count R_failure R_buy R_tryConfirm R_pendingVerdict R_verdict

lemma R_resign: "R a w \<Longrightarrow> R a (snd (resign_loop env i amount slippage n e w))"
proof (induction n arbitrary: e w)
  case (Suc n)
  then show ?case
    by (auto simp: R_all intro!: R_case split: PendingVerdict.split sum.split bool.split)
qed simp

lemma R_funds: "R a w \<Longrightarrow> R a (snd (funds_step env i amount slippage e w))"
  unfolding funds_step_def by (auto simp: R_all intro!: R_case split: option.split sum.split bool.split)

lemma R_ladder: "R a w \<Longrightarrow> R a (snd (ladder env i amount as e w))"
  by (induction as arbitrary: e w) (auto simp: R_all Let_def intro!: R_case split: sum.split)

lemma R_slippage: "R a w \<Longrightarrow> R a (snd (slippage_step env i amount e w))"
  unfolding slippage_step_def by (auto simp: R_all R_ladder simp del: ladder.simps intro!: R_case split: option.split bool.split)

lemma R_recover: "R a w \<Longrightarrow> R a (recover env i amount slippage e w)"
  unfolding recover_def
  by (auto simp: R_all R_resign R_funds R_slippage intro!: R_case R_pair split: option.split bool.split)

lemma R_main: "R a w \<Longrightarrow> R a (main_purchase env i w)"
  unfolding main_purchase_def
  by (auto simp: R_all R_recover Let_def intro!: R_case split: option.split sum.split)

lemma R_retry_failed: "R a w \<Longrightarrow> R a (snd (retry_failed env i n e w))"
  unfolding retry_failed_def
  by (auto simp: R_all Let_def intro!: R_case split: option.split PendingVerdict.split)

lemma R_retry_attempt: "R a w \<Longrightarrow> R a (snd (retry_attempt env i t n w))"
  unfolding retry_attempt_def
  by (auto simp: R_all R_retry_failed Let_def intro!: R_case split: option.split sum.split)

lemma R_retry_loop: "R a w \<Longrightarrow> R a (retry_loop env i t n w)"
proof (induction "nat (4 - n)" arbitrary: n w rule: less_induct)
  case less
  have "nat (4 - (n + 1)) < nat (4 - n)" if "canRetry n" using that by (simp add: canRetry_def)
  with less have "canRetry n \<Longrightarrow> R a w' \<Longrightarrow> R a (retry_loop env i t (n + 1) w')" for w' by blast
  with less.prems show ?case
    by (subst retry_loop.simps) (auto simp: R_retry_attempt intro!: R_case split: bool.split)
qed

lemma R_close: "R a w \<Longrightarrow> R a (close_failed env i w)"
  by (simp add: close_failed_def R_all split: option.split)

lemma R_leftover: "R a w \<Longrightarrow> R a (snd (check_leftover env i w))"
  unfolding check_leftover_def
  by (auto simp: R_all intro!: R_case split: option.split PendingVerdict.split)

lemma R_retry: "R a w \<Longrightarrow> R a (retry_purchase env t (i, u) w)"
  unfolding retry_purchase_def
  by (auto simp: R_all R_leftover R_close R_retry_loop Let_def intro!: R_case split: bool.split)

end

section \<open>The frame of a purchase\<close>

definition frame_of :: "int \<Rightarrow> world \<Rightarrow> world \<Rightarrow> bool" where
  "frame_of i w w' \<longleftrightarrow>
     indices (w_mgr w') = indices (w_mgr w) \<and>
     (\<forall>is. mgr_ok is (w_mgr w) \<longrightarrow> mgr_ok is (w_mgr w')) \<and>
     (\<forall>j. j \<noteq> i \<longrightarrow> current j w' = current j w) \<and>
     b_config (bstate (w_mgr w')) = b_config (bstate (w_mgr w)) \<and>
     (\<exists>evs. w_trace w' = w_trace w @ evs \<and> list_all (\<lambda>ev. ev_index ev = i) evs)"

lemma update_lists:
  "keeps_index f \<Longrightarrow> indices (sure m (updatePurchase now i f m)) = indices m"
  "b_config (bstate (sure m (updatePurchase now i f m))) = b_config (bstate m)"
  by (auto simp: updatePurchase_def sure_def indices_def keeps_index_def b_save_def updateSummary_def
      map_upd_first split: option.split)

lemma own_op_frame:
  assumes "own_op i op"
  shows "indices (sure m (op now m)) = indices m" "mgr_ok is m \<Longrightarrow> mgr_ok is (sure m (op now m))"
    "j \<noteq> i \<Longrightarrow> getPurchase j (sure m (op now m)) = getPurchase j m"
    "b_config (bstate (sure m (op now m))) = b_config (bstate m)"
proof -
  consider e where "op now m = Inl e" | "op now m = Inr m" | f where "keeps_index f" "op now m = updatePurchase now i f m"
    using assms unfolding own_op_def by blast
  then show "indices (sure m (op now m)) = indices m" "mgr_ok is m \<Longrightarrow> mgr_ok is (sure m (op now m))"
    "j \<noteq> i \<Longrightarrow> getPurchase j (sure m (op now m)) = getPurchase j m"
    "b_config (bstate (sure m (op now m))) = b_config (bstate m)"
    by (cases; simp add: update_lists update_mgr_ok update_get keeps_index_def)+
qed

lemma pattern_mgr [simp]:
  "indices (incrementErrorPattern p m) = indices m" "getPurchase j (incrementErrorPattern p m) = getPurchase j m"
  "mgr_ok is m \<Longrightarrow> mgr_ok is (incrementErrorPattern p m)"
  "b_config (bstate (incrementErrorPattern p m)) = b_config (bstate m)"
  by (simp_all add: incrementErrorPattern_def indices_def) (simp add: b_incrementMetric_def b_save_def)

lemma metric_config [simp]:
  "b_config (bstate (b_incrementMetric k n m)) = b_config (bstate m)" "indices (b_incrementMetric k n m) = indices m"
  by (simp_all add: b_incrementMetric_def b_save_def indices_def)

interpretation frame: batch_rel env i "frame_of i" for env i
proof (unfold_locales, goal_cases)
  case (2 a b c)
  then obtain x y where "w_trace b = w_trace a @ x" "list_all (\<lambda>ev. ev_index ev = i) x"
    "w_trace c = w_trace b @ y" "list_all (\<lambda>ev. ev_index ev = i) y"
    unfolding frame_of_def by (elim conjE exE) (rule that)
  then have "w_trace c = w_trace a @ (x @ y) \<and> list_all (\<lambda>ev. ev_index ev = i) (x @ y)" by simp
  with 2 show ?case unfolding frame_of_def by metis
next
  case (3 op w)
  then show ?case by (simp add: frame_of_def mut_def current_def own_op_frame)
qed (simp_all add: frame_of_def current_def met_def log_event_def)

end
