(* ===== verification/Batch_End.thy ===== *)
theory Batch_End
  imports Batch_Frame
begin

text \<open>
  How a batch ends: whatever the outside answers, every purchase is completed or abandoned when
  \<open>batchBuy\<close> returns, the file holds the final state and the summary counts it. The proof follows
  the flow: a stage that reports the purchase as settled has closed it, and the failure recorded after
  the last stage leaves it for the retry phase, which closes it.
\<close>

definition has_status :: "PurchaseStatus set \<Rightarrow> int \<Rightarrow> world \<Rightarrow> bool" where
  "has_status S i w \<longleftrightarrow> (\<exists>p. current i w = Some p \<and> p_status p \<in> S)"

abbreviation settled :: "int \<Rightarrow> world \<Rightarrow> bool" where "settled \<equiv> has_status {PCompleted, PAbandoned}"
abbreviation handled :: "int \<Rightarrow> world \<Rightarrow> bool" where "handled \<equiv> has_status {PCompleted, PAbandoned, PFailed}"

lemma settled_handled: "settled i w \<Longrightarrow> handled i w"
  by (auto simp: has_status_def)

lemma frame_present: "frame_of i a w \<Longrightarrow> current j a \<noteq> None \<Longrightarrow> current j w \<noteq> None"
  using getPurchase_iff [of j "w_mgr w"] getPurchase_iff [of j "w_mgr a"]
  by (simp add: frame_of_def current_def)

lemma current_met [simp]: "current i (met k w) = current i w" "has_status S i (met k w) = has_status S i w"
  by (simp_all add: current_def met_def has_status_def)

lemma current_routing [simp]: "has_status S i (recordVenueRouting r w) = has_status S i w"
  by (simp add: recordVenueRouting_def)

lemma current_log [simp]: "current i (log_event ev w) = current i w"
  by (simp add: current_def log_event_def)

lemma current_count [simp]: "current i (count_error e w) = current i w"
  by (simp add: count_error_def Let_def met_def current_def split: option.split)

lemma current_update:
  "keeps_index f \<Longrightarrow> current i (mut env (\<lambda>now. updatePurchase now i f) w) =
    map_option (\<lambda>p. (f p)\<lparr>p_updatedAt := clock env (w_step w)\<rparr>) (current i w)"
  by (simp add: current_def mut_def update_get keeps_index_def)

lemma close_status:
  assumes "current i w \<noteq> None"
  shows "settled i (mut env (\<lambda>now. markCompleted now i sig v) w)" "settled i (abandon env i msg w)"
    "handled i (fail env i msg w)"
proof -
  obtain p where p: "current i w = Some p" using assms by auto
  then have "mut env (\<lambda>now. markCompleted now i sig v) w = mut env (\<lambda>now. updatePurchase now i
      (\<lambda>q. q\<lparr>p_status := PCompleted, p_signature := Some sig, p_venue := Some v, p_attempts := p_attempts p + 1\<rparr>)) w"
    by (simp add: mut_def markCompleted_def current_def)
  then show "settled i (mut env (\<lambda>now. markCompleted now i sig v) w)"
    using p by (simp add: has_status_def current_update keeps_index_def)
  have "abandon env i msg w = mut env (\<lambda>now. updatePurchase now i
      (\<lambda>q. q\<lparr>p_status := PAbandoned, p_errorMessage := Some msg\<rparr>)) w"
    by (simp add: mut_def markAbandoned_def abandon_def)
  then show "settled i (abandon env i msg w)"
    using p by (simp add: has_status_def current_update keeps_index_def)
  have "fail env i msg w = mut env (\<lambda>now. updatePurchase now i
      (\<lambda>q. q\<lparr>p_status := PFailed, p_errorMessage := Some msg, p_attempts := p_attempts p + 1\<rparr>)) w"
    using p by (simp add: mut_def markFailed_def current_def fail_def)
  then show "handled i (fail env i msg w)"
    using p by (simp add: has_status_def current_update keeps_index_def)
qed

lemma close_ops:
  assumes "current i w \<noteq> None"
  shows "settled i (complete env i r w)" "settled i (confirm_landed env i e sig w)"
  using close_status [OF assms] by (simp_all add: complete_def confirm_landed_def Let_def)

text \<open>A stage either settles the purchase or hands on a failure.\<close>

definition stage_ok :: "int \<Rightarrow> world \<Rightarrow> 'f option \<times> world \<Rightarrow> bool" where
  "stage_ok i a r \<longleftrightarrow> frame_of i a (snd r) \<and> (fst r = None \<longrightarrow> settled i (snd r))"

lemma stage_cases:
  assumes "stage_ok i a r"
  obtains w where "r = (None, w)" "settled i w" | f w where "r = (Some f, w)" "frame_of i a w"
  using assms unfolding stage_ok_def by (cases r; cases "fst r") auto

lemma try_settles:
  "tryConfirmPending env e i w = (True, w') \<Longrightarrow> frame_of i a w \<Longrightarrow> current i a \<noteq> None \<Longrightarrow> settled i w'"
proof -
  assume t: "tryConfirmPending env e i w = (True, w')" and f: "frame_of i a w" "current i a \<noteq> None"
  obtain c w1 where c: "pendingVerdict env i e 0 w = (c, w1)" by fastforce
  then have "frame_of i a w1" using frame.R_pendingVerdict [OF f(1)] by (metis snd_conv)
  then have "current i w1 \<noteq> None" using f(2) by (rule frame_present)
  then show "settled i w'" using t c
    by (auto simp: tryConfirmPending_def checkPendingSignature_def close_ops split: PendingVerdict.splits)
qed

lemma frame_calls:
  "frame_of i a w \<Longrightarrow> do_buy env i x s w = (r, w') \<Longrightarrow> frame_of i a w'"
  "frame_of i a w \<Longrightarrow> tryConfirmPending env e i w = (c, w') \<Longrightarrow> frame_of i a w'"
  "frame_of i a w \<Longrightarrow> signatureVerdict env i sig l n w = (v, w') \<Longrightarrow> frame_of i a w'"
  "frame_of i a w \<Longrightarrow> pendingVerdict env i e n w = (v, w') \<Longrightarrow> frame_of i a w'"
  "frame_of i a w \<Longrightarrow> resolveSpendableAmount env x b w = (y, w') \<Longrightarrow> frame_of i a w'"
  using frame.R_buy frame.R_tryConfirm frame.R_verdict frame.R_pendingVerdict frame.R_small(10)
  by (metis snd_conv)+

lemma resign_stage: "frame_of i a w \<Longrightarrow> current i a \<noteq> None \<Longrightarrow> stage_ok i a (resign_loop env i x s n e w)"
proof (induction n arbitrary: e w)
  case (Suc n)
  show ?case unfolding stage_ok_def
  proof (rule conjI)
    show "frame_of i a (snd (resign_loop env i x s (Suc n) e w))" by (rule frame.R_resign [OF Suc.prems(1)])
    have "settled i (snd (resign_loop env i x s (Suc n) e w))" if "fst (resign_loop env i x s (Suc n) e w) = None"
    proof -
      obtain v w1 where v: "signatureVerdict env i (the (esig e)) (elimit e) IN_FLIGHT_POLLS w = (v, w1)" by fastforce
      have w1: "frame_of i a w1" by (rule frame_calls(3) [OF Suc.prems(1) v])
      let ?w = "begin_attempt env i s (met ''retry.expiredResigned'' w1)"
      obtain b w2 where b: "do_buy env i x s ?w = (b, w2)" by fastforce
      have w2: "frame_of i a w2" by (rule frame_calls(1) [OF _ b]) (intro frame.R_small frame.R_ops w1)
      have pres: "current i w1 \<noteq> None" "current i w2 \<noteq> None" using w1 w2 Suc.prems(2) frame_present by blast+
      show ?thesis
      proof (cases b)
        case (Inl e')
        obtain c w3 where c: "tryConfirmPending env e' i w2 = (c, w3)" by fastforce
        have w3: "frame_of i a w3" by (rule frame_calls(2) [OF w2 c])
        show ?thesis using that Suc.IH [OF w3 Suc.prems(2), of e'] try_settles [OF _ w2 Suc.prems(2)] c
          by (cases v; cases c) (auto simp: v b Inl close_ops pres stage_ok_def split: if_splits)
      qed (use that in \<open>cases v; auto simp: v b close_ops pres split: if_splits\<close>)
    qed
    then show "fst (resign_loop env i x s (Suc n) e w) = None \<longrightarrow> settled i (snd (resign_loop env i x s (Suc n) e w))" by simp
  qed
qed (simp add: stage_ok_def)

lemma funds_stage: "frame_of i a w \<Longrightarrow> current i a \<noteq> None \<Longrightarrow> stage_ok i a (funds_step env i x s e w)"
proof -
  assume f: "frame_of i a w" "current i a \<noteq> None"
  obtain y w1 where y: "resolveSpendableAmount env x (\<not> had_ata w) w = (y, w1)" by fastforce
  have w1: "frame_of i a w1" by (rule frame_calls(5) [OF f(1) y])
  let ?w = "\<lambda>z. begin_attempt env i s (shrink env i z
      (met ''balance.shrunkToFit'' (met ''balance.shrunkAfterFailure'' w1)))"
  have "settled i (snd (funds_step env i x s e w))" if none: "fst (funds_step env i x s e w) = None"
  proof (cases y)
    case None
    have "frame_of i a (w1\<lparr>w_drained := True\<rparr>)" by (intro frame.R_ops w1)
    then show ?thesis using none close_status frame_present f(2)
      by (auto simp: funds_step_def y None split: if_splits)
  next
    case (Some z)
    obtain b w2 where b: "do_buy env i z s (?w z) = (b, w2)" by fastforce
    have w2: "frame_of i a w2" by (rule frame_calls(1) [OF _ b]) (intro frame.R_small frame.R_ops w1)
    have pres: "current i w2 \<noteq> None" by (rule frame_present [OF w2 f(2)])
    show ?thesis
    proof (cases b)
      case (Inl e')
      obtain c w3 where c: "tryConfirmPending env e' i w2 = (c, w3)" by fastforce
      show ?thesis using none try_settles [OF _ w2 f(2)] c
        by (cases c) (auto simp: funds_step_def y Some b Inl split: if_splits)
    qed (use none in \<open>auto simp: funds_step_def y Some b close_ops pres split: if_splits\<close>)
  qed
  then show ?thesis using frame.R_funds [OF f(1)] by (auto simp: stage_ok_def)
qed

lemma ladder_stage: "frame_of i a w \<Longrightarrow> current i a \<noteq> None \<Longrightarrow> stage_ok i a (ladder env i x as e w)"
proof (induction as arbitrary: e w)
  case (Cons n as)
  obtain b w1 where b: "do_buy env i x (slip_for n w)
      (begin_attempt env i (slip_for n w) (met ''retry.slippageInstantRetry'' w)) = (b, w1)" by fastforce
  have w1: "frame_of i a w1" by (rule frame_calls(1) [OF _ b]) (intro frame.R_small frame.R_ops Cons.prems(1))
  then have "current i w1 \<noteq> None" using Cons.prems(2) by (rule frame_present)
  then show ?case using Cons.IH [OF w1 Cons.prems(2)] w1
    by (cases b) (auto simp: b Let_def stage_ok_def close_ops intro!: frame.R_ops frame.R_small)
qed (simp add: stage_ok_def)

lemma slippage_stage: "frame_of i a w \<Longrightarrow> current i a \<noteq> None \<Longrightarrow> stage_ok i a (slippage_step env i x e w)"
proof -
  assume f: "frame_of i a w" "current i a \<noteq> None"
  have l: "stage_ok i a (ladder env i x [2, 3] e w)" by (rule ladder_stage [OF f])
  have "settled i (snd (slippage_step env i x e w))" if none: "fst (slippage_step env i x e w) = None"
    using l
  proof (cases rule: stage_cases)
    case (2 g w1)
    obtain c w2 where c: "tryConfirmPending env g i w1 = (c, w2)" by fastforce
    show ?thesis using none try_settles [OF _ 2(2) f(2)] c
      by (cases c) (auto simp: slippage_step_def 2 simp del: ladder.simps split: if_splits)
  qed (use none in \<open>auto simp: slippage_step_def simp del: ladder.simps split: if_splits\<close>)
  then show ?thesis using frame.R_slippage [OF f(1)] by (auto simp: stage_ok_def)
qed

lemma failure_handled: "frame_of i a w \<Longrightarrow> current i a \<noteq> None \<Longrightarrow> handled i (recordPurchaseFailure env e i w)"
proof -
  assume f: "frame_of i a w" "current i a \<noteq> None"
  then have c: "current i (count_error e w) \<noteq> None" using frame_present [OF f] by simp
  have keep: "handled i (setPending env i sig w')" if "handled i w'" for sig w'
    using that by (auto simp: has_status_def setPending_def current_update keeps_index_def)
  show ?thesis using close_status [OF c] settled_handled keep
    by (auto simp: recordPurchaseFailure_def Let_def split: option.split)
qed

lemma recover_handled: "frame_of i a w \<Longrightarrow> current i a \<noteq> None \<Longrightarrow> handled i (recover env i x s e w)"
proof -
  assume f: "frame_of i a w" "current i a \<noteq> None"
  obtain c w1 where c: "tryConfirmPending env e i w = (c, w1)" by fastforce
  have w1: "frame_of i a w1" by (rule frame_calls(2) [OF f(1) c])
  show ?thesis
  proof (cases c)
    case True
    then show ?thesis using try_settles [OF _ f] c settled_handled by (simp add: recover_def)
  next
    case False
    from resign_stage [OF w1 f(2)] show ?thesis
    proof (cases rule: stage_cases [where r = "resign_loop env i x s MAX_EXPIRY_RESIGNS e w1"])
      case 1
      then show ?thesis by (simp add: recover_def c False settled_handled)
    next
      case (2 g w2)
      note r = 2(1)
      from funds_stage [OF 2(2) f(2)] show ?thesis
      proof (cases rule: stage_cases [where r = "funds_step env i x s g w2"])
        case 1
        then show ?thesis by (simp add: recover_def c False r settled_handled)
      next
        case (2 h w3)
        obtain k y where h: "h = (k, y)" by fastforce
        note r2 = 2(1)
        from slippage_stage [OF 2(2) f(2)] show ?thesis
          by (cases rule: stage_cases [where r = "slippage_step env i y k w3"])
             (simp_all add: recover_def c False r r2 h settled_handled failure_handled f(2))
      qed
    qed
  qed
qed

lemma main_handled: "current i w \<noteq> None \<Longrightarrow> handled i (main_purchase env i w)"
proof -
  assume c: "current i w \<noteq> None"
  then obtain p where p: "current i w = Some p" by auto
  let ?w = "wait_for env i (p_scheduledAt p) w"
  have w: "frame_of i w ?w" by (intro frame.R_small frame.R_refl)
  have pw: "current i ?w \<noteq> None" by (rule frame_present [OF w c])
  show ?thesis
  proof (cases "w_drained ?w")
    case True
    then show ?thesis using close_status [OF pw] by (simp add: main_purchase_def p settled_handled)
  next
    case False
    obtain b w1 where b: "do_buy env i (p_solAmount p) (slip_for 1 ?w) (begin_attempt env i (slip_for 1 ?w) ?w) = (b, w1)"
      by fastforce
    have w1: "frame_of i w w1" by (rule frame_calls(1) [OF _ b]) (intro frame.R_small w)
    have "current i w1 \<noteq> None" by (rule frame_present [OF w1 c])
    then show ?thesis using False recover_handled [OF w1 c] close_ops settled_handled
      by (cases b) (simp_all add: main_purchase_def p Let_def b)
  qed
qed

section \<open>The retry phase and the end\<close>

text \<open>The retry loop stops with the purchase settled, or failed and closed right after.\<close>

lemma close_settles: "handled i w \<Longrightarrow> settled i (close_failed env i w)"
  using close_status(2) [of i w] by (auto simp: close_failed_def has_status_def)

lemma retry_failed_handled:
  assumes f: "frame_of i a w" "current i a \<noteq> None"
  shows "handled i (snd (retry_failed env i n e w))"
    "fst (retry_failed env i n e w) \<Longrightarrow> MAX_RETRIES < n \<Longrightarrow> settled i (snd (retry_failed env i n e w))"
proof -
  obtain v w1 where v: "pendingVerdict env i e IN_FLIGHT_POLLS w = (v, w1)" by fastforce
  have w1: "frame_of i a w1" by (rule frame_calls(4) [OF f(1) v])
  have present: "current i b \<noteq> None" if "frame_of i a b" for b by (rule frame_present [OF that f(2)])
  let ?w3 = "case esig e of Some sig \<Rightarrow> if epost e then setPending env i sig (count_error e w1) else count_error e w1
      | None \<Rightarrow> count_error e w1"
  have w3: "frame_of i a ?w3" using w1 by (auto intro!: frame.R_count frame.R_small split: option.split)
  note closed = close_status [OF present [OF w3]] close_status(3) [OF present [OF frame.R_small(3) [OF w1]]]
    close_status(1) [OF present [OF w1]]
  show "handled i (snd (retry_failed env i n e w))"
    using closed settled_handled by (cases v) (auto simp: retry_failed_def v Let_def)
  show "settled i (snd (retry_failed env i n e w))" if "fst (retry_failed env i n e w)" "MAX_RETRIES < n"
    using that closed by (cases v) (auto simp: retry_failed_def v Let_def split: if_splits)
qed

lemma retry_attempt_handled:
  assumes f: "frame_of i a w" "current i a \<noteq> None"
  shows "handled i (snd (retry_attempt env i t n w))"
    "fst (retry_attempt env i t n w) \<Longrightarrow> MAX_RETRIES < n \<Longrightarrow> settled i (snd (retry_attempt env i t n w))"
proof -
  have present: "current i b \<noteq> None" if "frame_of i a b" for b by (rule frame_present [OF that f(2)])
  let ?sol = "case current i w of Some p \<Rightarrow> p_solAmount p | None \<Rightarrow> 0"
  obtain y w1 where y: "resolveSpendableAmount env ?sol (\<not> had_ata w) w = (y, w1)" by fastforce
  have w1: "frame_of i a w1" by (rule frame_calls(5) [OF f(1) y])
  let ?w2 = "\<lambda>x. if x < ?sol then met ''balance.shrunkToFit'' (shrink env i x w1) else w1"
  have w2: "frame_of i a (begin_attempt env i (slip_for n w) (?w2 x))" for x
    using w1 by (auto intro!: frame.R_ops frame.R_small)
  have expired: "settled i (abandon env i msg w)" "settled i (abandon env i msg w1)" for msg
    using close_status(2) present f(1) w1 by blast+
  have bought: "handled i (snd (case do_buy env i x (slip_for n w) (begin_attempt env i (slip_for n w) (?w2 x)) of
        (Inr r, w3) \<Rightarrow> (False, recordVenueRouting r (met ''retry.retrySuccess'' (complete env i r w3)))
      | (Inl e, w3) \<Rightarrow> retry_failed env i n e w3)) \<and>
    (fst (case do_buy env i x (slip_for n w) (begin_attempt env i (slip_for n w) (?w2 x)) of
        (Inr r, w3) \<Rightarrow> (False, recordVenueRouting r (met ''retry.retrySuccess'' (complete env i r w3)))
      | (Inl e, w3) \<Rightarrow> retry_failed env i n e w3) \<and> MAX_RETRIES < n \<longrightarrow>
     settled i (snd (case do_buy env i x (slip_for n w) (begin_attempt env i (slip_for n w) (?w2 x)) of
        (Inr r, w3) \<Rightarrow> (False, recordVenueRouting r (met ''retry.retrySuccess'' (complete env i r w3)))
      | (Inl e, w3) \<Rightarrow> retry_failed env i n e w3)))" for x
  proof -
    obtain b w3 where b: "do_buy env i x (slip_for n w) (begin_attempt env i (slip_for n w) (?w2 x)) = (b, w3)" by fastforce
    have w3: "frame_of i a w3" by (rule frame_calls(1) [OF w2 b])
    show ?thesis unfolding b
      using retry_failed_handled [OF w3 f(2)] close_ops(1) [OF present [OF w3]] settled_handled
      by (cases b) auto
  qed
  have "handled i (snd (retry_attempt env i t n w)) \<and>
      (fst (retry_attempt env i t n w) \<and> MAX_RETRIES < n \<longrightarrow> settled i (snd (retry_attempt env i t n w)))"
    unfolding retry_attempt_def Let_def y
    by (cases y) (use bought expired settled_handled in simp_all)
  then show "handled i (snd (retry_attempt env i t n w))"
    "fst (retry_attempt env i t n w) \<Longrightarrow> MAX_RETRIES < n \<Longrightarrow> settled i (snd (retry_attempt env i t n w))" by auto
qed

lemma retry_loop_handled:
  "frame_of i a w \<Longrightarrow> current i a \<noteq> None \<Longrightarrow> canRetry n \<Longrightarrow> handled i (retry_loop env i t n w)"
proof (induction "nat (4 - n)" arbitrary: n w rule: less_induct)
  case less
  obtain go w1 where g: "retry_attempt env i t (n + 1) w = (go, w1)" by fastforce
  have w1: "frame_of i a w1" using frame.R_retry_attempt [OF less.prems(1), of env t "n + 1"] by (simp add: g)
  have h: "handled i w1" using retry_attempt_handled(1) [OF less.prems(1,2), where n = "n + 1" and env = env and t = t] by (simp add: g)
  show ?case
  proof (cases "canRetry (n + 1)")
    case True
    then have "handled i (retry_loop env i t (n + 1) w1)"
      using less.hyps [OF _ w1 less.prems(2) True] less.prems(3) by (simp add: canRetry_def)
    then show ?thesis using h less.prems(3) by (subst retry_loop.simps) (cases go; simp add: g)
  next
    case False
    then have "retry_loop env i t (n + 1) w1 = w1" by (subst retry_loop.simps) simp
    then show ?thesis using h less.prems(3) by (subst retry_loop.simps) (cases go; simp add: g)
  qed
qed

lemma retry_settles: "handled i w \<Longrightarrow> settled i (retry_purchase env t (i, u) w)"
proof -
  assume "handled i w"
  then have c: "current i w \<noteq> None" by (auto simp: has_status_def)
  let ?w = "wait_for env i u w"
  have w: "frame_of i w ?w" by (intro frame.R_small frame.R_refl)
  have pw: "current i ?w \<noteq> None" by (rule frame_present [OF w c])
  then obtain p where p: "current i ?w = Some p" by auto
  have loop: "settled i (close_failed env i (retry_loop env i t 0 w1))" if "frame_of i w w1" for w1
    by (rule close_settles, rule retry_loop_handled [OF that c]) (simp add: canRetry_def)
  show ?thesis
  proof (cases "p_pendingSignature p")
    case None
    then show ?thesis using loop [OF w] by (simp add: retry_purchase_def check_leftover_def p)
  next
    case (Some pending)
    obtain v w1 where v: "signatureVerdict env i pending (p_pendingLimit p) IN_FLIGHT_POLLS ?w = (v, w1)" by fastforce
    have w1: "frame_of i w w1" by (rule frame_calls(3) [OF w v])
    show ?thesis using loop [OF w1] close_status [OF frame_present [OF w1 c]]
      by (cases v) (simp_all add: retry_purchase_def check_leftover_def p Some v)
  qed
qed

text \<open>A loop over purchases: what is reached for each stays, since the others leave it alone.\<close>

lemma frame_status: "frame_of i a w \<Longrightarrow> j \<noteq> i \<Longrightarrow> has_status S j w = has_status S j a"
  by (simp add: frame_of_def has_status_def)

lemma fold_reaches:
  assumes step: "\<And>x w. x \<in> set xs \<Longrightarrow> P x w \<Longrightarrow> frame_of (key x) w (f x w) \<and> has_status S (key x) (f x w)"
    and stays: "\<And>x y w. P x w \<Longrightarrow> frame_of (key y) w (f y w) \<Longrightarrow> key x \<noteq> key y \<Longrightarrow> P x (f y w)"
    and "distinct (map key xs)" "\<And>x. x \<in> set xs \<Longrightarrow> P x w"
  shows "(\<forall>x \<in> set xs. has_status S (key x) (fold f xs w)) \<and>
    (\<forall>j. j \<notin> key ` set xs \<longrightarrow> current j (fold f xs w) = current j w) \<and>
    indices (w_mgr (fold f xs w)) = indices (w_mgr w) \<and>
    (\<forall>is. mgr_ok is (w_mgr w) \<longrightarrow> mgr_ok is (w_mgr (fold f xs w)))"
  using assms
proof (induction xs arbitrary: w)
  case (Cons x xs)
  have x: "frame_of (key x) w (f x w)" "has_status S (key x) (f x w)"
    using Cons.prems(1) [of x w] Cons.prems(4) [of x] by auto
  have "P y (f x w)" if "y \<in> set xs" for y
  proof (rule Cons.prems(2) [OF Cons.prems(4) x(1)])
    have "key x \<notin> key ` set xs" using Cons.prems(3) by simp
    then show "key y \<noteq> key x" using imageI [OF that, of key] by metis
  qed (use that in simp)
  then have IH: "(\<forall>y \<in> set xs. has_status S (key y) (fold f xs (f x w))) \<and>
    (\<forall>j. j \<notin> key ` set xs \<longrightarrow> current j (fold f xs (f x w)) = current j (f x w)) \<and>
    indices (w_mgr (fold f xs (f x w))) = indices (w_mgr (f x w)) \<and>
    (\<forall>is. mgr_ok is (w_mgr (f x w)) \<longrightarrow> mgr_ok is (w_mgr (fold f xs (f x w))))"
    using Cons.IH [of "f x w"] Cons.prems by auto
  have "key x \<notin> key ` set xs" using Cons.prems(3) by simp
  then have "current (key x) (fold f xs (f x w)) = current (key x) (f x w)" using IH by blast
  then have "has_status S (key x) (fold f xs (f x w))" using x(2) by (simp add: has_status_def)
  then show ?case using IH x(1) by (auto simp: frame_of_def)
qed simp

lemma main_loop_handles:
  assumes "distinct (indices (w_mgr w))"
  shows "(\<forall>i \<in> set (indices (w_mgr w)). handled i (main_loop env (indices (w_mgr w)) w)) \<and>
    indices (w_mgr (main_loop env (indices (w_mgr w)) w)) = indices (w_mgr w) \<and>
    (\<forall>is. mgr_ok is (w_mgr w) \<longrightarrow> mgr_ok is (w_mgr (main_loop env (indices (w_mgr w)) w)))"
proof -
  have "(\<forall>i \<in> set (indices (w_mgr w)). has_status {PCompleted, PAbandoned, PFailed} (id i) (fold (main_purchase env) (indices (w_mgr w)) w)) \<and>
    (\<forall>j. j \<notin> id ` set (indices (w_mgr w)) \<longrightarrow> current j (fold (main_purchase env) (indices (w_mgr w)) w) = current j w) \<and>
    indices (w_mgr (fold (main_purchase env) (indices (w_mgr w)) w)) = indices (w_mgr w) \<and>
    (\<forall>is. mgr_ok is (w_mgr w) \<longrightarrow> mgr_ok is (w_mgr (fold (main_purchase env) (indices (w_mgr w)) w)))"
  proof (rule fold_reaches [where P = "\<lambda>i w. current i w \<noteq> None"])
    show "current i w \<noteq> None" if "i \<in> set (indices (w_mgr w))" for i
      using that getPurchase_iff [of i "w_mgr w"] by (auto simp: current_def)
  qed (use assms in \<open>auto simp: main_handled intro: frame.R_main frame.R_refl dest: frame_present\<close>)
  then show ?thesis by (simp add: main_loop_def)
qed

lemma window_mgr [simp]:
  "indices (markRetryWindow a b m) = indices m" "getPurchase j (markRetryWindow a b m) = getPurchase j m"
  "mgr_ok is m \<Longrightarrow> mgr_ok is (markRetryWindow a b m)"
  by (simp_all add: markRetryWindow_def b_save_def indices_def getPurchase_def mgr_ok_def b_synced_def summary_ok_def Let_def)

lemma finalize_mgr [simp]:
  "indices (b_finalize now m) = indices m" "getPurchase j (b_finalize now m) = getPurchase j m"
  "mgr_ok is m \<Longrightarrow> mgr_ok is (b_finalize now m)"
  by (simp_all add: b_finalize_def b_save_def indices_def getPurchase_def mgr_ok_def b_synced_def summary_ok_def Let_def)

lemma failed_keys:
  assumes "distinct (indices m)"
  shows "distinct (map p_index (getFailedPurchases m))"
    and "getPurchase i m = Some p \<Longrightarrow> p_status p = PFailed \<Longrightarrow> i \<in> set (map p_index (getFailedPurchases m))"
    and "i \<in> set (map p_index (getFailedPurchases m)) \<Longrightarrow> i \<in> set (indices m)"
proof -
  show "distinct (map p_index (getFailedPurchases m))"
    using assms by (auto simp: getFailedPurchases_def indices_def distinct_map_filter)
qed (auto simp: getFailedPurchases_def indices_def dest: getPurchase_index)

lemma retry_times_keys: "map fst (retry_times failed start ms) = map p_index failed"
  by (rule nth_equalityI) (simp_all add: retry_times_def Let_def)

lemma retry_phase_settles:
  assumes h: "\<forall>i \<in> set (indices (w_mgr w)). handled i w" and d: "distinct (indices (w_mgr w))"
  shows "(\<forall>i \<in> set (indices (w_mgr w)). settled i (retry_phase env w)) \<and>
    indices (w_mgr (retry_phase env w)) = indices (w_mgr w) \<and>
    (\<forall>is. mgr_ok is (w_mgr w) \<longrightarrow> mgr_ok is (w_mgr (retry_phase env w)))"
proof -
  let ?failed = "getFailedPurchases (w_mgr w)"
  let ?keys = "map p_index ?failed"
  have rest: "settled i w" if "i \<in> set (indices (w_mgr w))" "i \<notin> set ?keys" for i
  proof -
    from h that(1) obtain p where p: "current i w = Some p" "p_status p \<in> {PCompleted, PAbandoned, PFailed}"
      by (auto simp: has_status_def)
    with failed_keys(2) [OF d, of i p] that(2) have "p_status p \<noteq> PFailed" by (auto simp: current_def)
    with p show ?thesis by (auto simp: has_status_def)
  qed
  show ?thesis
  proof (cases "?failed = []")
    case True
    then show ?thesis using rest by (simp add: retry_phase_def)
  next
    case False
    have "\<exists>w1 t its. w1 = w\<lparr>w_mgr := markRetryWindow (clock env (w_step w)) t (w_mgr w)\<rparr> \<and>
        map fst its = ?keys \<and> retry_phase env w = fold (retry_purchase env t) its w1"
      unfolding retry_phase_def Let_def if_not_P [OF False]
      by (rule exI, rule exI, rule exI, rule conjI, rule refl, rule conjI [OF retry_times_keys refl])
    then obtain w1 t its where w1: "w1 = w\<lparr>w_mgr := markRetryWindow (clock env (w_step w)) t (w_mgr w)\<rparr>"
      and its: "map fst its = ?keys" and run: "retry_phase env w = fold (retry_purchase env t) its w1" by blast
    have cur: "current j w1 = current j w" for j by (simp add: w1 current_def)
    then have same: "has_status S i w1 = has_status S i w" for S i by (simp add: has_status_def)
    have "(\<forall>x \<in> set its. settled (fst x) (fold (retry_purchase env t) its w1)) \<and>
      (\<forall>j. j \<notin> fst ` set its \<longrightarrow> current j (fold (retry_purchase env t) its w1) = current j w1) \<and>
      indices (w_mgr (fold (retry_purchase env t) its w1)) = indices (w_mgr w1) \<and>
      (\<forall>is. mgr_ok is (w_mgr w1) \<longrightarrow> mgr_ok is (w_mgr (fold (retry_purchase env t) its w1)))"
    proof (rule fold_reaches [where P = "\<lambda>x w. handled (fst x) w"])
      show "frame_of (fst x) w' (retry_purchase env t x w') \<and> settled (fst x) (retry_purchase env t x w')"
        if "handled (fst x) w'" for x w'
        using retry_settles [of "fst x" w' env t "snd x"] that frame.R_retry [OF frame.R_refl, of "fst x" w' env t "snd x"] by simp
      show "distinct (map fst its)" unfolding its by (rule failed_keys(1) [OF d])
      show "handled (fst x) w1" if "x \<in> set its" for x
      proof -
        have "fst x \<in> set (map fst its)" using that by simp
        then have "fst x \<in> set (indices (w_mgr w))" unfolding its by (rule failed_keys(3) [OF d])
        then show ?thesis using h by (simp add: same)
      qed
    qed (simp add: frame_status)
    then have fin: "\<forall>i \<in> set ?keys. settled i (retry_phase env w)"
        "\<forall>j. j \<notin> set ?keys \<longrightarrow> current j (retry_phase env w) = current j w1"
        "indices (w_mgr (retry_phase env w)) = indices (w_mgr w)"
        "\<forall>is. mgr_ok is (w_mgr w) \<longrightarrow> mgr_ok is (w_mgr (retry_phase env w))"
      unfolding run [symmetric] its [symmetric] by (auto simp: w1)
    have "settled i (retry_phase env w)" if "i \<in> set (indices (w_mgr w))" for i
    proof (cases "i \<in> set ?keys")
      case False
      then show ?thesis using fin(2) rest [OF that False] cur [of i] by (simp add: has_status_def)
    qed (use fin(1) in blast)
    with fin show ?thesis by blast
  qed
qed

lemma run_settles:
  assumes "mgr_ok is (w_mgr w)" and "distinct is"
  shows "(\<forall>i \<in> set is. settled i (run_batch env w)) \<and> mgr_ok is (w_mgr (run_batch env w))"
proof -
  have ind: "indices (w_mgr w) = is" using assms(1) by (simp add: mgr_ok_def)
  let ?m = "main_loop env is w"
  have m: "\<forall>i \<in> set is. handled i ?m" "indices (w_mgr ?m) = is" "mgr_ok is (w_mgr ?m)"
    using main_loop_handles [of w env] assms by (simp_all add: ind)
  have r: "\<forall>i \<in> set is. settled i (retry_phase env ?m)" "mgr_ok is (w_mgr (retry_phase env ?m))"
    using retry_phase_settles [of ?m env] m assms(2) by simp_all
  then show ?thesis by (simp add: run_batch_def ind finish_def has_status_def current_def)
qed

section \<open>The batch as it is called\<close>

lemma plan_indices: "indices (plan_batch now params hasAta rnd1 rnd2 rid random) =
    map (\<lambda>k. int k + 1) [0..<length (purchases (bstate (plan_batch now params hasAta rnd1 rnd2 rid random)))]"
  by (simp add: plan_batch_def Let_def b_create_def b_save_def indices_def plan_purchases_def comp_def)

lemma plan_ok: "mgr_ok (indices (plan_batch now params hasAta rnd1 rnd2 rid random)) (plan_batch now params hasAta rnd1 rnd2 rid random)"
  by (simp add: plan_batch_def Let_def b_create_def b_save_def mgr_ok_def b_synced_def summary_ok_def plan_purchases_def)

lemma plan_distinct: "distinct (indices (plan_batch now params hasAta rnd1 rnd2 rid random))"
  unfolding plan_indices by (simp add: distinct_map inj_on_def)

text \<open>C5: whatever the purchase paths, the node, the balance and the clock answer, a batch that starts
  ends with every planned purchase completed or abandoned: none is left pending, in progress or
  failed, none is added, lost or renumbered; the file on disk holds the final state, and its summary
  counts the completed and the abandoned ones and adds up exactly what the completed ones spent. It
  refuses to start, spending nothing, only when the mint cannot be distributed.\<close>

theorem batch_settles:
  "case batchBuy env params blockers hasAta rnd1 rnd2 rid random of
     Inl msg \<Rightarrow> blockers \<noteq> []
   | Inr w \<Rightarrow> list_all (\<lambda>i. settled i w) (indices (plan_batch (clock env 0) params hasAta rnd1 rnd2 rid random)) \<and>
       mgr_ok (indices (plan_batch (clock env 0) params hasAta rnd1 rnd2 rid random)) (w_mgr w)"
proof (cases "blockers = []")
  case True
  let ?m = "plan_batch (clock env 0) params hasAta rnd1 rnd2 rid random"
  let ?w = "\<lparr>w_mgr = ?m, w_drained = False, w_step = 0, w_trace = []\<rparr>"
  have "mgr_ok (indices ?m) (w_mgr ?w)" using plan_ok by simp
  from run_settles [OF this plan_distinct] True show ?thesis by (simp add: batchBuy_def list_all_iff)
qed (simp add: batchBuy_def)

end
