(* ===== verification/Batch_Safety.thy ===== *)
theory Batch_Safety
  imports Batch_End
begin

text \<open>
  A coin is never bought twice for one purchase. The contract of the purchase path (what
  \<open>buy\<close> reports to its hook and carries in its error) and the laws of the chain are stated once;
  under them at most one transaction signed for a purchase ever lands, through every recovery of the
  main loop and every retry.
\<close>

section \<open>The contract of a purchase path and the laws of the chain\<close>

text \<open>One call signs at most one transaction, and reports it before it goes out. An error that carries
  a signature carries that transaction's limit; any other error means that nothing was sent.\<close>

definition buy_ok :: "(signature \<Rightarrow> int) \<Rightarrow> buy_answer \<Rightarrow> bool" where
  "buy_ok limit_of ans \<longleftrightarrow>
     (case ans_result ans of
        Inr r \<Rightarrow> ans_signed ans = [(res_signature r, limit_of (res_signature r))]
      | Inl e \<Rightarrow>
          (case esig e of
             Some s \<Rightarrow> if epost e then ans_signed ans = [(s, limit_of s)] \<and> elimit e = Some (limit_of s) else ans_signed ans = []
           | None \<Rightarrow> ans_signed ans = []))"

text \<open>\<open>lands s\<close>: the transaction is executed successfully at some time. The verdicts \<open>absent\<close> (asked
  under the right limit) and \<open>failed\<close> are final, and a sent transaction whose error says the program
  refused the price or the keeper had no money did not succeed.\<close>

definition chain_ok :: "(signature \<Rightarrow> int) \<Rightarrow> (signature \<Rightarrow> bool) \<Rightarrow> outside \<Rightarrow> bool" where
  "chain_ok limit_of lands env \<longleftrightarrow>
     (\<forall>n s. signatureOutcome (Some (limit_of s)) (ask_height env n) (ask_status env n s) \<in> {Absent, FailedOnChain} \<longrightarrow> \<not> lands s) \<and>
     (\<forall>n a sl e s. ans_result (ask_buy env n a sl) = Inl e \<longrightarrow> epost e \<longrightarrow> esig e = Some s \<longrightarrow>
        isInsufficientFunds e \<or> isSlippageError e \<longrightarrow> \<not> lands s) \<and>
     (\<forall>n a sl. buy_ok limit_of (ask_buy env n a sl))"

definition signed_of :: "int \<Rightarrow> event list \<Rightarrow> signature list" where
  "signed_of i evs = concat (map (\<lambda>ev. case ev of
      EvBuy j a s ans \<Rightarrow> if j = i then map fst (ans_signed ans) else [] | _ \<Rightarrow> []) evs)"

lemma signed_append [simp]: "signed_of i (xs @ ys) = signed_of i xs @ signed_of i ys"
  by (simp add: signed_of_def)

section \<open>What does not sign\<close>

text \<open>The signed transactions of a purchase and the one it has on record.\<close>

definition on_record :: "int \<Rightarrow> world \<Rightarrow> (signature option \<times> int option) option" where
  "on_record i w = map_option (\<lambda>p. (p_pendingSignature p, p_pendingLimit p)) (current i w)"

definition sigs :: "int \<Rightarrow> world \<Rightarrow> signature list" where
  "sigs i w = signed_of i (w_trace w)"

definition quiet :: "int \<Rightarrow> world \<Rightarrow> world \<Rightarrow> bool" where
  "quiet i w w' \<longleftrightarrow> sigs i w' = sigs i w \<and> on_record i w' = on_record i w"

lemma trace_mut [simp]: "w_trace (mut env op w) = w_trace w"
  by (simp add: mut_def)

lemma trace_met [simp]: "w_trace (met k w) = w_trace w"
  by (simp add: met_def)

lemma sigs_simps [simp]:
  "sigs i (mut env op w) = sigs i w" "sigs i (met k w) = sigs i w" "sigs i (count_error e w) = sigs i w"
  "sigs i (w\<lparr>w_drained := True\<rparr>) = sigs i w" "sigs i (w\<lparr>w_step := n\<rparr>) = sigs i w"
  "sigs i (log_event (EvOutcome j s l out) w) = sigs i w" "sigs i (log_event (EvSleep j t) w) = sigs i w"
  by (simp_all add: sigs_def count_error_def Let_def log_event_def signed_of_def split: option.split)

lemma record_update:
  "keeps_index f \<Longrightarrow> (\<And>p. p_pendingSignature (f p) = p_pendingSignature p \<and> p_pendingLimit (f p) = p_pendingLimit p) \<Longrightarrow>
    on_record i (mut env (\<lambda>now. updatePurchase now i f) w) = on_record i w"
  by (cases "current i w") (simp_all add: on_record_def current_update)

lemma record_simps [simp]:
  "on_record i (met k w) = on_record i w" "on_record i (count_error e w) = on_record i w"
  "on_record i (log_event ev w) = on_record i w"
  "on_record i (w\<lparr>w_drained := True\<rparr>) = on_record i w" "on_record i (w\<lparr>w_step := n\<rparr>) = on_record i w"
  by (simp_all add: on_record_def) (simp_all add: current_def)

lemma record_ops [simp]:
  "on_record i (abandon env i msg w) = on_record i w" "on_record i (begin_attempt env i s w) = on_record i w"
  "on_record i (shrink env i x w) = on_record i w"
proof -
  have "abandon env i msg w = mut env (\<lambda>now. updatePurchase now i
      (\<lambda>p. p\<lparr>p_status := PAbandoned, p_errorMessage := Some msg\<rparr>)) w"
    "begin_attempt env i s w = mut env (\<lambda>now. updatePurchase now i
      (\<lambda>p. p\<lparr>p_status := PInProgress, p_lastSlippageBps := Some s\<rparr>)) w"
    by (simp_all add: abandon_def begin_attempt_def mut_def markAbandoned_def markInProgress_def)
  then show "on_record i (abandon env i msg w) = on_record i w" "on_record i (begin_attempt env i s w) = on_record i w"
    by (simp_all add: record_update keeps_index_def)
  show "on_record i (shrink env i x w) = on_record i w"
    by (simp add: shrink_def record_update keeps_index_def)
qed

lemma record_fail [simp]: "on_record i (fail env i msg w) = on_record i w"
proof (cases "current i w")
  case None
  then have "fail env i msg w = w" by (simp add: fail_def mut_def markFailed_def current_def)
  then show ?thesis by simp
next
  case (Some p)
  then have "fail env i msg w = mut env (\<lambda>now. updatePurchase now i
      (\<lambda>q. q\<lparr>p_status := PFailed, p_errorMessage := Some msg, p_attempts := p_attempts p + 1\<rparr>)) w"
    by (simp add: fail_def mut_def markFailed_def current_def)
  then show ?thesis by (simp add: record_update keeps_index_def)
qed

lemma record_complete [simp]: "on_record i (mut env (\<lambda>now. markCompleted now i sig v) w) = on_record i w"
proof (cases "current i w")
  case None
  then have "mut env (\<lambda>now. markCompleted now i sig v) w = w" by (simp add: mut_def markCompleted_def current_def)
  then show ?thesis by simp
next
  case (Some p)
  then have "mut env (\<lambda>now. markCompleted now i sig v) w = mut env (\<lambda>now. updatePurchase now i
      (\<lambda>q. q\<lparr>p_status := PCompleted, p_signature := Some sig, p_venue := Some v, p_attempts := p_attempts p + 1\<rparr>)) w"
    by (simp add: mut_def markCompleted_def current_def)
  then show ?thesis by (simp add: record_update keeps_index_def)
qed

lemma quiet_refl [simp]: "quiet i w w"
  by (simp add: quiet_def)

lemma quiet_trans: "quiet i a b \<Longrightarrow> quiet i b c \<Longrightarrow> quiet i a c"
  by (simp add: quiet_def)

lemma quiet_ops [simp]:
  "quiet i a (met k w) = quiet i a w" "quiet i a (abandon env i msg w) = quiet i a w"
  "quiet i a (fail env i msg w) = quiet i a w" "quiet i a (begin_attempt env i s w) = quiet i a w"
  "quiet i a (shrink env i x w) = quiet i a w" "quiet i a (count_error e w) = quiet i a w"
  "quiet i a (mut env (\<lambda>now. markCompleted now i sig v) w) = quiet i a w"
  "quiet i a (complete env i r w) = quiet i a w" "quiet i a (confirm_landed env i e sig w) = quiet i a w"
  "quiet i a (recordVenueRouting r w) = quiet i a w" "quiet i a (w\<lparr>w_drained := True\<rparr>) = quiet i a w"
  "quiet i a (w\<lparr>w_step := n\<rparr>) = quiet i a w"
  "quiet i a (log_event (EvOutcome j s' l out) w) = quiet i a w" "quiet i a (log_event (EvSleep j t) w) = quiet i a w"
  by (simp_all add: quiet_def abandon_def [symmetric] complete_def confirm_landed_def recordVenueRouting_def Let_def)
    (simp_all add: abandon_def fail_def begin_attempt_def shrink_def)

lemma quiet_from [simp]:
  "quiet i (log_event (EvOutcome j s l out) w) w' = quiet i w w'" "quiet i (log_event (EvSleep j t) w) w' = quiet i w w'"
  by (simp_all add: quiet_def)

lemma quiet_verdict: "signatureVerdict env i sig l n w = (v, w') \<Longrightarrow> quiet i w w'"
proof (induction n arbitrary: w)
  case 0
  then show ?case by (subst (asm) signatureVerdict.simps) (auto simp: ask_outcome_def Let_def split: if_splits)
next
  case (Suc n)
  from Suc.prems show ?case
    by (subst (asm) signatureVerdict.simps)
      (auto simp: ask_outcome_def Let_def sleepUntil_def split: if_splits dest!: Suc.IH)
qed

lemma quiet_pending: "pendingVerdict env i e n w = (v, w') \<Longrightarrow> quiet i w w'"
  by (auto simp: pendingVerdict_def quiet_verdict split: option.splits if_splits)

lemma quiet_try: "tryConfirmPending env e i w = (c, w') \<Longrightarrow> quiet i w w'"
  by (auto simp: tryConfirmPending_def checkPendingSignature_def Let_def quiet_pending
      split: prod.splits option.splits PendingVerdict.splits)

lemma quiet_spendable: "resolveSpendableAmount env x b w = (y, w') \<Longrightarrow> quiet i w w'"
  by (auto simp: resolveSpendableAmount_def)

section \<open>What may still land\<close>

definition none_lands :: "(signature \<Rightarrow> bool) \<Rightarrow> int \<Rightarrow> world \<Rightarrow> bool" where
  "none_lands lands i w \<longleftrightarrow> (\<forall>s \<in> set (sigs i w). \<not> lands s)"

definition one_lands :: "(signature \<Rightarrow> bool) \<Rightarrow> int \<Rightarrow> world \<Rightarrow> bool" where
  "one_lands lands i w \<longleftrightarrow> (\<forall>s \<in> set (sigs i w). \<forall>t \<in> set (sigs i w). lands s \<longrightarrow> lands t \<longrightarrow> s = t)"

text \<open>Only the transaction of this error can still land, and it is the one on record.\<close>

definition left_by :: "(signature \<Rightarrow> int) \<Rightarrow> (signature \<Rightarrow> bool) \<Rightarrow> js_error \<Rightarrow> int \<Rightarrow> world \<Rightarrow> bool" where
  "left_by limit_of lands e i w \<longleftrightarrow> (\<forall>s \<in> set (sigs i w). lands s \<longrightarrow>
     epost e \<and> esig e = Some s \<and> elimit e = Some (limit_of s) \<and>
     on_record i w = Some (Some s, Some (limit_of s)))"

lemma quiet_keeps:
  assumes "quiet i w w'"
  shows "none_lands lands i w' = none_lands lands i w" "one_lands lands i w' = one_lands lands i w"
    "left_by limit_of lands e i w' = left_by limit_of lands e i w"
  using assms by (simp_all add: quiet_def none_lands_def one_lands_def left_by_def)

lemma none_one: "none_lands lands i w \<Longrightarrow> one_lands lands i w"
  by (simp add: none_lands_def one_lands_def)

lemma left_one: "left_by limit_of lands e i w \<Longrightarrow> one_lands lands i w"
  unfolding left_by_def one_lands_def by (metis option.inject)

lemma record_attempt:
  "current i w \<noteq> None \<Longrightarrow> on_record i (mut env (\<lambda>now. recordSentAttempt now i s l) w) = Some (Some s, Some l)"
proof -
  assume "current i w \<noteq> None"
  then obtain p where p: "current i w = Some p" by auto
  then have "mut env (\<lambda>now. recordSentAttempt now i s l) w = mut env (\<lambda>now. updatePurchase now i
      (\<lambda>q. q\<lparr>p_pendingSignature := Some s, p_pendingLimit := Some l,
        p_sentAttempts := p_sentAttempts p @ [\<lparr>sa_signature = s, sa_limit = l, sa_at = clock env (w_step w)\<rparr>]\<rparr>)) w"
    by (simp add: mut_def recordSentAttempt_def current_def)
  then show ?thesis using p by (simp add: on_record_def current_update keeps_index_def)
qed

lemma buy_signs:
  assumes ok: "chain_ok limit_of lands env" and none: "none_lands lands i w" and c: "current i w \<noteq> None"
    and b: "do_buy env i x s w = (r, w')"
  shows "one_lands lands i w'" "r = Inl e \<Longrightarrow> left_by limit_of lands e i w'"
proof -
  let ?ans = "ask_buy env (w_step w) x s"
  have bo: "buy_ok limit_of ?ans" using ok by (simp add: chain_ok_def)
  let ?rec = "\<lambda>xs w. foldl (\<lambda>w (sig, limit). mut env (\<lambda>now. recordSentAttempt now i sig limit) w) w xs"
  have w': "w' = log_event (EvBuy i x s ?ans) (?rec (ans_signed ?ans) w)" and r: "r = ans_result ?ans"
    using b by (auto simp: do_buy_def Let_def)
  have tr: "sigs i (?rec xs w) = sigs i w" for xs
    by (induction xs arbitrary: w) auto
  then have sg: "sigs i w' = sigs i w @ map fst (ans_signed ?ans)"
    by (simp add: w' sigs_def log_event_def signed_of_def)
  have one: "length (ans_signed ?ans) \<le> 1" using bo by (auto simp: buy_ok_def split: sum.splits option.splits if_splits)
  then show "one_lands lands i w'" using none unfolding one_lands_def none_lands_def sg
    by (cases "ans_signed ?ans") auto
  show "left_by limit_of lands e i w'" if "r = Inl e"
  proof (cases "ans_signed ?ans")
    case Nil
    then show ?thesis using none by (simp add: left_by_def none_lands_def sg)
  next
    case (Cons a as)
    obtain t l where a: "a = (t, l)" by fastforce
    have "esig e = Some t \<and> epost e \<and> elimit e = Some (limit_of t) \<and> ans_signed ?ans = [(t, limit_of t)]"
      using bo that Cons a by (auto simp: buy_ok_def r split: option.splits if_splits)
    moreover from this have "on_record i w' = Some (Some t, Some (limit_of t))"
      by (simp add: w' record_attempt [OF c])
    ultimately show ?thesis using none by (auto simp: left_by_def none_lands_def sg)
  qed
qed

text \<open>A failure on its way through the recoveries: it came from the purchase path, and only its
  transaction can still land.\<close>

definition leaves :: "(signature \<Rightarrow> int) \<Rightarrow> (signature \<Rightarrow> bool) \<Rightarrow> outside \<Rightarrow> js_error \<Rightarrow> int \<Rightarrow> world \<Rightarrow> bool" where
  "leaves limit_of lands env e i w \<longleftrightarrow>
     left_by limit_of lands e i w \<and> (\<exists>n a sl. ans_result (ask_buy env n a sl) = Inl e)"

lemma quiet_leaves: "quiet i w w' \<Longrightarrow> leaves limit_of lands env e i w' = leaves limit_of lands env e i w"
  by (simp add: leaves_def quiet_keeps)

lemma leaves_one: "leaves limit_of lands env e i w \<Longrightarrow> one_lands lands i w"
  unfolding leaves_def by (blast intro: left_one)

lemma buy_leaves:
  assumes "chain_ok limit_of lands env" "none_lands lands i w" "current i w \<noteq> None" "do_buy env i x s w = (Inl e, w')"
  shows "leaves limit_of lands env e i w'"
  using buy_signs(2) [OF assms refl] assms(4) by (auto simp: leaves_def do_buy_def Let_def)

text \<open>The two ways in which the transaction of a failure is known to be dead.\<close>

lemma refused_none:
  assumes "chain_ok limit_of lands env" "leaves limit_of lands env e i w" "isInsufficientFunds e \<or> isSlippageError e"
  shows "none_lands lands i w"
proof -
  have "\<not> lands t" if "epost e" "esig e = Some t" for t
    using assms that unfolding chain_ok_def leaves_def by blast
  then show ?thesis using assms(2) by (auto simp: leaves_def left_by_def none_lands_def)
qed

lemma verdict_clear:
  assumes "chain_ok limit_of lands env"
  shows "signatureVerdict env i s (Some (limit_of s)) n w = (VClear, w') \<Longrightarrow> \<not> lands s"
proof (induction n arbitrary: w)
  case 0
  then show ?case using assms
    by (subst (asm) signatureVerdict.simps) (auto simp: ask_outcome_def Let_def chain_ok_def split: if_splits)
next
  case (Suc n)
  from Suc.prems show ?case using assms
    by (subst (asm) signatureVerdict.simps)
      (auto simp: ask_outcome_def Let_def chain_ok_def split: if_splits dest!: Suc.IH)
qed

lemma clear_none:
  assumes "chain_ok limit_of lands env" "left_by limit_of lands e i w" "pendingVerdict env i e n w = (VClear, w')"
  shows "none_lands lands i w'"
proof -
  have "\<not> lands t" if "epost e" "esig e = Some t" "elimit e = Some (limit_of t)" for t
    using verdict_clear [OF assms(1)] assms(3) that by (auto simp: pendingVerdict_def)
  then have "none_lands lands i w" using assms(2) by (auto simp: left_by_def none_lands_def)
  then show ?thesis using quiet_keeps(1) [OF quiet_pending [OF assms(3)]] by blast
qed

section \<open>The stages\<close>

definition safe_stage ::
  "(signature \<Rightarrow> int) \<Rightarrow> (signature \<Rightarrow> bool) \<Rightarrow> outside \<Rightarrow> int \<Rightarrow> js_error option \<times> world \<Rightarrow> bool" where
  "safe_stage limit_of lands env i r \<longleftrightarrow> one_lands lands i (snd r) \<and>
     (\<forall>f. fst r = Some f \<longrightarrow> leaves limit_of lands env f i (snd r))"

lemma resign_safe:
  assumes ok: "chain_ok limit_of lands env" and pres: "current i a \<noteq> None"
  shows "frame_of i a w \<Longrightarrow> leaves limit_of lands env e i w \<Longrightarrow>
    safe_stage limit_of lands env i (resign_loop env i x s n e w)"
proof (induction n arbitrary: e w)
  case 0
  then show ?case by (simp add: safe_stage_def leaves_one)
next
  case (Suc n)
  note here = Suc.prems(2) leaves_one [OF Suc.prems(2)]
  show ?case
  proof (cases "isBlockhashExpiry e")
    case False
    then show ?thesis using here by (simp add: safe_stage_def)
  next
    case True
    obtain v w1 where v: "signatureVerdict env i (the (esig e)) (elimit e) IN_FLIGHT_POLLS w = (v, w1)" by fastforce
    have q: "quiet i w w1" by (rule quiet_verdict [OF v])
    have w1: "frame_of i a w1" by (rule frame_calls(3) [OF Suc.prems(1) v])
    let ?w = "begin_attempt env i s (met ''retry.expiredResigned'' w1)"
    have q': "quiet i w ?w" using q by simp
    have fw: "frame_of i a ?w" by (intro frame.R_small frame.R_ops w1)
    show ?thesis
    proof (cases v)
      case (VLanded sig)
      have "quiet i w (confirm_landed env i e sig w1)" using q by simp
      then show ?thesis using here True by (simp add: v VLanded safe_stage_def quiet_keeps)
    next
      case (VInFlight sig)
      have "quiet i w (met ''retry.expiryStillInFlight'' w1)" using q by simp
      then show ?thesis using here True by (simp add: v VInFlight safe_stage_def quiet_keeps quiet_leaves)
    next
      case VClear
      have "pendingVerdict env i e IN_FLIGHT_POLLS w = (VClear, w1)"
        using True v VClear by (auto simp: pendingVerdict_def isBlockhashExpiry_def)
      then have "none_lands lands i w1" using clear_none [OF ok] here(1) by (auto simp: leaves_def)
      then have none: "none_lands lands i ?w" using quiet_keeps(1) [of i w1 ?w] by simp
      obtain b w2 where b: "do_buy env i x s ?w = (b, w2)" by fastforce
      have w2: "frame_of i a w2" by (rule frame_calls(1) [OF fw b])
      have one: "one_lands lands i w2" by (rule buy_signs(1) [OF ok none frame_present [OF fw pres] b])
      show ?thesis
      proof (cases b)
        case (Inr r)
        have q2: "quiet i w2 (met ''retry.expiredResignSuccess'' (recordVenueRouting r (complete env i r w2)))" by simp
        show ?thesis using True quiet_keeps(2) [OF q2, of lands] one by (simp add: v VClear b Inr safe_stage_def quiet_keeps)
      next
        case (Inl e')
        have l: "leaves limit_of lands env e' i w2"
          using buy_leaves [OF ok none frame_present [OF fw pres]] b Inl by simp
        obtain c w3 where c: "tryConfirmPending env e' i w2 = (c, w3)" by fastforce
        have q3: "quiet i w2 w3" by (rule quiet_try [OF c])
        have "leaves limit_of lands env e' i w3" using l quiet_leaves [OF q3] by simp
        from Suc.IH [OF frame_calls(2) [OF w2 c] this] show ?thesis
          using True one q3 c by (cases c) (simp_all add: v VClear b Inl, simp add: safe_stage_def quiet_keeps)
      qed
    qed
  qed
qed

lemma funds_safe:
  assumes ok: "chain_ok limit_of lands env" and pres: "current i a \<noteq> None" and w: "frame_of i a w"
    and l: "leaves limit_of lands env e i w"
  shows "safe_stage limit_of lands env i (map_prod (map_option fst) id (funds_step env i x s e w))"
proof (cases "isInsufficientFunds e")
  case False
  then show ?thesis using l leaves_one [OF l] by (simp add: funds_step_def safe_stage_def)
next
  case True
  obtain y w1 where y: "resolveSpendableAmount env x (\<not> had_ata w) w = (y, w1)" by fastforce
  have q: "quiet i w w1" by (rule quiet_spendable [OF y])
  have w1: "frame_of i a w1" by (rule frame_calls(5) [OF w y])
  show ?thesis
  proof (cases y)
    case None
    have "quiet i w (met ''balance.abandonedEmpty''
        (abandon env i ''Keeper balance exhausted before this purchase'' (w1\<lparr>w_drained := True\<rparr>)))" using q by simp
    then show ?thesis using True leaves_one [OF l] by (simp add: funds_step_def y None safe_stage_def quiet_keeps)
  next
    case (Some z)
    let ?w = "begin_attempt env i s (shrink env i z (met ''balance.shrunkToFit'' (met ''balance.shrunkAfterFailure'' w1)))"
    have "quiet i w ?w" using q by simp
    then have none: "none_lands lands i ?w"
      using refused_none [OF ok l] True by (simp add: quiet_keeps)
    have fw: "frame_of i a ?w" by (intro frame.R_small frame.R_ops w1)
    obtain b w2 where b: "do_buy env i z s ?w = (b, w2)" by fastforce
    have w2: "frame_of i a w2" by (rule frame_calls(1) [OF fw b])
    have one: "one_lands lands i w2" by (rule buy_signs(1) [OF ok none frame_present [OF fw pres] b])
    have same: "leaves limit_of lands env e i w1" "one_lands lands i w1"
      using l leaves_one [OF l] q by (simp_all add: quiet_leaves quiet_keeps)
    show ?thesis
    proof (cases b)
      case (Inr r)
      have q2: "quiet i w2 (recordVenueRouting r (complete env i r w2))" by simp
      show ?thesis using True quiet_keeps(2) [OF q2, of lands] one same by (simp add: funds_step_def y Some b Inr safe_stage_def quiet_keeps)
    next
      case (Inl e')
      have l': "leaves limit_of lands env e' i w2"
        using buy_leaves [OF ok none frame_present [OF fw pres]] b Inl by simp
      obtain c w3 where c: "tryConfirmPending env e' i w2 = (c, w3)" by fastforce
      have q3: "quiet i w2 w3" by (rule quiet_try [OF c])
      then show ?thesis using True one same l' c
        by (cases c) (simp_all add: funds_step_def y Some b Inl safe_stage_def quiet_keeps quiet_leaves)
    qed
  qed
qed

lemma ladder_safe:
  assumes ok: "chain_ok limit_of lands env" and pres: "current i a \<noteq> None"
  shows "frame_of i a w \<Longrightarrow> leaves limit_of lands env e i w \<Longrightarrow> isSlippageError e \<Longrightarrow>
    safe_stage limit_of lands env i (ladder env i x as e w)"
proof (induction as arbitrary: e w)
  case Nil
  then show ?case by (simp add: safe_stage_def leaves_one)
next
  case (Cons n as)
  let ?w = "begin_attempt env i (slip_for n w) (met ''retry.slippageInstantRetry'' w)"
  have q: "quiet i w ?w" by simp
  have none: "none_lands lands i ?w"
    using refused_none [OF ok Cons.prems(2)] Cons.prems(3) quiet_keeps(1) [OF q] by simp
  have fw: "frame_of i a ?w" by (intro frame.R_small frame.R_ops Cons.prems(1))
  obtain b w1 where b: "do_buy env i x (slip_for n w) ?w = (b, w1)" by fastforce
  have w1: "frame_of i a w1" by (rule frame_calls(1) [OF fw b])
  have one: "one_lands lands i w1" by (rule buy_signs(1) [OF ok none frame_present [OF fw pres] b])
  show ?case
  proof (cases b)
    case (Inr r)
    have q2: "quiet i w1 (recordVenueRouting r (met ''retry.slippageInstantRetrySuccess'' (complete env i r w1)))" by simp
    show ?thesis using quiet_keeps(2) [OF q2, of lands] one by (simp add: Let_def b Inr safe_stage_def quiet_keeps)
  next
    case (Inl e')
    have "leaves limit_of lands env e' i w1"
      using buy_leaves [OF ok none frame_present [OF fw pres]] b Inl by simp
    then show ?thesis using Cons.IH [OF w1, of e'] one by (simp add: Let_def b Inl safe_stage_def)
  qed
qed

lemma slippage_safe:
  assumes ok: "chain_ok limit_of lands env" and pres: "current i a \<noteq> None" and w: "frame_of i a w"
    and l: "leaves limit_of lands env e i w"
  shows "safe_stage limit_of lands env i (slippage_step env i x e w)"
proof (cases "isSlippageError e")
  case False
  then show ?thesis using l leaves_one [OF l] by (simp add: slippage_step_def safe_stage_def)
next
  case True
  obtain f w1 where f: "ladder env i x [2, 3] e w = (f, w1)" by fastforce
  have s: "safe_stage limit_of lands env i (f, w1)" using ladder_safe [OF ok pres w l True, of x "[2, 3]"] by (simp only: f)
  show ?thesis
  proof (cases f)
    case None
    then show ?thesis using True s by (simp add: slippage_step_def f del: ladder.simps)
  next
    case (Some g)
    obtain c w2 where c: "tryConfirmPending env g i w1 = (c, w2)" by fastforce
    have q: "quiet i w1 w2" "quiet i w1 (met ''retry.slippageInstantRetryFail'' w2)" using quiet_try [OF c] by simp_all
    show ?thesis using True s c quiet_keeps [OF q(1)] quiet_keeps [OF q(2)] quiet_leaves [OF q(2)]
      by (cases c) (simp_all add: slippage_step_def f Some safe_stage_def del: ladder.simps)
  qed
qed

section \<open>The main loop leaves the failed ones on record\<close>

lemma sigs_ops [simp]:
  "sigs i (abandon env i msg w) = sigs i w" "sigs i (fail env i msg w) = sigs i w"
  "sigs i (setPending env i s w) = sigs i w" "sigs i (begin_attempt env i x w) = sigs i w"
  "sigs i (shrink env i x w) = sigs i w"
  by (simp_all add: abandon_def fail_def setPending_def begin_attempt_def shrink_def)

lemma record_setPending:
  "on_record i (setPending env i s w) = map_option (\<lambda>(p, l). (Some s, l)) (on_record i w)"
  by (cases "current i w") (simp_all add: setPending_def on_record_def current_update keeps_index_def)

definition parked :: "(signature \<Rightarrow> int) \<Rightarrow> (signature \<Rightarrow> bool) \<Rightarrow> int \<Rightarrow> world \<Rightarrow> bool" where
  "parked limit_of lands i w \<longleftrightarrow> one_lands lands i w \<and>
     (has_status {PFailed} i w \<longrightarrow> (\<forall>s \<in> set (sigs i w). lands s \<longrightarrow> on_record i w = Some (Some s, Some (limit_of s))))"

lemma parked_settled: "settled i w \<Longrightarrow> one_lands lands i w \<Longrightarrow> parked limit_of lands i w"
  by (auto simp: parked_def has_status_def)

lemma failure_parked:
  assumes l: "leaves limit_of lands env e i w" and c: "current i w \<noteq> None"
  shows "parked limit_of lands i (recordPurchaseFailure env e i w)"
proof (cases "fst (classifyError e) = NonRetryable")
  case True
  let ?w = "met ''retry.nonRetryableAbandon'' (abandon env i (emsg e) (count_error e w))"
  have q: "quiet i w ?w" by simp
  have "settled i ?w" using close_status(2) [of i "count_error e w"] c by simp
  then show ?thesis using True leaves_one [OF l] quiet_keeps(2) [OF q]
    by (simp add: recordPurchaseFailure_def Let_def parked_settled)
next
  case False
  have one: "one_lands lands i w'" if "sigs i w' = sigs i w" for w'
    using leaves_one [OF l] that by (simp add: one_lands_def)
  have rec: "on_record i (setPending env i s (fail env i m (count_error e w))) = Some (Some s, Some (limit_of s))"
    if "s \<in> set (sigs i w)" "lands s" for s m
    using l that by (simp add: record_setPending leaves_def left_by_def)
  have "epost e \<and> esig e = Some s" if "s \<in> set (sigs i w)" "lands s" for s
    using l that by (simp add: leaves_def left_by_def)
  moreover have "on_record i w = Some (Some s, Some (limit_of s))" if "s \<in> set (sigs i w)" "lands s" for s
    using l that by (simp add: leaves_def left_by_def)
  ultimately show ?thesis using False one rec
    by (auto simp: recordPurchaseFailure_def Let_def parked_def split: option.split)
qed

lemma stage_pair:
  assumes "stage_ok i a (f, w)" "safe_stage limit_of lands env i (map_option g f, w)"
  shows "f = None \<Longrightarrow> parked limit_of lands i w"
    and "f = Some x \<Longrightarrow> leaves limit_of lands env (g x) i w \<and> frame_of i a w"
  using assms by (auto simp: stage_ok_def safe_stage_def parked_settled)

lemma recover_parked:
  assumes ok: "chain_ok limit_of lands env" and pres: "current i a \<noteq> None" and w: "frame_of i a w"
    and l: "leaves limit_of lands env e i w"
  shows "parked limit_of lands i (recover env i x s e w)"
proof -
  obtain c w1 where c: "tryConfirmPending env e i w = (c, w1)" by fastforce
  have w1: "frame_of i a w1" by (rule frame_calls(2) [OF w c])
  have l1: "leaves limit_of lands env e i w1" using l quiet_leaves [OF quiet_try [OF c]] by simp
  obtain f2 w2 where r2: "resign_loop env i x s MAX_EXPIRY_RESIGNS e w1 = (f2, w2)" by fastforce
  have s2: "stage_ok i a (f2, w2)" "safe_stage limit_of lands env i (map_option (\<lambda>f. f) f2, w2)"
    using resign_stage [OF w1 pres, of env x s MAX_EXPIRY_RESIGNS e]
      resign_safe [OF ok pres w1 l1, of x s MAX_EXPIRY_RESIGNS] by (simp_all add: r2 option.map_ident)
  show ?thesis
  proof (cases c)
    case True
    then show ?thesis using try_settles [OF _ w pres] c leaves_one [OF l1] by (simp add: recover_def parked_settled)
  next
    case False
    show ?thesis
    proof (cases f2)
      case None
      then show ?thesis using stage_pair(1) [OF s2] False c r2 by (simp add: recover_def)
    next
      case (Some f)
      note f = conjunct1 [OF stage_pair(2) [OF s2 Some]] conjunct2 [OF stage_pair(2) [OF s2 Some]]
      obtain f3 w3 where r3: "funds_step env i x s f w2 = (f3, w3)" by fastforce
      have s3: "stage_ok i a (f3, w3)" "safe_stage limit_of lands env i (map_option fst f3, w3)"
        using funds_stage [OF f(2) pres, of env x s f] funds_safe [OF ok pres f(2,1), of x s] by (simp_all add: r3)
      show ?thesis
      proof (cases f3)
        case None
        then show ?thesis using stage_pair(1) [OF s3] False c r2 r3 \<open>f2 = Some f\<close> by (simp add: recover_def)
      next
        case (Some gy)
        obtain g y where gy: "gy = (g, y)" by fastforce
        note g = conjunct1 [OF stage_pair(2) [OF s3 Some]] conjunct2 [OF stage_pair(2) [OF s3 Some]]
        obtain f4 w4 where r4: "slippage_step env i y g w3 = (f4, w4)" by fastforce
        have s4: "stage_ok i a (f4, w4)" "safe_stage limit_of lands env i (map_option (\<lambda>f. f) f4, w4)"
          using slippage_stage [OF g(2) pres, of env y g] slippage_safe [OF ok pres g(2), of g y] g(1)
          by (simp_all add: r4 gy option.map_ident)
        show ?thesis
        proof (cases f4)
          case None
          then show ?thesis using stage_pair(1) [OF s4] False c r2 r3 r4 \<open>f2 = Some f\<close> Some gy by (simp add: recover_def)
        next
          case (Some h)
          note h = conjunct1 [OF stage_pair(2) [OF s4 Some]] conjunct2 [OF stage_pair(2) [OF s4 Some]]
          show ?thesis using failure_parked [OF h(1) frame_present [OF h(2) pres]] False c r2 r3 r4 \<open>f2 = Some f\<close> \<open>f3 = Some gy\<close> Some gy
            by (simp add: recover_def)
        qed
      qed
    qed
  qed
qed

lemma wait_quiet: "quiet i w (wait_for env i t w)"
  by (simp add: wait_for_def sleepUntil_def)

lemma main_parked:
  assumes ok: "chain_ok limit_of lands env" and c: "current i w \<noteq> None" and none: "none_lands lands i w"
  shows "parked limit_of lands i (main_purchase env i w)"
proof -
  from c obtain p where p: "current i w = Some p" by auto
  let ?w = "wait_for env i (p_scheduledAt p) w"
  have w: "frame_of i w ?w" by (intro frame.R_small frame.R_refl)
  have none': "none_lands lands i ?w" using none quiet_keeps(1) [OF wait_quiet] by simp
  show ?thesis
  proof (cases "w_drained ?w")
    case True
    let ?v = "met ''balance.abandonedEmpty'' (abandon env i ''Keeper balance exhausted before this purchase'' ?w)"
    have "quiet i ?w ?v" "settled i ?v" using close_status(2) [OF frame_present [OF w c]] by simp_all
    then show ?thesis using True quiet_keeps(2) [of i ?w ?v] none_one [OF none']
      by (simp add: main_purchase_def p parked_settled)
  next
    case False
    let ?b = "begin_attempt env i (slip_for 1 ?w) ?w"
    obtain b w1 where b: "do_buy env i (p_solAmount p) (slip_for 1 ?w) ?b = (b, w1)" by fastforce
    have fb: "frame_of i w ?b" by (intro frame.R_small w)
    have w1: "frame_of i w w1" by (rule frame_calls(1) [OF fb b])
    have nb: "none_lands lands i ?b" using none' quiet_keeps(1) [of i ?w ?b] by simp
    have one: "one_lands lands i w1" by (rule buy_signs(1) [OF ok nb frame_present [OF fb c] b])
    show ?thesis
    proof (cases b)
      case (Inr r)
      have "settled i (recordVenueRouting r (complete env i r w1))"
        using close_ops(1) [OF frame_present [OF w1 c]] by simp
      moreover have "one_lands lands i (recordVenueRouting r (complete env i r w1))"
        using one quiet_keeps(2) [of i w1 "recordVenueRouting r (complete env i r w1)"] by simp
      ultimately show ?thesis using False b Inr by (simp add: main_purchase_def p Let_def parked_settled)
    next
      case (Inl e)
      have "leaves limit_of lands env e i w1"
        using buy_leaves [OF ok nb frame_present [OF fb c]] b Inl by simp
      from recover_parked [OF ok c w1 this] show ?thesis
        using False b Inl by (simp add: main_purchase_def p Let_def)
    qed
  qed
qed

section \<open>The retry phase\<close>

lemma sigs_quiet: "quiet i w w' \<Longrightarrow> sigs i w' = sigs i w"
  by (simp add: quiet_def)

lemma lands_sigs:
  "sigs i w' = sigs i w \<Longrightarrow> none_lands lands i w' = none_lands lands i w"
  "sigs i w' = sigs i w \<Longrightarrow> one_lands lands i w' = one_lands lands i w"
  by (simp_all add: none_lands_def one_lands_def)

lemma retry_failed_sigs: "sigs i (snd (retry_failed env i n e w)) = sigs i w"
proof -
  obtain v w1 where v: "pendingVerdict env i e IN_FLIGHT_POLLS w = (v, w1)" by fastforce
  then have "sigs i w1 = sigs i w" by (intro sigs_quiet quiet_pending)
  then show ?thesis
    by (cases v) (auto simp: retry_failed_def v Let_def split: option.split)
qed

lemma retry_failed_safe:
  assumes ok: "chain_ok limit_of lands env" and l: "leaves limit_of lands env e i w"
  shows "one_lands lands i (snd (retry_failed env i n e w)) \<and>
    (fst (retry_failed env i n e w) \<longrightarrow> none_lands lands i (snd (retry_failed env i n e w)))"
proof (intro conjI impI)
  show "one_lands lands i (snd (retry_failed env i n e w))"
    using leaves_one [OF l] lands_sigs(2) [OF retry_failed_sigs] by blast
  assume go: "fst (retry_failed env i n e w)"
  obtain v w1 where v: "pendingVerdict env i e IN_FLIGHT_POLLS w = (v, w1)" by fastforce
  then have "v = VClear" using go by (cases v) (auto simp: retry_failed_def Let_def)
  with v have "pendingVerdict env i e IN_FLIGHT_POLLS w = (VClear, w1)" by simp
  from clear_none [OF ok _ this] have "none_lands lands i w1" using l by (simp add: leaves_def)
  then have "none_lands lands i w" using lands_sigs(1) [OF sigs_quiet [OF quiet_pending [OF v]]] by blast
  then show "none_lands lands i (snd (retry_failed env i n e w))" using lands_sigs(1) [OF retry_failed_sigs] by blast
qed

lemma retry_attempt_safe:
  assumes ok: "chain_ok limit_of lands env" and pres: "current i a \<noteq> None" and w: "frame_of i a w"
    and none: "none_lands lands i w"
  shows "one_lands lands i (snd (retry_attempt env i t n w)) \<and>
    (fst (retry_attempt env i t n w) \<longrightarrow> none_lands lands i (snd (retry_attempt env i t n w)))"
proof -
  let ?sol = "case current i w of Some p \<Rightarrow> p_solAmount p | None \<Rightarrow> 0"
  obtain y w1 where y: "resolveSpendableAmount env ?sol (\<not> had_ata w) w = (y, w1)" by fastforce
  have w1: "frame_of i a w1" by (rule frame_calls(5) [OF w y])
  have s1: "sigs i w1 = sigs i w" by (rule sigs_quiet [OF quiet_spendable [OF y]])
  have same: "one_lands lands i v" if "sigs i v = sigs i w" for v
    using none_one [OF none] lands_sigs(2) [OF that] by blast
  show ?thesis
  proof (cases "t < clock env (w_step w) \<or> y = None")
    case True
    then show ?thesis using same s1 by (auto simp: retry_attempt_def Let_def y)
  next
    case False
    then obtain x where x: "y = Some x" by auto
    let ?w2 = "if x < ?sol then met ''balance.shrunkToFit'' (shrink env i x w1) else w1"
    let ?b = "begin_attempt env i (slip_for n w) ?w2"
    have fb: "frame_of i a ?b" using w1 by (auto intro!: frame.R_ops frame.R_small)
    have nb: "none_lands lands i ?b" using none lands_sigs(1) [of i ?b w] s1 by simp
    obtain b w3 where b: "do_buy env i x (slip_for n w) ?b = (b, w3)" by fastforce
    have one: "one_lands lands i w3" by (rule buy_signs(1) [OF ok nb frame_present [OF fb pres] b])
    show ?thesis
    proof (cases b)
      case (Inr r)
      have q: "quiet i w3 (recordVenueRouting r (met ''retry.retrySuccess'' (complete env i r w3)))" by simp
      show ?thesis using False one quiet_keeps(2) [OF q, of lands] b Inr
        by (simp add: retry_attempt_def Let_def y x)
    next
      case (Inl e)
      have "leaves limit_of lands env e i w3"
        using buy_leaves [OF ok nb frame_present [OF fb pres]] b Inl by simp
      from retry_failed_safe [OF ok this, of n] show ?thesis
        using False b Inl by (simp add: retry_attempt_def Let_def y x)
    qed
  qed
qed

lemma retry_loop_safe:
  assumes ok: "chain_ok limit_of lands env" and pres: "current i a \<noteq> None"
  shows "frame_of i a w \<Longrightarrow> none_lands lands i w \<Longrightarrow> one_lands lands i (retry_loop env i t n w)"
proof (induction "nat (4 - n)" arbitrary: n w rule: less_induct)
  case less
  obtain go w1 where g: "retry_attempt env i t (n + 1) w = (go, w1)" by fastforce
  have w1: "frame_of i a w1" using frame.R_retry_attempt [OF less.prems(1), of env t "n + 1"] by (simp add: g)
  have s: "one_lands lands i w1" "go \<Longrightarrow> none_lands lands i w1"
    using retry_attempt_safe [OF ok pres less.prems, where n = "n + 1" and t = t] by (simp_all add: g)
  show ?case
  proof (cases "canRetry n")
    case True
    then have "go \<Longrightarrow> one_lands lands i (retry_loop env i t (n + 1) w1)"
      using less.hyps [OF _ w1 s(2)] by (simp add: canRetry_def)
    then show ?thesis using True s by (subst retry_loop.simps) (cases go; simp add: g)
  next
    case False
    then show ?thesis using none_one [OF less.prems(2)] by (subst retry_loop.simps) simp
  qed
qed

lemma leftover_safe:
  assumes ok: "chain_ok limit_of lands env" and p: "parked limit_of lands i w" "has_status {PFailed} i w"
  shows "one_lands lands i (snd (check_leftover env i w))"
    "fst (check_leftover env i w) \<Longrightarrow> none_lands lands i (snd (check_leftover env i w))"
proof -
  from p(2) obtain r where r: "current i w = Some r" by (auto simp: has_status_def)
  have one: "one_lands lands i w" using p(1) by (simp add: parked_def)
  have rec: "p_pendingSignature r = Some s \<and> p_pendingLimit r = Some (limit_of s)" if "s \<in> set (sigs i w)" "lands s" for s
    using p that r by (simp add: parked_def on_record_def)
  have "one_lands lands i (snd (check_leftover env i w)) \<and>
    (fst (check_leftover env i w) \<longrightarrow> none_lands lands i (snd (check_leftover env i w)))"
  proof (cases "p_pendingSignature r")
    case None
    then show ?thesis using rec one by (auto simp: check_leftover_def r none_lands_def)
  next
    case (Some s)
    obtain v w1 where v: "signatureVerdict env i s (p_pendingLimit r) IN_FLIGHT_POLLS w = (v, w1)" by fastforce
    have q: "quiet i w w1" by (rule quiet_verdict [OF v])
    have "none_lands lands i w" if "v = VClear"
      unfolding none_lands_def
    proof (intro ballI notI)
      fix x assume x: "x \<in> set (sigs i w)" "lands x"
      then have "x = s" "p_pendingLimit r = Some (limit_of x)" using rec Some by auto
      then show False using verdict_clear [OF ok] v that x by auto
    qed
    moreover have "sigs i (snd (check_leftover env i w)) = sigs i w"
      using sigs_quiet [OF q] by (cases v) (simp_all add: check_leftover_def r Some v)
    moreover have "v = VClear" if "fst (check_leftover env i w)"
      using that by (cases v) (simp_all add: check_leftover_def r Some v)
    ultimately show ?thesis using one lands_sigs by blast
  qed
  then show "one_lands lands i (snd (check_leftover env i w))"
    "fst (check_leftover env i w) \<Longrightarrow> none_lands lands i (snd (check_leftover env i w))" by auto
qed

lemma close_sigs: "sigs i (close_failed env i w) = sigs i w"
  by (simp add: close_failed_def split: option.split)

lemma retry_safe:
  assumes ok: "chain_ok limit_of lands env" and p: "parked limit_of lands i w" "has_status {PFailed} i w"
  shows "one_lands lands i (retry_purchase env t (i, u) w)"
proof -
  let ?w = "wait_for env i u w"
  have c: "current i w \<noteq> None" using p(2) by (auto simp: has_status_def)
  have w: "frame_of i w ?w" by (intro frame.R_small frame.R_refl)
  have cur: "current i ?w = current i w" by (simp add: wait_for_def sleepUntil_def)
  have q: "quiet i w ?w" by (rule wait_quiet)
  then have p': "parked limit_of lands i ?w" "has_status {PFailed} i ?w"
    using p sigs_quiet [OF q] quiet_keeps(2) [OF q]
    by (simp_all add: parked_def has_status_def on_record_def cur)
  obtain go w1 where g: "check_leftover env i ?w = (go, w1)" by fastforce
  have w1: "frame_of i w w1" using frame.R_leftover [OF w, of env] by (simp add: g)
  have s: "one_lands lands i w1" "go \<Longrightarrow> none_lands lands i w1"
    using leftover_safe [OF ok p'] by (simp_all add: g)
  have "go \<Longrightarrow> one_lands lands i (close_failed env i (retry_loop env i t 0 w1))"
    using retry_loop_safe [OF ok c w1 s(2)] lands_sigs(2) [OF close_sigs] by blast
  then show ?thesis using s(1) by (cases go) (simp_all add: retry_purchase_def g)
qed

section \<open>All purchases of a batch\<close>

lemma frame_sigs: "frame_of i a w \<Longrightarrow> j \<noteq> i \<Longrightarrow> sigs j w = sigs j a"
proof -
  assume f: "frame_of i a w" and j: "j \<noteq> i"
  then obtain evs where e: "w_trace w = w_trace a @ evs" "list_all (\<lambda>ev. ev_index ev = i) evs"
    by (auto simp: frame_of_def)
  have "signed_of j evs = []" using e(2) j
    by (induction evs) (auto simp: signed_of_def split: event.splits)
  then show ?thesis by (simp add: sigs_def e(1))
qed

definition view :: "int \<Rightarrow> world \<Rightarrow> PurchaseRecord option \<times> signature list" where
  "view i w = (current i w, sigs i w)"

lemma frame_view: "frame_of i a w \<Longrightarrow> j \<noteq> i \<Longrightarrow> view j w = view j a"
  by (simp add: view_def frame_sigs) (simp add: frame_of_def)

text \<open>A loop over distinct purchases: each is handled from the view it had at the start.\<close>

lemma fold_each:
  assumes step: "\<And>x w. x \<in> set xs \<Longrightarrow> P x (view (key x) w) \<Longrightarrow>
      frame_of (key x) w (f x w) \<and> Q x (view (key x) (f x w))"
    and "distinct (map key xs)" "\<And>x. x \<in> set xs \<Longrightarrow> P x (view (key x) w)"
  shows "(\<forall>x \<in> set xs. Q x (view (key x) (fold f xs w))) \<and>
    (\<forall>j. j \<notin> key ` set xs \<longrightarrow> view j (fold f xs w) = view j w)"
  using assms
proof (induction xs arbitrary: w)
  case (Cons x xs)
  have x: "frame_of (key x) w (f x w)" "Q x (view (key x) (f x w))"
    using Cons.prems(1) [of x w] Cons.prems(3) [of x] by auto
  have other: "view j (f x w) = view j w" if "j \<noteq> key x" for j by (rule frame_view [OF x(1) that])
  have notin: "key x \<notin> key ` set xs" using Cons.prems(2) by simp
  have "P y (view (key y) (f x w))" if "y \<in> set xs" for y
  proof -
    have "key y \<noteq> key x" using notin imageI [OF that, of key] by metis
    then show ?thesis using Cons.prems(3) [of y] that other by simp
  qed
  then have IH: "(\<forall>y \<in> set xs. Q y (view (key y) (fold f xs (f x w)))) \<and>
    (\<forall>j. j \<notin> key ` set xs \<longrightarrow> view j (fold f xs (f x w)) = view j (f x w))"
    using Cons.IH [of "f x w"] Cons.prems by auto
  then have "view (key x) (fold f xs (f x w)) = view (key x) (f x w)" using notin by blast
  then show ?case using IH x(2) other by auto
qed simp

lemma view_determines:
  assumes "view i w = view i w'"
  shows "parked limit_of lands i w = parked limit_of lands i w'" "one_lands lands i w = one_lands lands i w'"
    "none_lands lands i w = none_lands lands i w'" "has_status S i w = has_status S i w'"
  using assms by (simp_all add: view_def parked_def one_lands_def none_lands_def has_status_def on_record_def)

lemma main_loop_parks:
  assumes ok: "chain_ok limit_of lands env" and d: "distinct is"
    and start: "\<And>i. i \<in> set is \<Longrightarrow> current i w \<noteq> None" "\<And>i. sigs i w = []"
  shows "parked limit_of lands i (main_loop env is w) \<or> i \<notin> set is \<and> sigs i (main_loop env is w) = []"
proof -
  let ?P = "\<lambda>i v. \<exists>w. v = view i w \<and> current i w \<noteq> None \<and> none_lands lands i w"
  let ?Q = "\<lambda>i v. \<exists>w. v = view i w \<and> parked limit_of lands i w"
  have "(\<forall>i \<in> set is. ?Q i (view (id i) (fold (main_purchase env) is w))) \<and>
    (\<forall>j. j \<notin> id ` set is \<longrightarrow> view j (fold (main_purchase env) is w) = view j w)"
  proof (rule fold_each [where P = ?P])
    fix i w' assume "?P i (view (id i) w')"
    then obtain v where v: "view i w' = view i v" "current i v \<noteq> None" "none_lands lands i v" by auto
    then have "current i w' \<noteq> None" "none_lands lands i w'"
      using view_determines(3) [OF v(1)] by (auto simp: view_def)
    then show "frame_of (id i) w' (main_purchase env i w') \<and> ?Q i (view (id i) (main_purchase env i w'))"
      using main_parked [OF ok] frame.R_main [OF frame.R_refl] by auto
  next
    show "?P i (view (id i) w)" if "i \<in> set is" for i
      using start that by (auto simp: none_lands_def)
  qed (use d in simp)
  then have fin: "i \<in> set is \<Longrightarrow> ?Q i (view i (main_loop env is w))"
    "i \<notin> set is \<Longrightarrow> view i (main_loop env is w) = view i w"
    by (simp_all add: main_loop_def)
  show ?thesis
  proof (cases "i \<in> set is")
    case True
    then obtain v where "view i (main_loop env is w) = view i v" "parked limit_of lands i v" using fin(1) by auto
    then show ?thesis using view_determines(1) by blast
  next
    case False
    then show ?thesis using fin(2) start(2) by (simp add: view_def)
  qed
qed

lemma retry_phase_safe:
  assumes ok: "chain_ok limit_of lands env" and d: "distinct (indices (w_mgr w))"
    and parked: "\<And>i. parked limit_of lands i w \<or> i \<notin> set (indices (w_mgr w)) \<and> sigs i w = []"
  shows "one_lands lands i (retry_phase env w)"
proof (cases "getFailedPurchases (w_mgr w) = []")
  case True
  then have "retry_phase env w = w" by (simp add: retry_phase_def)
  then show ?thesis using parked [of i] by (auto simp: parked_def one_lands_def)
next
  case False
  let ?failed = "getFailedPurchases (w_mgr w)"
  have "\<exists>w1 t its. w1 = w\<lparr>w_mgr := markRetryWindow (clock env (w_step w)) t (w_mgr w)\<rparr> \<and>
      map fst its = map p_index ?failed \<and> retry_phase env w = fold (retry_purchase env t) its w1"
    unfolding retry_phase_def Let_def if_not_P [OF False]
    by (rule exI, rule exI, rule exI, rule conjI, rule refl, rule conjI [OF retry_times_keys refl])
  then obtain w1 t its where w1: "w1 = w\<lparr>w_mgr := markRetryWindow (clock env (w_step w)) t (w_mgr w)\<rparr>"
    and its: "map fst its = map p_index ?failed" and run: "retry_phase env w = fold (retry_purchase env t) its w1" by blast
  have view1: "view j w1 = view j w" for j by (simp add: w1 view_def current_def sigs_def)
  let ?P = "\<lambda>(x :: int \<times> millis) v. \<exists>w. v = view (fst x) w \<and> parked limit_of lands (fst x) w \<and> has_status {PFailed} (fst x) w"
  let ?Q = "\<lambda>(x :: int \<times> millis) v. \<exists>w. v = view (fst x) w \<and> one_lands lands (fst x) w"
  have all: "(\<forall>x \<in> set its. ?Q x (view (fst x) (fold (retry_purchase env t) its w1))) \<and>
    (\<forall>j. j \<notin> fst ` set its \<longrightarrow> view j (fold (retry_purchase env t) its w1) = view j w1)"
  proof (rule fold_each [where P = ?P])
    fix x w' assume "?P x (view (fst x) w')"
    then obtain v where v: "view (fst x) w' = view (fst x) v" "parked limit_of lands (fst x) v" "has_status {PFailed} (fst x) v" by auto
    then have "parked limit_of lands (fst x) w'" "has_status {PFailed} (fst x) w'"
      using view_determines [OF v(1)] by simp_all
    then show "frame_of (fst x) w' (retry_purchase env t x w') \<and> ?Q x (view (fst x) (retry_purchase env t x w'))"
      using retry_safe [OF ok, of "fst x" w' t "snd x"] frame.R_retry [OF frame.R_refl, of "fst x" w' env t "snd x"] by auto
  next
    show "distinct (map fst its)" unfolding its by (rule failed_keys(1) [OF d])
    fix x assume "x \<in> set its"
    then have "fst x \<in> set (map p_index ?failed)" unfolding its [symmetric] by simp
    then obtain p where p: "p \<in> set (purchases (bstate (w_mgr w)))" "p_status p = PFailed" "fst x = p_index p"
      by (auto simp: getFailedPurchases_def)
    have "List.find (\<lambda>q. p_index q = p_index p) ps = Some p" if "p \<in> set ps" "distinct (map p_index ps)" for ps
      using that by (induction ps) auto
    then have "current (fst x) w = Some p" using p d by (simp add: current_def getPurchase_def indices_def)
    moreover have "fst x \<in> set (indices (w_mgr w))" using p by (simp add: indices_def)
    ultimately show "?P x (view (fst x) w1)"
      using parked [of "fst x"] p(2) by (intro exI [of _ w]) (simp add: view1 has_status_def)
  qed
  have Q: "?Q x (view (fst x) (retry_phase env w))" if "x \<in> set its" for x
    using all that by (simp add: run)
  have rest: "view j (retry_phase env w) = view j w" if "j \<notin> fst ` set its" for j
    using all that by (simp add: run view1)
  show ?thesis
  proof (cases "i \<in> fst ` set its")
    case True
    then obtain x where "x \<in> set its" "i = fst x" by auto
    then show ?thesis using Q view_determines(2) by metis
  next
    case False
    have "one_lands lands i w" using parked [of i] by (auto simp: parked_def one_lands_def)
    then show ?thesis using view_determines(2) [OF rest [OF False]] by simp
  qed
qed

lemma card_at_most_one: "finite A \<Longrightarrow> (\<And>s t. s \<in> A \<Longrightarrow> t \<in> A \<Longrightarrow> s = t) \<Longrightarrow> card A \<le> 1"
  by (simp add: card_le_Suc0_iff_eq)

lemma run_batch_safe:
  assumes ok: "chain_ok limit_of lands env" and m: "mgr_ok is (w_mgr w)" "distinct is" and t: "w_trace w = []"
  shows "one_lands lands i (run_batch env w)"
proof -
  have ind: "indices (w_mgr w) = is" using m by (simp add: mgr_ok_def)
  let ?m = "main_loop env is w"
  have fresh: "sigs j w = []" for j by (simp add: sigs_def t signed_of_def)
  have pres: "current j w \<noteq> None" if "j \<in> set is" for j
    using that getPurchase_iff [of j "w_mgr w"] by (simp add: current_def ind)
  have im: "indices (w_mgr ?m) = is" using main_loop_handles [of w env] m by (simp add: ind)
  have "one_lands lands i (retry_phase env ?m)"
    by (rule retry_phase_safe [OF ok]) (use main_loop_parks [OF ok m(2) pres fresh] m(2) in \<open>simp_all add: im\<close>)
  then show ?thesis by (simp add: run_batch_def ind finish_def one_lands_def sigs_def)
qed

text \<open>C4: no purchase is made twice. Under the contract of the purchase path and the laws of the chain,
  at most one of all the transactions a batch ever signs for one purchase lands: through the resigning
  of expired transactions, the shrinking, the slippage ladder and the retries, for every schedule of
  answers, including nodes that do not answer and transactions that land late.\<close>

theorem no_double_buy:
  assumes "chain_ok limit_of lands env"
  shows "case batchBuy env params blockers hasAta rnd1 rnd2 rid random of
      Inl msg \<Rightarrow> True
    | Inr w \<Rightarrow> card {s. s \<in> set (signed_of i (w_trace w)) \<and> lands s} \<le> 1"
proof (cases "blockers = []")
  case True
  let ?m = "plan_batch (clock env 0) params hasAta rnd1 rnd2 rid random"
  let ?w = "run_batch env \<lparr>w_mgr = ?m, w_drained = False, w_step = 0, w_trace = []\<rparr>"
  have "one_lands lands i ?w"
    using plan_ok by (intro run_batch_safe [OF assms, of "indices ?m"]) (simp_all add: plan_distinct)
  then have "s = t" if "s \<in> {s. s \<in> set (sigs i ?w) \<and> lands s}" "t \<in> {s. s \<in> set (sigs i ?w) \<and> lands s}" for s t
    using that by (simp add: one_lands_def)
  then have "card {s. s \<in> set (sigs i ?w) \<and> lands s} \<le> 1"
    by (intro card_at_most_one) auto
  then show ?thesis using True by (simp add: batchBuy_def sigs_def)
qed (simp add: batchBuy_def)

text \<open>An outside in which the first transaction expires and the second lands.\<close>

definition expiring :: outside where
  "expiring = \<lparr>ask_buy = (\<lambda>n a s. if n = 0
       then \<lparr>ans_signed = [(''s0'', 10)], ans_result = Inl (PostSendError ''block height exceeded'' (Some ''s0'') (Some 10))\<rparr>
       else \<lparr>ans_signed = [(''s1'', 10)], ans_result = Inr \<lparr>res_signature = ''s1'', res_venue = Dex, res_fallback = False\<rparr>\<rparr>),
     ask_height = (\<lambda>n. Some 100),
     ask_status = (\<lambda>n s. if s = ''s1'' then Some (Some \<lparr>sv_err = False, sv_conf = Some Confirmed\<rparr>) else Some None),
     ask_balance = (\<lambda>n. Some 1000000000), clock = (\<lambda>n. int n)\<rparr>"

lemma expiring_ok: "chain_ok (\<lambda>_. 10) (\<lambda>s. s = ''s1'') expiring"
  by (auto simp: chain_ok_def expiring_def buy_ok_def PostSendError_def signatureOutcome_def)

theorem no_double_buy_witness:
  "case batchBuy expiring \<lparr>bp_mint = ''m'', bp_totalSolAmount = 1, bp_windowMinutes = None, bp_retryBufferMinutes = None,
       bp_startSlippageBps = None, bp_maxSlippageBps = None, bp_stateFilePath = None\<rparr> [] True (\<lambda>_. 0) (\<lambda>_. 0) ''b_1'' ''x'' of
      Inl msg \<Rightarrow> True
    | Inr w \<Rightarrow> card {s. s \<in> set (signed_of 1 (w_trace w)) \<and> s = ''s1''} \<le> 1"
  by (rule no_double_buy [OF expiring_ok])

end
