(* ===== verification/Router.thy ===== *)
theory Router
  imports Batch_Safety
begin

text \<open>
  Where a purchase goes (\<open>buy.ts\<close>): the bonding curve while it is active, otherwise the
  aggregator, and the pool when the aggregator has no route. The three paths are answers: what each
  signed and how it ended. The lemmas show that the router keeps the contract the batch relies on
  whenever the paths keep theirs, and that it never tries a second venue after something was sent.
\<close>

record path_answer =
  pa_signed :: "(signature \<times> int) list"
  pa_result :: "js_error + signature"

text \<open>The venues called, with what they answered, and the answer of the whole.\<close>

definition failed_at :: "venue \<Rightarrow> path_answer \<Rightarrow> js_error \<Rightarrow> buy_answer" where
  "failed_at v a e = \<lparr>ans_signed = pa_signed a, ans_result = Inl (tagVenue e v)\<rparr>"

definition bought_at :: "venue \<Rightarrow> bool \<Rightarrow> path_answer \<Rightarrow> signature \<Rightarrow> buy_answer" where
  "bought_at v fallback a s =
     \<lparr>ans_signed = pa_signed a, ans_result = Inr \<lparr>res_signature = s, res_venue = v, res_fallback = fallback\<rparr>\<rparr>"

definition after_signed :: "path_answer \<Rightarrow> buy_answer \<Rightarrow> buy_answer" where
  "after_signed a b = b\<lparr>ans_signed := pa_signed a @ ans_signed b\<rparr>"

definition buyGraduated :: "path_answer \<Rightarrow> path_answer \<Rightarrow> buy_answer \<times> venue list" where
  "buyGraduated dex pumpswap =
     (case pa_result dex of
        Inr s \<Rightarrow> (bought_at Dex False dex s, [Dex])
      | Inl dexError \<Rightarrow>
          if \<not> enoroute dexError then (failed_at Dex dex dexError, [Dex])
          else case pa_result pumpswap of
              Inr s \<Rightarrow> (after_signed dex (bought_at Pumpswap True pumpswap s), [Dex, Pumpswap])
            | Inl e \<Rightarrow> (after_signed dex (failed_at Pumpswap pumpswap e), [Dex, Pumpswap]))"

definition with_fallback :: "buy_answer \<Rightarrow> buy_answer" where
  "with_fallback b = (case ans_result b of Inl e \<Rightarrow> b | Inr r \<Rightarrow> b\<lparr>ans_result := Inr (r\<lparr>res_fallback := True\<rparr>)\<rparr>)"

text \<open>\<open>active\<close> is the answer of \<open>isBondingCurveActive\<close>, which may throw.\<close>

definition route_buy :: "js_error + bool \<Rightarrow> path_answer \<Rightarrow> path_answer \<Rightarrow> path_answer \<Rightarrow> buy_answer \<times> venue list" where
  "route_buy active pumpfun dex pumpswap =
     (case active of
        Inl e \<Rightarrow> (\<lparr>ans_signed = [], ans_result = Inl e\<rparr>, [])
      | Inr False \<Rightarrow> buyGraduated dex pumpswap
      | Inr True \<Rightarrow>
          (case pa_result pumpfun of
             Inr s \<Rightarrow> (bought_at Pumpfun False pumpfun s, [Pumpfun])
           | Inl raw \<Rightarrow>
               let e = tagVenue raw Pumpfun
               in if epost e then (failed_at Pumpfun pumpfun raw, [Pumpfun])
                  else if isSlippageError e then (failed_at Pumpfun pumpfun raw, [Pumpfun])
                  else let (b, vs) = buyGraduated dex pumpswap
                       in (after_signed pumpfun (with_fallback b), Pumpfun # vs)))"

section \<open>The contract\<close>

text \<open>What each path promises: success signs one transaction, an error sent with a signature carries
  that transaction and its limit, any other error means nothing was signed for sending. A missing
  route is found before anything is sent.\<close>

definition path_ok :: "(signature \<Rightarrow> int) \<Rightarrow> path_answer \<Rightarrow> bool" where
  "path_ok limit_of a \<longleftrightarrow>
     (case pa_result a of
        Inr s \<Rightarrow> pa_signed a = [(s, limit_of s)]
      | Inl e \<Rightarrow> (if epost e then \<exists>s. esig e = Some s \<and> elimit e = Some (limit_of s) \<and> pa_signed a = [(s, limit_of s)]
                 else pa_signed a = []) \<and>
          (enoroute e \<longrightarrow> \<not> epost e))"

lemma graduated_ok:
  assumes "path_ok limit_of dex" "path_ok limit_of pumpswap"
  shows "buy_ok limit_of (fst (buyGraduated dex pumpswap))"
  using assms
  by (auto simp: buyGraduated_def path_ok_def buy_ok_def bought_at_def failed_at_def after_signed_def tagVenue_def
      split: sum.splits option.splits if_splits)

lemma fallback_ok: "buy_ok limit_of (with_fallback b) = buy_ok limit_of b"
  by (auto simp: buy_ok_def with_fallback_def split: sum.split)

lemma after_nothing: "pa_signed a = [] \<Longrightarrow> after_signed a b = b"
  by (simp add: after_signed_def)

text \<open>C22: the router keeps the contract of a purchase. If the three paths keep theirs and a failure to
  read the curve was sent nowhere, one call of \<open>buy\<close> signs at most one transaction, an error that
  carries a signature carries the limit under which it can still land, and every other error means
  that nothing went out.\<close>

theorem router_contract:
  assumes "path_ok limit_of pumpfun" and "path_ok limit_of dex" and "path_ok limit_of pumpswap"
    and "\<And>e. active = Inl e \<Longrightarrow> \<not> epost e"
  shows "buy_ok limit_of (fst (route_buy active pumpfun dex pumpswap))"
proof (cases active)
  case (Inl e)
  then show ?thesis using assms(4) by (simp add: route_buy_def buy_ok_def split: option.split)
next
  case (Inr b)
  have g: "buy_ok limit_of (fst (buyGraduated dex pumpswap))" by (rule graduated_ok [OF assms(2,3)])
  show ?thesis
  proof (cases "pa_result pumpfun")
    case raw: (Inl raw)
    show ?thesis
    proof (cases "epost raw \<or> isSlippageError (tagVenue raw Pumpfun)")
      case True
      then have "buy_ok limit_of (failed_at Pumpfun pumpfun raw)"
        using assms(1) raw by (auto simp: path_ok_def buy_ok_def failed_at_def tagVenue_def split: option.splits if_splits)
      then show ?thesis using True g Inr raw
        by (cases b) (auto simp: route_buy_def Let_def tagVenue_def split: prod.split)
    next
      case False
      then have "pa_signed pumpfun = []" using assms(1) raw by (simp add: path_ok_def)
      then show ?thesis using False g Inr raw
        by (cases b) (auto simp: route_buy_def Let_def tagVenue_def after_nothing fallback_ok split: prod.split)
    qed
  next
    case s: (Inr s)
    have "buy_ok limit_of (bought_at Pumpfun False pumpfun s)"
      using assms(1) s by (simp add: path_ok_def buy_ok_def bought_at_def)
    then show ?thesis using g Inr s by (cases b) (simp_all add: route_buy_def)
  qed
qed

theorem router_contract_witness:
  "buy_ok (\<lambda>_. 9) (fst (route_buy (Inr True) \<lparr>pa_signed = [], pa_result = Inl (plain_error ''fetch failed'')\<rparr>
     \<lparr>pa_signed = [], pa_result = Inl (NoRouteError ''no route'')\<rparr> \<lparr>pa_signed = [(''s'', 9)], pa_result = Inr ''s''\<rparr>))"
  by (rule router_contract) (simp_all add: path_ok_def plain_error_def NoRouteError_def)

text \<open>C23: no second venue after a send. The router turns to the next venue only when the one before
  reported nothing to its hook; so of the venues called, at most the last one signed, and slippage on
  the curve never leaves the curve.\<close>

theorem venue_switch_is_presend:
  assumes "path_ok limit_of pumpfun" and "path_ok limit_of dex" and "path_ok limit_of pumpswap"
  shows "(2 \<le> length (snd (route_buy (Inr True) pumpfun dex pumpswap)) \<longrightarrow> pa_signed pumpfun = []) \<and>
    (Pumpswap \<in> set (snd (route_buy (Inr a) pumpfun dex pumpswap)) \<longrightarrow> pa_signed dex = []) \<and>
    (pa_result pumpfun = Inl e \<and> isSlippageError (tagVenue e Pumpfun) \<longrightarrow>
       snd (route_buy (Inr True) pumpfun dex pumpswap) = [Pumpfun])"
  using assms
  by (cases a) (auto simp: route_buy_def buyGraduated_def Let_def path_ok_def tagVenue_def
      split: sum.splits prod.splits if_splits)

theorem venue_switch_is_presend_witness:
  "snd (route_buy (Inr True) \<lparr>pa_signed = [], pa_result = Inl (plain_error ''Slippage'')\<rparr>
     \<lparr>pa_signed = [], pa_result = Inl (NoRouteError ''no route'')\<rparr> \<lparr>pa_signed = [(''s'', 9)], pa_result = Inr ''s''\<rparr>) = [Pumpfun]"
proof -
  have "isSlippageError (tagVenue (plain_error ''Slippage'') Pumpfun)" by code_simp
  with venue_switch_is_presend [of "\<lambda>_. 9" "\<lparr>pa_signed = [], pa_result = Inl (plain_error ''Slippage'')\<rparr>"
      "\<lparr>pa_signed = [], pa_result = Inl (NoRouteError ''no route'')\<rparr>" "\<lparr>pa_signed = [(''s'', 9)], pa_result = Inr ''s''\<rparr>"]
  show ?thesis by (simp add: path_ok_def plain_error_def NoRouteError_def)
qed

end
