(* ===== verification/Lottery_State.thy ===== *)
theory Lottery_State
  imports Text Prelude
begin

text \<open>
  The state of a round and its manager (\<open>orchestrator/types.ts\<close>,
  \<open>orchestrator/state.ts\<close>): what each coin bought, the deliveries, the burns, the refunds
  and the tokens each purchase signature brought. A decimal string that the code only writes with
  \<open>toString()\<close> is the bigint itself; the strings that come from outside
  (\<open>stakeLamports\<close>, \<open>burnWeight\<close>) stay strings. An optional list that the code
  reads with \<open>?? []\<close> is a list. The lemmas interpret the record interface on each of the
  four lists.
\<close>

section \<open>Records\<close>

record RecipientStake =
  rs_wallet :: wallet
  rs_stakeLamports :: string
  rs_burnBps :: number
  rs_burnWeight :: "string option"

datatype BurnStatus = BInProgress | BCompleted | BFailed

record BurnRecord =
  bn_id :: string
  bn_mint :: mint
  bn_raw :: bigint
  bn_status :: BurnStatus
  bn_signature :: "signature option"
  bn_pending :: "signature option"
  bn_limit :: "int option"
  bn_attempts :: int
  bn_error :: "string option"
  bn_createdAt :: millis
  bn_updatedAt :: millis

datatype BuyStatus = TPending | TInProgress | TCompleted | TFailed

record TokenBuyRecord =
  t_mint :: mint
  t_target :: "number option"
  t_adjusted :: number
  t_status :: BuyStatus
  t_runId :: "string option"
  t_file :: "string option"
  t_files :: "string list"
  t_spentSol :: "number option"
  t_attempts :: "int option"
  t_error :: "string option"
  t_recipients :: "RecipientStake list"
  t_burnedRaw :: "bigint option"
  t_burnBlocked :: "(string \<times> millis) option"
  t_supplyAtStart :: "bigint option"
  t_supplyAtEnd :: "bigint option"
  t_decimals :: "int option"
  t_updatedAt :: millis

datatype SendStatus = SPending | SInProgress | SCompleted | SSatisfied | SFailed | SAbandoned | SAtaMismatch

record SendRecord =
  s_id :: string
  s_mint :: mint
  s_recipient :: wallet
  s_betSol :: number
  s_share :: number
  s_sendN :: int
  s_round :: int
  s_amount :: "bigint option"
  s_gross :: "bigint option"
  s_status :: SendStatus
  s_topUp :: bool
  s_signature :: "signature option"
  s_pending :: "signature option"
  s_limit :: "int option"
  s_failedSigs :: "signature list"
  s_attempts :: int
  s_error :: "string option"
  s_hadAta :: "bool option"
  s_ataMismatch :: "bool option"
  s_updatedAt :: millis

datatype RefundStatus = RPending | RInProgress | RCompleted | RSkipped | RFailed

record RefundRecord =
  r_id :: string
  r_mint :: mint
  r_recipient :: wallet
  r_gross :: number
  r_fee :: number
  r_amount :: number
  r_status :: RefundStatus
  r_signature :: "signature option"
  r_pending :: "signature option"
  r_attempts :: int
  r_error :: "string option"
  r_updatedAt :: millis

record LotteryConfig =
  buyConcurrency :: int
  sendConcurrency :: int
  buyWindowMinutes :: number
  sendRounds :: int

record LotterySummary =
  tokensBoughtN :: int
  tokensFailed :: int
  sendsTotal :: int
  sendsCompleted :: int
  sendsSatisfied :: int
  sendsAbandoned :: int
  sendsAtaMismatch :: int
  ls_startedAt :: millis
  ls_finishedAt :: "millis option"

record LotteryState =
  lotteryId :: string
  totalSol :: number
  sendReserve :: number
  buyBudget :: number
  l_config :: LotteryConfig
  tokenBuys :: "TokenBuyRecord list"
  sends :: "SendRecord list"
  refunds :: "RefundRecord list"
  burns :: "BurnRecord list"
  purchaseTokens :: "(signature, bigint) jmap"
  l_summary :: LotterySummary
  l_metrics :: "((string, bigint) jmap) option"

record LotteryMgr =
  lstate :: LotteryState
  ldisk :: "LotteryState option"
  lpath :: string

section \<open>The manager\<close>

definition l_save :: "LotteryMgr \<Rightarrow> LotteryMgr" where
  "l_save m = m\<lparr>ldisk := Some (lstate m)\<rparr>"

definition l_create :: "LotteryState \<Rightarrow> string \<Rightarrow> LotteryMgr" where
  "l_create st path = l_save \<lparr>lstate = st, ldisk = None, lpath = path\<rparr>"

definition l_load :: "LotteryState \<Rightarrow> string \<Rightarrow> LotteryMgr" where
  "l_load content path = \<lparr>lstate = content, ldisk = Some content, lpath = path\<rparr>"

definition count_sends :: "SendStatus \<Rightarrow> SendRecord list \<Rightarrow> int" where
  "count_sends st ss = int (length (filter (\<lambda>s. s_status s = st) ss))"

definition l_updateSummary :: "LotteryState \<Rightarrow> LotteryState" where
  "l_updateSummary st = st\<lparr>l_summary := (l_summary st)\<lparr>
      tokensBoughtN := int (length (filter (\<lambda>b. t_status b = TCompleted) (tokenBuys st))),
      tokensFailed := int (length (filter (\<lambda>b. t_status b = TFailed) (tokenBuys st))),
      sendsTotal := int (length (sends st)),
      sendsCompleted := count_sends SCompleted (sends st),
      sendsSatisfied := count_sends SSatisfied (sends st),
      sendsAbandoned := count_sends SAbandoned (sends st),
      sendsAtaMismatch := count_sends SAtaMismatch (sends st)\<rparr>\<rparr>"

definition getTokenBuy :: "mint \<Rightarrow> LotteryMgr \<Rightarrow> TokenBuyRecord option" where
  "getTokenBuy mnt m = List.find (\<lambda>t. t_mint t = mnt) (tokenBuys (lstate m))"

definition updateTokenBuy ::
  "millis \<Rightarrow> mint \<Rightarrow> (TokenBuyRecord \<Rightarrow> TokenBuyRecord) \<Rightarrow> LotteryMgr \<Rightarrow> string + LotteryMgr" where
  "updateTokenBuy now mnt f m =
     (case getTokenBuy mnt m of
        None \<Rightarrow> Inl (''Token buy not found: '' @ mnt)
      | Some _ \<Rightarrow> Inr (l_save (m\<lparr>lstate := l_updateSummary ((lstate m)\<lparr>tokenBuys :=
          upd_first (\<lambda>t. t_mint t = mnt) (\<lambda>t. (f t)\<lparr>t_updatedAt := now\<rparr>) (tokenBuys (lstate m))\<rparr>)\<rparr>)))"

definition markTokenBuyCompleted :: "millis \<Rightarrow> mint \<Rightarrow> string \<Rightarrow> string \<Rightarrow> LotteryMgr \<Rightarrow> string + LotteryMgr" where
  "markTokenBuyCompleted now mnt rid file m =
     updateTokenBuy now mnt (\<lambda>t. t\<lparr>t_status := TCompleted, t_runId := Some rid, t_file := Some file\<rparr>) m"

definition startTokenBuy :: "millis \<Rightarrow> mint \<Rightarrow> string \<Rightarrow> LotteryMgr \<Rightarrow> string + LotteryMgr" where
  "startTokenBuy now mnt file m =
     (case getTokenBuy mnt m of
        None \<Rightarrow> Inl (''Token buy not found: '' @ mnt)
      | Some r \<Rightarrow>
          let files = (if file \<in> set (t_files r) then t_files r else t_files r @ [file])
          in updateTokenBuy now mnt (\<lambda>t. t\<lparr>t_status := TInProgress, t_file := Some file, t_files := files,
               t_attempts := Some ((case t_attempts r of None \<Rightarrow> 0 | Some a \<Rightarrow> a) + 1)\<rparr>) m)"

definition addTokenBuySpent :: "millis \<Rightarrow> mint \<Rightarrow> number \<Rightarrow> LotteryMgr \<Rightarrow> string + LotteryMgr" where
  "addTokenBuySpent now mnt spent m =
     (case getTokenBuy mnt m of
        None \<Rightarrow> Inl (''Token buy not found: '' @ mnt)
      | Some r \<Rightarrow> updateTokenBuy now mnt (\<lambda>t. t\<lparr>t_spentSol :=
          Some (round9 (fadd (case t_spentSol r of None \<Rightarrow> 0 | Some x \<Rightarrow> x) spent))\<rparr>) m)"

definition markTokenBuyFailed :: "millis \<Rightarrow> mint \<Rightarrow> string \<Rightarrow> LotteryMgr \<Rightarrow> string + LotteryMgr" where
  "markTokenBuyFailed now mnt msg m =
     updateTokenBuy now mnt (\<lambda>t. t\<lparr>t_status := TFailed, t_error := Some msg\<rparr>) m"

definition setRefunds :: "RefundRecord list \<Rightarrow> LotteryMgr \<Rightarrow> LotteryMgr" where
  "setRefunds rs m = (if 0 < length (refunds (lstate m)) then m
     else l_save (m\<lparr>lstate := (lstate m)\<lparr>refunds := rs\<rparr>\<rparr>))"

definition getRefund :: "string \<Rightarrow> LotteryMgr \<Rightarrow> RefundRecord option" where
  "getRefund i m = List.find (\<lambda>r. r_id r = i) (refunds (lstate m))"

definition updateRefund ::
  "millis \<Rightarrow> string \<Rightarrow> (RefundRecord \<Rightarrow> RefundRecord) \<Rightarrow> LotteryMgr \<Rightarrow> string + LotteryMgr" where
  "updateRefund now i f m =
     (case getRefund i m of
        None \<Rightarrow> Inl (''Refund not found: '' @ i)
      | Some _ \<Rightarrow> Inr (l_save (m\<lparr>lstate := (lstate m)\<lparr>refunds :=
          upd_first (\<lambda>r. r_id r = i) (\<lambda>r. (f r)\<lparr>r_updatedAt := now\<rparr>) (refunds (lstate m))\<rparr>\<rparr>)))"

definition add_known :: "(signature, bigint) jmap \<Rightarrow> (signature, bigint) jmap \<Rightarrow> (signature, bigint) jmap" where
  "add_known tokens known =
     foldl (\<lambda>k (s, raw). case jm_get k s of None \<Rightarrow> jm_set s raw k | Some _ \<Rightarrow> k) known tokens"

definition recordPurchaseTokens :: "(signature, bigint) jmap \<Rightarrow> LotteryMgr \<Rightarrow> LotteryMgr" where
  "recordPurchaseTokens tokens m =
     (if tokens = [] then m
      else let known = purchaseTokens (lstate m);
               changed = list_ex (\<lambda>(s, _). jm_get known s = None) tokens;
               m' = m\<lparr>lstate := (lstate m)\<lparr>purchaseTokens := add_known tokens known\<rparr>\<rparr>
           in if changed then l_save m' else m')"

definition getBurns :: "LotteryMgr \<Rightarrow> BurnRecord list" where
  "getBurns m = burns (lstate m)"

definition addBurn :: "BurnRecord \<Rightarrow> LotteryMgr \<Rightarrow> LotteryMgr" where
  "addBurn b m = l_save (m\<lparr>lstate := (lstate m)\<lparr>burns := burns (lstate m) @ [b]\<rparr>\<rparr>)"

definition getBurn :: "string \<Rightarrow> LotteryMgr \<Rightarrow> BurnRecord option" where
  "getBurn i m = List.find (\<lambda>b. bn_id b = i) (burns (lstate m))"

definition updateBurn ::
  "millis \<Rightarrow> string \<Rightarrow> (BurnRecord \<Rightarrow> BurnRecord) \<Rightarrow> LotteryMgr \<Rightarrow> string + LotteryMgr" where
  "updateBurn now i f m =
     (case getBurn i m of
        None \<Rightarrow> Inl (''Burn not found: '' @ i)
      | Some _ \<Rightarrow> Inr (l_save (m\<lparr>lstate := (lstate m)\<lparr>burns :=
          upd_first (\<lambda>b. bn_id b = i) (\<lambda>b. (f b)\<lparr>bn_updatedAt := now\<rparr>) (burns (lstate m))\<rparr>\<rparr>)))"

definition addBurned :: "millis \<Rightarrow> mint \<Rightarrow> bigint \<Rightarrow> LotteryMgr \<Rightarrow> string + LotteryMgr" where
  "addBurned now mnt raw m =
     (case getTokenBuy mnt m of
        None \<Rightarrow> Inl (''Token buy not found: '' @ mnt)
      | Some r \<Rightarrow> updateTokenBuy now mnt (\<lambda>t. t\<lparr>t_burnedRaw :=
          Some ((case t_burnedRaw r of None \<Rightarrow> 0 | Some b \<Rightarrow> b) + raw)\<rparr>) m)"

definition addSends :: "SendRecord list \<Rightarrow> LotteryMgr \<Rightarrow> LotteryMgr" where
  "addSends ss m = (if ss = [] then m
     else l_save (m\<lparr>lstate := l_updateSummary ((lstate m)\<lparr>sends := sends (lstate m) @ ss\<rparr>)\<rparr>))"

definition getSend :: "string \<Rightarrow> LotteryMgr \<Rightarrow> SendRecord option" where
  "getSend i m = List.find (\<lambda>s. s_id s = i) (sends (lstate m))"

definition updateSend ::
  "millis \<Rightarrow> string \<Rightarrow> (SendRecord \<Rightarrow> SendRecord) \<Rightarrow> LotteryMgr \<Rightarrow> string + LotteryMgr" where
  "updateSend now i f m =
     (case getSend i m of
        None \<Rightarrow> Inl (''Send not found: '' @ i)
      | Some _ \<Rightarrow> Inr (l_save (m\<lparr>lstate := l_updateSummary ((lstate m)\<lparr>sends :=
          upd_first (\<lambda>s. s_id s = i) (\<lambda>s. (f s)\<lparr>s_updatedAt := now\<rparr>) (sends (lstate m))\<rparr>)\<rparr>)))"

definition createEmptyLotteryMetrics :: "(string, bigint) jmap" where
  "createEmptyLotteryMetrics = map (\<lambda>k. (k, 0))
    [''tokenSkippedZeroBudget'', ''send.carryForward'', ''send.retryableToPending'',
     ''send.nonRetryableAbandon'', ''send.maxAttemptsAbandon'', ''send.lastRoundRetry'',
     ''send.lastRoundRetrySuccess'', ''send.lastRoundRetryFail'', ''send.ataMismatchBlocked'',
     ''send.ataForgiven'', ''send.ataDeferred'', ''send.ataDeferredSent'', ''send.computeLimitSplit'',
     ''send.pendingTxConfirmed'', ''send.pendingCheckFailed'',
     ''sweep.resetToPending'', ''sweep.sendCompleted'', ''sweep.sendFailed'']"

definition l_incrementMetric :: "string \<Rightarrow> bigint \<Rightarrow> LotteryMgr \<Rightarrow> LotteryMgr" where
  "l_incrementMetric path n m =
     (let ms = (case l_metrics (lstate m) of None \<Rightarrow> createEmptyLotteryMetrics | Some ms \<Rightarrow> ms)
      in l_save (m\<lparr>lstate := (lstate m)\<lparr>l_metrics := Some (jm_add path n ms)\<rparr>\<rparr>))"

definition l_finalize :: "millis \<Rightarrow> LotteryMgr \<Rightarrow> LotteryMgr" where
  "l_finalize now m = l_save (m\<lparr>lstate := (lstate m)\<lparr>l_summary :=
     (l_summary (lstate m))\<lparr>ls_finishedAt := Some now\<rparr>\<rparr>\<rparr>)"

definition getDefaultLotteryStatePath :: "string \<Rightarrow> string" where
  "getDefaultLotteryStatePath i = ''./logs/lottery_'' @ i @ ''.json''"

definition batchStatePath :: "string \<Rightarrow> mint \<Rightarrow> int \<Rightarrow> string" where
  "batchStatePath i mnt attempt =
     ''./logs/batch_'' @ i @ ''_'' @ take 8 mnt @ ''_'' @ show_nat attempt @ ''.json''"

section \<open>The record interface, four times\<close>

definition l_synced :: "LotteryMgr \<Rightarrow> bool" where
  "l_synced m \<longleftrightarrow> ldisk m = Some (lstate m)"

lemma l_synced_save [simp]: "l_synced (l_save m)"
  by (simp add: l_synced_def l_save_def)

lemma lstate_save [simp]: "lstate (l_save m) = lstate m"
  by (simp add: l_save_def)

lemma summary_lists [simp]:
  "tokenBuys (l_updateSummary st) = tokenBuys st" "sends (l_updateSummary st) = sends st"
  "refunds (l_updateSummary st) = refunds st" "burns (l_updateSummary st) = burns st"
  "purchaseTokens (l_updateSummary st) = purchaseTokens st" "lotteryId (l_updateSummary st) = lotteryId st"
  by (simp_all add: l_updateSummary_def)

lemma find_after_update:
  assumes "List.find (\<lambda>x. g x = k) xs = Some r" "\<And>x. g (f x) = g x"
  shows "List.find (\<lambda>x. g x = j) (upd_first (\<lambda>x. g x = k) f xs) =
    (if j = k then Some (f r) else List.find (\<lambda>x. g x = j) xs)"
  using assms by (auto simp: find_upd_first intro!: find_upd_first_other)

lemma find_key: "List.find (\<lambda>x. g x = k) xs = Some r \<Longrightarrow> g r = k"
  by (auto elim: find_SomeE)

interpretation buys: record_store t_mint getTokenBuy "updateTokenBuy now" "\<lambda>t. t\<lparr>t_updatedAt := now\<rparr>" l_synced
  for now
proof (unfold_locales, goal_cases)
  case 1
  then show ?case unfolding getTokenBuy_def by (rule find_key)
qed (auto simp: getTokenBuy_def updateTokenBuy_def find_after_update split: option.splits)

interpretation sends: record_store s_id getSend "updateSend now" "\<lambda>s. s\<lparr>s_updatedAt := now\<rparr>" l_synced
  for now
proof (unfold_locales, goal_cases)
  case 1
  then show ?case unfolding getSend_def by (rule find_key)
qed (auto simp: getSend_def updateSend_def find_after_update split: option.splits)

interpretation refunds: record_store r_id getRefund "updateRefund now" "\<lambda>r. r\<lparr>r_updatedAt := now\<rparr>" l_synced
  for now
proof (unfold_locales, goal_cases)
  case 1
  then show ?case unfolding getRefund_def by (rule find_key)
qed (auto simp: getRefund_def updateRefund_def find_after_update split: option.splits)

interpretation burns: record_store bn_id getBurn "updateBurn now" "\<lambda>b. b\<lparr>bn_updatedAt := now\<rparr>" l_synced
  for now
proof (unfold_locales, goal_cases)
  case 1
  then show ?case unfolding getBurn_def by (rule find_key)
qed (auto simp: getBurn_def updateBurn_def find_after_update split: option.splits)

section \<open>What purchases brought is written once\<close>

lemma known_after:
  "jm_get (add_known tokens known) s =
    (case jm_get known s of Some r \<Rightarrow> Some r | None \<Rightarrow> map_of tokens s)"
  unfolding add_known_def
proof (induction tokens arbitrary: known)
  case (Cons kv tokens)
  then show ?case
    by (cases kv) (auto simp: jm_get_set split: option.split if_splits)
qed (simp split: option.split)

lemma known_distinct: "distinct (map fst known) \<Longrightarrow> distinct (map fst (add_known tokens known))"
  unfolding add_known_def
  by (induction tokens arbitrary: known) (auto split: option.split)

lemma known_unchanged:
  "\<not> list_ex (\<lambda>(s, _). jm_get known s = None) tokens \<Longrightarrow> add_known tokens known = known"
  unfolding add_known_def by (induction tokens) (auto split: option.split)

lemma record_synced: "l_synced m \<Longrightarrow> l_synced (recordPurchaseTokens tokens m)"
proof (cases "list_ex (\<lambda>(s, _). jm_get (purchaseTokens (lstate m)) s = None) tokens")
  case False
  then have "recordPurchaseTokens tokens m = m"
    using known_unchanged [OF False] by (simp add: recordPurchaseTokens_def)
  then show "l_synced m \<Longrightarrow> ?thesis" by simp
qed (auto simp: recordPurchaseTokens_def Let_def)

lemma record_known:
  "jm_get (purchaseTokens (lstate (recordPurchaseTokens tokens m))) s =
    (case jm_get (purchaseTokens (lstate m)) s of Some r \<Rightarrow> Some r | None \<Rightarrow> map_of tokens s)"
proof (cases "tokens = []")
  case False
  then show ?thesis by (simp add: recordPurchaseTokens_def Let_def known_after)
qed (simp add: recordPurchaseTokens_def split: option.split)

section \<open>Everything the manager can do\<close>

text \<open>One call of the manager. The types of the code forbid an update to change the identity of a
  record or the budget of a coin (\<open>Omit\<close>).\<close>

inductive mgr_step :: "LotteryMgr \<Rightarrow> LotteryMgr \<Rightarrow> bool" where
  buy: "updateTokenBuy now k f m = Inr m' \<Longrightarrow> (\<And>t. t_mint (f t) = t_mint t \<and> t_adjusted (f t) = t_adjusted t) \<Longrightarrow>
    mgr_step m m'"
| send: "updateSend now i g m = Inr m' \<Longrightarrow> (\<And>s. s_id (g s) = s_id s \<and> s_mint (g s) = s_mint s \<and>
    s_recipient (g s) = s_recipient s) \<Longrightarrow> mgr_step m m'"
| refund: "updateRefund now i h m = Inr m' \<Longrightarrow> mgr_step m m'"
| burn: "updateBurn now i b m = Inr m' \<Longrightarrow> mgr_step m m'"
| plan: "mgr_step m (setRefunds rs m)"
| tokens: "mgr_step m (recordPurchaseTokens ts m)"
| new_burn: "mgr_step m (addBurn bn m)"
| new_sends: "mgr_step m (addSends ss m)"
| metric: "mgr_step m (l_incrementMetric path n m)"
| finish: "mgr_step m (l_finalize now m)"

definition send_key :: "SendRecord \<Rightarrow> string \<times> mint \<times> wallet" where
  "send_key s = (s_id s, s_mint s, s_recipient s)"

definition mgr_kept :: "LotteryMgr \<Rightarrow> LotteryMgr \<Rightarrow> bool" where
  "mgr_kept m m' \<longleftrightarrow>
     map (\<lambda>t. (t_mint t, t_adjusted t)) (tokenBuys (lstate m')) = map (\<lambda>t. (t_mint t, t_adjusted t)) (tokenBuys (lstate m)) \<and>
     (\<exists>more. map send_key (sends (lstate m')) = map send_key (sends (lstate m)) @ more) \<and>
     (\<forall>s r. jm_get (purchaseTokens (lstate m)) s = Some r \<longrightarrow> jm_get (purchaseTokens (lstate m')) s = Some r) \<and>
     (refunds (lstate m) \<noteq> [] \<longrightarrow> length (refunds (lstate m')) = length (refunds (lstate m)))"

lemma mgr_kept_refl: "mgr_kept m m"
  by (simp add: mgr_kept_def)

lemma mgr_kept_trans:
  assumes "mgr_kept a b" "mgr_kept b c"
  shows "mgr_kept a c"
proof -
  from assms obtain x y where "map send_key (sends (lstate b)) = map send_key (sends (lstate a)) @ x"
    "map send_key (sends (lstate c)) = map send_key (sends (lstate b)) @ y"
    unfolding mgr_kept_def by (elim conjE exE) (rule that)
  moreover have "refunds (lstate b) \<noteq> []" if "refunds (lstate a) \<noteq> []"
    using assms(1) that by (auto simp: mgr_kept_def)
  ultimately show ?thesis using assms unfolding mgr_kept_def by auto
qed

lemma mgr_step_kept: "mgr_step m m' \<Longrightarrow> mgr_kept m m'"
proof (induction rule: mgr_step.induct)
  case (buy now k f m m')
  then show ?case
    by (auto simp: mgr_kept_def updateTokenBuy_def map_upd_first split: option.splits)
next
  case (send now i g m m')
  then have "map send_key (sends (lstate m')) = map send_key (sends (lstate m))"
    by (auto simp: updateSend_def map_upd_first send_key_def split: option.splits)
  with send show ?case
    by (auto simp: mgr_kept_def updateSend_def split: option.splits)
qed (auto simp: mgr_kept_def updateRefund_def updateBurn_def setRefunds_def addBurn_def addSends_def
    l_incrementMetric_def l_finalize_def record_known Let_def recordPurchaseTokens_def known_after
    split: option.splits)

lemma mgr_step_synced: "mgr_step m m' \<Longrightarrow> l_synced m \<Longrightarrow> l_synced m'"
proof (induction rule: mgr_step.induct)
  case (tokens m ts)
  then show ?case by (rule record_synced)
qed (auto simp: setRefunds_def addBurn_def addSends_def l_incrementMetric_def l_finalize_def Let_def
    dest: buys.upd_synced sends.upd_synced refunds.upd_synced burns.upd_synced)


definition empty_round :: LotteryState where
  "empty_round = \<lparr>lotteryId = ''7'', totalSol = 1, sendReserve = 0, buyBudget = 1,
     l_config = \<lparr>buyConcurrency = 50, sendConcurrency = 20, buyWindowMinutes = 20, sendRounds = 10\<rparr>,
     tokenBuys = [], sends = [], refunds = [], burns = [], purchaseTokens = [(''sig'', 5)],
     l_summary = \<lparr>tokensBoughtN = 0, tokensFailed = 0, sendsTotal = 0, sendsCompleted = 0,
       sendsSatisfied = 0, sendsAbandoned = 0, sendsAtaMismatch = 0, ls_startedAt = 0, ls_finishedAt = None\<rparr>,
     l_metrics = None\<rparr>"


end
