(* ===== verification/Shares.thy ===== *)
theory Shares
  imports Lottery_State
begin

text \<open>
  Who gets what of a coin's tokens and how much is burned (\<open>orchestrator/shares.ts\<close>). The
  lemmas are the promise written in that file: what a wallet receives depends on its own commit and
  its own choice only, and burn and deliveries together are the tokens bought, less at most one raw
  unit for each of them.
\<close>

definition FULL_BPS :: bigint where "FULL_BPS = 10000"

record Share =
  sh_wallet :: wallet
  sh_stake :: bigint
  sh_burn :: bigint

definition burnWeightOf :: "bigint \<Rightarrow> string option \<Rightarrow> number option \<Rightarrow> bigint" where
  "burnWeightOf stake burnWeight burnBps =
     (let all = stake * FULL_BPS;
          from_bps = (\<lambda>_::unit.
            let bps = (case burnBps of Some b \<Rightarrow> max 0 (min 10000 (js_round b)) | None \<Rightarrow> 0)
            in stake * bps);
          weight = (case burnWeight of
              Some w \<Rightarrow> (if all_digits w then bigint_of w else from_bps ())
            | None \<Rightarrow> from_bps ())
      in if weight < 0 then 0 else if weight > all then all else weight)"

definition fromStake :: "RecipientStake \<Rightarrow> Share" where
  "fromStake r =
     (let stake = (if all_digits (rs_stakeLamports r) then bigint_of (rs_stakeLamports r) else 0)
      in \<lparr>sh_wallet = rs_wallet r, sh_stake = stake,
          sh_burn = burnWeightOf stake (rs_burnWeight r) (Some (rs_burnBps r))\<rparr>)"

text \<open>The two loops of \<open>sharesOf\<close>, one step each.\<close>

definition add_stake :: "(wallet, Share) jmap \<Rightarrow> RecipientStake \<Rightarrow> (wallet, Share) jmap" where
  "add_stake byWallet r =
     (let share = fromStake r in
      if sh_stake share \<le> 0 then byWallet
      else jm_set (sh_wallet share)
        (case jm_get byWallet (sh_wallet share) of
           Some prev \<Rightarrow> \<lparr>sh_wallet = sh_wallet share, sh_stake = sh_stake prev + sh_stake share,
                        sh_burn = sh_burn prev + sh_burn share\<rparr>
         | None \<Rightarrow> share) byWallet)"

definition add_send :: "mint \<Rightarrow> (wallet, Share) jmap \<Rightarrow> SendRecord \<Rightarrow> (wallet, Share) jmap" where
  "add_send mnt byWallet s =
     (if s_mint s \<noteq> mnt \<or> jm_get byWallet (s_recipient s) \<noteq> None then byWallet
      else let stake = js_round (fmul (s_betSol s) 1000000000)
           in if 0 < stake
              then jm_set (s_recipient s) \<lparr>sh_wallet = s_recipient s, sh_stake = stake, sh_burn = 0\<rparr> byWallet
              else byWallet)"

definition sharesOf :: "LotteryState \<Rightarrow> mint \<Rightarrow> Share list" where
  "sharesOf st mnt =
     (case List.find (\<lambda>t. t_mint t = mnt) (tokenBuys st) of
        Some t \<Rightarrow> (if 0 < length (t_recipients t) then jm_values (foldl add_stake [] (t_recipients t))
                  else jm_values (foldl (add_send mnt) [] (sends st)))
      | None \<Rightarrow> jm_values (foldl (add_send mnt) [] (sends st)))"

definition totalStake :: "Share list \<Rightarrow> bigint" where
  "totalStake shares = sum_list (map sh_stake shares)"

definition hasBurn :: "Share list \<Rightarrow> bool" where
  "hasBurn shares = list_ex (\<lambda>s. 0 < sh_burn s \<and> 0 < sh_stake s) shares"

definition burnWeight :: "Share list \<Rightarrow> bigint" where
  "burnWeight shares = sum_list (map sh_burn shares)"

definition burnOwed :: "bigint \<Rightarrow> Share list \<Rightarrow> bigint" where
  "burnOwed bought shares =
     (let denominator = totalStake shares * FULL_BPS in
      if bought \<le> 0 \<or> denominator = 0 then 0
      else bdiv (bought * burnWeight shares) denominator)"

definition deliveryOwed :: "bigint \<Rightarrow> wallet \<Rightarrow> Share list \<Rightarrow> bigint" where
  "deliveryOwed bought w shares =
     (let denominator = totalStake shares * FULL_BPS in
      case List.find (\<lambda>s. sh_wallet s = w) shares of
        None \<Rightarrow> 0
      | Some share \<Rightarrow>
          if bought \<le> 0 \<or> denominator = 0 then 0
          else bdiv (bought * (sh_stake share * FULL_BPS - sh_burn share)) denominator)"

definition averageBurnBps :: "Share list \<Rightarrow> number" where
  "averageBurnBps shares =
     (let tot = totalStake shares in
      if tot = 0 then 0 else fdiv (to_number (bdiv (burnWeight shares * 100) tot)) 100)"

section \<open>Well-formed shares\<close>

definition share_ok :: "Share \<Rightarrow> bool" where
  "share_ok s \<longleftrightarrow> 0 < sh_stake s \<and> 0 \<le> sh_burn s \<and> sh_burn s \<le> sh_stake s * FULL_BPS"

definition shares_ok :: "Share list \<Rightarrow> bool" where
  "shares_ok ss \<longleftrightarrow> distinct (map sh_wallet ss) \<and> list_all share_ok ss"

lemma burnWeightOf_clamped: "0 \<le> stake \<Longrightarrow> 0 \<le> burnWeightOf stake bw bps \<and> burnWeightOf stake bw bps \<le> stake * FULL_BPS"
  by (simp add: burnWeightOf_def Let_def FULL_BPS_def)

lemma fromStake_facts:
  "sh_wallet (fromStake r) = rs_wallet r"
  "0 < sh_stake (fromStake r) \<Longrightarrow> share_ok (fromStake r)"
  using burnWeightOf_clamped [of "sh_stake (fromStake r)" "rs_burnWeight r" "Some (rs_burnBps r)"]
  by (auto simp: fromStake_def Let_def share_ok_def)

lemma share_ok_add:
  "share_ok a \<Longrightarrow> share_ok b \<Longrightarrow>
    share_ok \<lparr>sh_wallet = w, sh_stake = sh_stake a + sh_stake b, sh_burn = sh_burn a + sh_burn b\<rparr>"
  by (simp add: share_ok_def algebra_simps)

text \<open>The loop invariant of both loops of \<open>sharesOf\<close>.\<close>

definition by_wallet_ok :: "(wallet, Share) jmap \<Rightarrow> bool" where
  "by_wallet_ok m \<longleftrightarrow> distinct (map fst m) \<and> list_all (\<lambda>(w, s). sh_wallet s = w \<and> share_ok s) m"

lemma by_wallet_set:
  assumes "by_wallet_ok m" "sh_wallet s = w" "share_ok s"
  shows "by_wallet_ok (jm_set w s m)"
proof -
  have "set (jm_set w s m) \<subseteq> insert (w, s) (set m)"
    unfolding jm_set_def by (induction m) auto
  then show ?thesis using assms by (auto simp: by_wallet_ok_def list_all_iff)
qed

lemma by_wallet_get: "by_wallet_ok m \<Longrightarrow> jm_get m w = Some s \<Longrightarrow> sh_wallet s = w \<and> share_ok s"
  by (auto simp: by_wallet_ok_def jm_get_def list_all_iff dest: map_of_SomeD)

lemma add_stake_ok: "by_wallet_ok m \<Longrightarrow> by_wallet_ok (add_stake m r)"
  using by_wallet_get [of m "rs_wallet r"] fromStake_facts [of r] share_ok_add
  by (auto simp: add_stake_def Let_def not_le split: option.split intro!: by_wallet_set)

lemma add_send_ok: "by_wallet_ok m \<Longrightarrow> by_wallet_ok (add_send mnt m s)"
  by (auto simp: add_send_def Let_def share_ok_def FULL_BPS_def intro!: by_wallet_set)

lemma foldl_by_wallet:
  "(\<And>m x. by_wallet_ok m \<Longrightarrow> by_wallet_ok (f m x)) \<Longrightarrow> by_wallet_ok (foldl f [] xs)"
  using foldl_cong by (induction xs rule: rev_induct) (auto simp: by_wallet_ok_def)

lemma by_wallet_values: "by_wallet_ok m \<Longrightarrow> shares_ok (jm_values m)"
proof -
  assume m: "by_wallet_ok m"
  then have "map sh_wallet (map snd m) = map fst m"
    by (auto simp: by_wallet_ok_def list_all_iff)
  then have "distinct (map sh_wallet (map snd m))" using m by (simp only: by_wallet_ok_def)
  with m show ?thesis by (auto simp: shares_ok_def jm_values_def by_wallet_ok_def list_all_iff)
qed

lemma sharesOf_ok: "shares_ok (sharesOf st mnt)"
  by (auto simp: sharesOf_def by_wallet_values foldl_by_wallet add_stake_ok add_send_ok split: option.split)

lemma shares_ok_nonneg: "shares_ok ss \<Longrightarrow> 0 \<le> totalStake ss \<and> 0 \<le> burnWeight ss"
  unfolding totalStake_def burnWeight_def shares_ok_def list_all_iff share_ok_def
  by (auto intro!: sum_list_nonneg simp: less_imp_le)

lemma shares_ok_stake: "shares_ok ss \<Longrightarrow> ss \<noteq> [] \<Longrightarrow> 0 < totalStake ss"
  using shares_ok_nonneg [of "tl ss"]
  by (cases ss) (auto simp: shares_ok_def totalStake_def share_ok_def)

lemma shares_find:
  assumes "shares_ok ss" "s \<in> set ss"
  shows "List.find (\<lambda>x. sh_wallet x = sh_wallet s) ss = Some s"
proof -
  have "distinct (map sh_wallet ss)" using assms by (simp add: shares_ok_def)
  then show ?thesis using assms(2) by (induction ss) auto
qed

section \<open>The division of what was bought\<close>

text \<open>What one wallet keeps in the unit of the denominator, and the two rounded quotients.\<close>

definition kept :: "Share \<Rightarrow> bigint" where
  "kept s = sh_stake s * FULL_BPS - sh_burn s"

lemma kept_total: "sum_list (map kept ss) + burnWeight ss = totalStake ss * FULL_BPS"
  by (induction ss) (simp_all add: kept_def burnWeight_def totalStake_def algebra_simps)

lemma kept_nonneg: "shares_ok ss \<Longrightarrow> s \<in> set ss \<Longrightarrow> 0 \<le> kept s"
  by (auto simp: shares_ok_def list_all_iff share_ok_def kept_def)

lemma deliveryOwed_eq:
  assumes "shares_ok ss" "s \<in> set ss" "0 \<le> B"
  shows "deliveryOwed B (sh_wallet s) ss = B * kept s div (totalStake ss * FULL_BPS)"
proof -
  have "0 < totalStake ss" using assms shares_ok_stake by fastforce
  then show ?thesis
    using assms shares_find [OF assms(1,2)] kept_nonneg [OF assms(1,2)]
    by (auto simp: deliveryOwed_def Let_def kept_def FULL_BPS_def bdiv_nonneg_eq)
qed

lemma burnOwed_eq:
  assumes "shares_ok ss" "0 \<le> B"
  shows "burnOwed B ss = B * burnWeight ss div (totalStake ss * FULL_BPS)"
  using assms shares_ok_nonneg [OF assms(1)]
  by (auto simp: burnOwed_def Let_def FULL_BPS_def bdiv_nonneg_eq less_le)

text \<open>Rounding the parts of a sum down loses less than one unit for each part.\<close>

lemma floor_parts:
  assumes "0 < (D::int)"
  shows "sum_list (map (\<lambda>x. x div D) xs) * D \<le> sum_list xs"
    and "sum_list xs \<le> sum_list (map (\<lambda>x. x div D) xs) * D + int (length xs) * (D - 1)"
proof (induction xs)
  case (Cons x xs)
  have "x div D * D \<le> x" "x \<le> x div D * D + (D - 1)"
    using assms by (simp_all add: minus_mod_eq_div_mult [symmetric])
  with Cons show "sum_list (map (\<lambda>x. x div D) (x # xs)) * D \<le> sum_list (x # xs)"
    "sum_list (x # xs) \<le> sum_list (map (\<lambda>x. x div D) (x # xs)) * D + int (length (x # xs)) * (D - 1)"
    by (auto simp: algebra_simps)
qed simp_all

lemma owed_bounds:
  assumes ok: "shares_ok ss" and ne: "ss \<noteq> []" and B: "0 \<le> B"
  defines "owed \<equiv> burnOwed B ss + sum_list (map (\<lambda>s. deliveryOwed B (sh_wallet s) ss) ss)"
  shows "owed \<le> B" and "B \<le> owed + int (length ss)"
proof -
  let ?D = "totalStake ss * FULL_BPS"
  have D: "0 < ?D" using shares_ok_stake [OF ok ne] by (simp add: FULL_BPS_def)
  let ?parts = "B * burnWeight ss # map (\<lambda>s. B * kept s) ss"
  have owed: "owed = sum_list (map (\<lambda>x. x div ?D) ?parts)"
    unfolding owed_def using ok B
    by (auto simp: burnOwed_eq deliveryOwed_eq comp_def intro!: arg_cong [where f = sum_list])
  have "sum_list ?parts = B * (sum_list (map kept ss) + burnWeight ss)"
    by (simp add: sum_list_const_mult distrib_left)
  then have parts: "sum_list ?parts = B * ?D" by (simp only: kept_total)
  note * = floor_parts [OF D, of ?parts, folded owed, unfolded parts]
  show "owed \<le> B" using *(1) D by (simp add: mult_le_cancel_right)
  have "B * ?D \<le> owed * ?D + int (length ss + 1) * (?D - 1)" using *(2) by simp
  also have "\<dots> < (owed + int (length ss) + 1) * ?D"
    using D by (simp add: algebra_simps)
  finally show "B \<le> owed + int (length ss)" using D by (simp add: mult_less_cancel_right)
qed

section \<open>Properties\<close>

text \<open>C6: whatever the round's record holds (a wallet listed twice, weights above the commit, strings
  that are no numbers, an old record without recipients), the burn and the deliveries worked out
  from it never add up to more than was bought, and fall short of it by at most one raw unit per
  wallet: no token is promised twice and none is lost beyond the dust.\<close>

theorem shares_conserve:
  assumes "0 \<le> B" and "sharesOf st mnt \<noteq> []"
  shows "burnOwed B (sharesOf st mnt) +
      sum_list (map (\<lambda>s. deliveryOwed B (sh_wallet s) (sharesOf st mnt)) (sharesOf st mnt)) \<le> B \<and>
    B \<le> burnOwed B (sharesOf st mnt) +
      sum_list (map (\<lambda>s. deliveryOwed B (sh_wallet s) (sharesOf st mnt)) (sharesOf st mnt)) +
      int (length (sharesOf st mnt))"
  using owed_bounds [OF sharesOf_ok assms(2,1)] by simp

text \<open>C24: what a wallet receives depends on its own commit and its own choice and on nothing anybody
  else chose. Take two sets of shares with the same wallets and commits in the same order: if one
  wallet's burn weight is the same in both, so is its delivery, however the others' choices differ.\<close>

theorem own_choice_only:
  assumes "map (\<lambda>s. (sh_wallet s, sh_stake s)) ss = map (\<lambda>s. (sh_wallet s, sh_stake s)) ss'"
    and "map_option sh_burn (List.find (\<lambda>s. sh_wallet s = w) ss) = map_option sh_burn (List.find (\<lambda>s. sh_wallet s = w) ss')"
  shows "deliveryOwed B w ss = deliveryOwed B w ss'"
proof -
  have "map sh_stake ss = map snd (map (\<lambda>s. (sh_wallet s, sh_stake s)) ss)" for ss :: "Share list" by simp
  then have tot: "totalStake ss = totalStake ss'" unfolding totalStake_def using assms(1) by metis
  have "map_option (\<lambda>s. (sh_wallet s, sh_stake s)) (List.find (\<lambda>s. sh_wallet s = w) ss) =
    List.find (\<lambda>x. fst x = w) (map (\<lambda>s. (sh_wallet s, sh_stake s)) ss)" for ss :: "Share list"
    by (induction ss) auto
  then have "map_option (\<lambda>s. (sh_wallet s, sh_stake s)) (List.find (\<lambda>s. sh_wallet s = w) ss) =
    map_option (\<lambda>s. (sh_wallet s, sh_stake s)) (List.find (\<lambda>s. sh_wallet s = w) ss')"
    using assms(1) by simp
  with assms(2) tot show ?thesis
    unfolding deliveryOwed_def Let_def
    by (cases "List.find (\<lambda>s. sh_wallet s = w) ss"; cases "List.find (\<lambda>s. sh_wallet s = w) ss'") auto
qed

theorem own_choice_only_witness:
  "deliveryOwed 1000 ''a'' [\<lparr>sh_wallet = ''a'', sh_stake = 5, sh_burn = 25000\<rparr>, \<lparr>sh_wallet = ''b'', sh_stake = 5, sh_burn = 0\<rparr>] =
   deliveryOwed 1000 ''a'' [\<lparr>sh_wallet = ''a'', sh_stake = 5, sh_burn = 25000\<rparr>, \<lparr>sh_wallet = ''b'', sh_stake = 5, sh_burn = 50000\<rparr>]"
  by (rule own_choice_only) simp_all


definition half_round :: LotteryState where
  "half_round = empty_round\<lparr>tokenBuys := [\<lparr>t_mint = ''m'', t_target = None, t_adjusted = 1, t_status = TPending,
     t_runId = None, t_file = None, t_files = [], t_spentSol = None, t_attempts = None, t_error = None,
     t_recipients = [\<lparr>rs_wallet = ''a'', rs_stakeLamports = ''3'', rs_burnBps = 5000, rs_burnWeight = None\<rparr>,
                     \<lparr>rs_wallet = ''b'', rs_stakeLamports = ''4'', rs_burnBps = 0, rs_burnWeight = Some ''99999''\<rparr>],
     t_burnedRaw = None, t_burnBlocked = None, t_supplyAtStart = None, t_supplyAtEnd = None, t_decimals = None,
     t_updatedAt = 0\<rparr>]\<rparr>"

lemma half_round_shares:
  "sharesOf half_round ''m'' = [\<lparr>sh_wallet = ''a'', sh_stake = 3, sh_burn = 15000\<rparr>, \<lparr>sh_wallet = ''b'', sh_stake = 4, sh_burn = 40000\<rparr>]"
  by code_simp

theorem shares_conserve_witness:
  "burnOwed 100 (sharesOf half_round ''m'') = 78 \<and> deliveryOwed 100 ''a'' (sharesOf half_round ''m'') = 21 \<and>
   burnOwed 100 (sharesOf half_round ''m'') +
      sum_list (map (\<lambda>s. deliveryOwed 100 (sh_wallet s) (sharesOf half_round ''m'')) (sharesOf half_round ''m'')) \<le> 100"
proof -
  have "sharesOf half_round ''m'' \<noteq> []" by (simp add: half_round_shares)
  from shares_conserve [OF _ this, of 100] show ?thesis
    by (simp add: half_round_shares burnOwed_def deliveryOwed_def Let_def totalStake_def burnWeight_def FULL_BPS_def bdiv_def)
qed


end
