(* ===== verification/Deficit.thy ===== *)
theory Deficit
  imports Shares
begin

text \<open>
  The arithmetic of the deliveries (\<open>orchestrator/sendRounds.ts\<close>, first half): how many
  deliveries a commit gets and in which rounds, the delivery records of a round, and how a round
  divides the keeper's balance of a coin between its recipients by their deficits. The clock is
  read once per generation of records (\<open>now\<close>).
\<close>

section \<open>The deliveries of a commit\<close>

definition calculateSendN :: "number \<Rightarrow> int" where
  "calculateSendN solBet =
     (if solBet \<le> 0 then 0
      else if solBet < 1 then 1
      else if 20 \<le> solBet then 10
      else max 1 (js_floor (fadd 3 (fdiv (fmul (fsub solBet 5) 7) 15))))"

definition assignRounds :: "int \<Rightarrow> int \<Rightarrow> int list" where
  "assignRounds sendN totalRounds =
     (if sendN \<le> 0 \<or> totalRounds \<le> 0 then []
      else if totalRounds \<le> sendN then [1..totalRounds]
      else let step = fdiv (of_int totalRounds) (of_int sendN)
           in map (\<lambda>i. js_ceil (fmul (of_int i) step)) [1..sendN])"

text \<open>One recipient's records from the counter \<open>k\<close> on, and the two loops.\<close>

definition records_for ::
  "millis \<Rightarrow> int \<Rightarrow> (string, bool) jmap option \<Rightarrow> number \<Rightarrow> mint \<Rightarrow> int \<Rightarrow> wallet \<times> number \<Rightarrow> SendRecord list" where
  "records_for now totalRounds ataSnapshot totalBets mnt k r =
     (let share = fdiv (snd r) totalBets;
          sendN = calculateSendN (snd r);
          rounds = assignRounds sendN totalRounds;
          hadAta = (case ataSnapshot of None \<Rightarrow> None | Some snap \<Rightarrow> jm_get snap (mnt @ '':'' @ fst r))
      in map (\<lambda>i. \<lparr>s_id = ''send_'' @ show_nat (k + int i), s_mint = mnt, s_recipient = fst r, s_betSol = snd r,
              s_share = share, s_sendN = int (length rounds), s_round = rounds ! i, s_amount = None, s_gross = None,
              s_status = SPending, s_topUp = False, s_signature = None, s_pending = None, s_limit = None,
              s_failedSigs = [], s_attempts = 0, s_error = None, s_hadAta = hadAta, s_ataMismatch = None,
              s_updatedAt = now\<rparr>) [0..<length rounds])"

fun records_of_token ::
  "millis \<Rightarrow> int \<Rightarrow> (string, bool) jmap option \<Rightarrow> number \<Rightarrow> mint \<Rightarrow> int \<Rightarrow> (wallet \<times> number) list \<Rightarrow> SendRecord list" where
  "records_of_token now tr snap tb mnt k [] = []"
| "records_of_token now tr snap tb mnt k (r # rs) =
     (let recs = records_for now tr snap tb mnt k r
      in recs @ records_of_token now tr snap tb mnt (k + int (length recs)) rs)"

fun send_records ::
  "millis \<Rightarrow> int \<Rightarrow> (string, bool) jmap option \<Rightarrow> int \<Rightarrow> (mint \<times> (wallet \<times> number) list) list \<Rightarrow> SendRecord list" where
  "send_records now tr snap k [] = []"
| "send_records now tr snap k ((mnt, rs) # ts) =
     (let totalBets = foldl fadd 0 (map snd rs);
          recs = (if totalBets \<le> 0 then [] else records_of_token now tr snap totalBets mnt k rs)
      in recs @ send_records now tr snap (k + int (length recs)) ts)"

definition generateSendRecords ::
  "millis \<Rightarrow> int \<Rightarrow> (string, bool) jmap option \<Rightarrow> (mint \<times> (wallet \<times> number) list) list \<Rightarrow> SendRecord list" where
  "generateSendRecords now totalRounds ataSnapshot tokens = send_records now totalRounds ataSnapshot 1 tokens"

section \<open>The division of a balance\<close>

record DeliveryBasis =
  basis_bought :: bigint
  basis_shares :: "Share list"

definition sentFromKeeper :: "SendRecord \<Rightarrow> bigint" where
  "sentFromKeeper s =
     (case (case s_gross s of Some g \<Rightarrow> Some g | None \<Rightarrow> s_amount s) of
        Some raw \<Rightarrow> if 0 \<le> raw then raw else 0
      | None \<Rightarrow> 0)"

definition delivered :: "SendRecord \<Rightarrow> bool" where
  "delivered s \<longleftrightarrow> s_status s = SCompleted \<and> s_amount s \<noteq> None"

definition sent_map :: "bool \<Rightarrow> SendRecord list \<Rightarrow> (wallet, bigint) jmap" where
  "sent_map exact ss =
     foldl (\<lambda>m s. if delivered s
        then jm_add (s_recipient s) (if exact then sentFromKeeper s else the (s_amount s)) m else m) [] ss"

definition bet_map :: "SendRecord list \<Rightarrow> (wallet, bigint) jmap" where
  "bet_map ss =
     foldl (\<lambda>m s. if jm_get m (s_recipient s) \<noteq> None then m
        else jm_set (s_recipient s) (js_round (fmul (s_betSol s) 1000000000)) m) [] ss"

text \<open>\<open>target > sent ? target - sent : 0n\<close> for one recipient.\<close>

definition deficit_of :: "SendRecord list \<Rightarrow> bigint \<Rightarrow> DeliveryBasis option \<Rightarrow> wallet \<Rightarrow> bigint" where
  "deficit_of allMintSends balance basis w =
     (let alreadySentTotal = sum_list (map (\<lambda>s. the (s_amount s)) (filter delivered allMintSends));
          totalTokens = balance + alreadySentTotal;
          bets = bet_map allMintSends;
          totalBetLamports = sum_list (jm_values bets);
          target = (case basis of
              Some b \<Rightarrow> deliveryOwed (basis_bought b) w (basis_shares b)
            | None \<Rightarrow> bdiv (totalTokens * get_or0 bets w) totalBetLamports);
          sent = get_or0 (sent_map (basis \<noteq> None) allMintSends) w
      in if sent < target then target - sent else 0)"

text \<open>The loop over the active deliveries that fills \<open>recipientDeficit\<close> and
  \<open>recipientActiveSends\<close>.\<close>

definition add_active ::
  "(wallet \<Rightarrow> bigint) \<Rightarrow> (wallet, bigint) jmap \<times> (wallet, SendRecord list) jmap \<Rightarrow> SendRecord \<Rightarrow>
    (wallet, bigint) jmap \<times> (wallet, SendRecord list) jmap" where
  "add_active deficit DA s =
     (let r = s_recipient s;
          DA' = (if jm_get (snd DA) r = None
                 then (jm_set r (deficit r) (fst DA), jm_set r [] (snd DA)) else DA)
      in (fst DA', jm_set r (the (jm_get (snd DA') r) @ [s]) (snd DA')))"

text \<open>The distribution loop over the recipients, \<open>distributed\<close> being what went out before.\<close>

fun distribute :: "bigint \<Rightarrow> bigint \<Rightarrow> bigint \<Rightarrow> (wallet \<times> bigint) list \<Rightarrow> (wallet \<times> bigint) list" where
  "distribute balance totalDeficit distributed [] = []"
| "distribute balance totalDeficit distributed [(w, d)] =
     [(w, (if totalDeficit \<le> balance then totalDeficit else balance) - distributed)]"
| "distribute balance totalDeficit distributed ((w, d) # e # es) =
     (let a = (if totalDeficit \<le> balance then d else bdiv (balance * d) totalDeficit)
      in (w, a) # distribute balance totalDeficit (distributed + a) (e # es))"

text \<open>One recipient's amount over its active deliveries of the round.\<close>

fun per_send :: "bigint \<Rightarrow> bigint \<Rightarrow> bigint \<Rightarrow> string list \<Rightarrow> (string \<times> bigint) list" where
  "per_send amount each sendDistributed [] = []"
| "per_send amount each sendDistributed [i] = [(i, amount - sendDistributed)]"
| "per_send amount each sendDistributed (i # j # is) =
     (i, each) # per_send amount each (sendDistributed + each) (j # is)"

definition set_positive :: "(string, bigint) jmap \<Rightarrow> (string \<times> bigint) list \<Rightarrow> (string, bigint) jmap" where
  "set_positive res kvs = foldl (\<lambda>m (k, v). if 0 < v then jm_set k v m else m) res kvs"

definition give_recipient ::
  "(wallet, SendRecord list) jmap \<Rightarrow> (string, bigint) jmap \<Rightarrow> wallet \<times> bigint \<Rightarrow> (string, bigint) jmap" where
  "give_recipient active res wa =
     (if snd wa \<le> 0 then res
      else let ids = map s_id (the (jm_get active (fst wa)))
           in set_positive res (per_send (snd wa) (bdiv (snd wa) (int (length ids))) 0 ids))"

definition calculateDeficitAmounts ::
  "SendRecord list \<Rightarrow> SendRecord list \<Rightarrow> bigint \<Rightarrow> DeliveryBasis option \<Rightarrow> (string, bigint) jmap" where
  "calculateDeficitAmounts activeSends allMintSends balance basis =
     (if activeSends = [] \<or> balance \<le> 0 then []
      else if sum_list (jm_values (bet_map allMintSends)) \<le> 0 then []
      else let DA = foldl (add_active (deficit_of allMintSends balance basis)) ([], []) activeSends;
               totalDeficit = sum_list (jm_values (fst DA))
           in if totalDeficit \<le> 0 then []
              else foldl (give_recipient (snd DA)) [] (distribute balance totalDeficit 0 (fst DA)))"

definition mintsWithBurners :: "LotteryState \<Rightarrow> mint list" where
  "mintsWithBurners st = map t_mint (filter (\<lambda>t. hasBurn (sharesOf st (t_mint t))) (tokenBuys st))"

section \<open>The loops\<close>

lemma active_loop:
  fixes f defines "run \<equiv> \<lambda>xs. foldl (add_active f) ([], []) xs"
  shows "map fst (fst (run xs)) = map fst (snd (run xs)) \<and> distinct (map fst (snd (run xs))) \<and>
    (\<forall>w. jm_get (snd (run xs)) w =
      (if w \<in> s_recipient ` set xs then Some (filter (\<lambda>s. s_recipient s = w) xs) else None)) \<and>
    list_all (\<lambda>(w, d). d = f w) (fst (run xs))"
proof (induction xs rule: rev_induct)
  case Nil
  then show ?case by (simp add: run_def jm_get_def)
next
  case (snoc x xs)
  obtain D A where DA: "run xs = (D, A)" by fastforce
  note IH = snoc [unfolded DA fst_conv snd_conv]
  have step: "run (xs @ [x]) = add_active f (D, A) x" using DA by (simp add: run_def)
  have filt: "filter (\<lambda>s. s_recipient s = w) xs = []" if "w \<notin> s_recipient ` set xs" for w
    using that by (auto simp: filter_empty_conv)
  show ?case
  proof (cases "s_recipient x \<in> s_recipient ` set xs")
    case True
    then have keys: "s_recipient x \<in> set (map fst A)"
      using IH by (metis jm_get_def map_of_eq_None_iff option.distinct(1) list.set_map)
    with True IH show ?thesis
      by (auto simp: step add_active_def Let_def jm_get_set keys_jm_set)
  next
    case False
    then have "jm_get A (s_recipient x) = None" using IH by simp
    moreover from this have "s_recipient x \<notin> set (map fst A)"
      by (simp add: jm_get_def map_of_eq_None_iff)
    moreover from calculation have "jm_get D (s_recipient x) = None"
      using IH by (simp add: jm_get_def map_of_eq_None_iff) (metis list.set_map)
    ultimately show ?thesis using IH False filt
      by (auto simp: step add_active_def Let_def jm_get_set keys_jm_set jm_set_absent [of D])
  qed
qed

lemma length_distribute [simp]: "length (distribute b td acc es) = length es"
  by (induction b td acc es rule: distribute.induct) (auto simp: Let_def)

lemma fst_distribute [simp]: "map fst (distribute b td acc es) = map fst es"
  by (induction b td acc es rule: distribute.induct) (auto simp: Let_def)

lemma sum_distribute:
  "es \<noteq> [] \<Longrightarrow> sum_list (map snd (distribute b td acc es)) = min td b - acc"
  by (induction b td acc es rule: distribute.induct) (auto simp: Let_def min_def)

lemma sum_per_send: "is \<noteq> [] \<Longrightarrow> sum_list (map snd (per_send a e acc is)) = a - acc"
  by (induction a e acc "is" rule: per_send.induct) auto

lemma fst_per_send [simp]: "map fst (per_send a e acc is) = is"
  by (induction a e acc "is" rule: per_send.induct) auto

text \<open>What the loops hand out is never negative: after the recipients before, the rest of the
  deficits still fits in what is left.\<close>

lemma distribute_exact: "td \<le> b \<Longrightarrow> acc + sum_list (map snd es) = td \<Longrightarrow> distribute b td acc es = es"
  by (induction b td acc es rule: distribute.induct) (auto simp: Let_def)

lemma distribute_nonneg:
  assumes "b < td" "0 \<le> b" "acc * td + b * sum_list (map snd es) \<le> b * td" "list_all (\<lambda>(w, d). 0 \<le> d) es"
  shows "list_all (\<lambda>(w, a). 0 \<le> a) (distribute b td acc es)"
  using assms
proof (induction b td acc es rule: distribute.induct)
  case (2 b td acc w d)
  then have "0 \<le> b * d" "acc * td + b * d \<le> b * td" by simp_all
  then have "acc * td \<le> b * td" by linarith
  moreover have "0 < td" using 2 by simp
  ultimately have "acc \<le> b" by (rule mult_right_le_imp_le)
  with 2 show ?case by simp
next
  case (3 b td acc w d e es)
  then have td: "0 < td" and bd: "0 \<le> b * d" by simp_all
  have "bdiv (b * d) td * td \<le> b * d" by (rule bdiv_mult_le [OF bd td])
  with 3(4) have "(acc + bdiv (b * d) td) * td + b * sum_list (map snd (e # es)) \<le> b * td"
    by (simp add: algebra_simps)
  with 3 bdiv_nonneg [OF bd td] show ?case by (simp add: Let_def)
qed simp_all

lemma distribute_all_nonneg:
  assumes "0 < sum_list (map snd es)" "0 \<le> b" "list_all (\<lambda>(w, d). 0 \<le> d) es"
  shows "list_all (\<lambda>(w, a). 0 \<le> a) (distribute b (sum_list (map snd es)) 0 es)"
  using assms distribute_exact [of "sum_list (map snd es)" b 0 es] distribute_nonneg [of b _ 0 es]
  by (cases "sum_list (map snd es) \<le> b") simp_all

lemma per_send_nonneg:
  "0 \<le> e \<Longrightarrow> acc + e * int (length is) \<le> a \<Longrightarrow> list_all (\<lambda>(i, v). 0 \<le> v) (per_send a e acc is)"
  by (induction a e acc "is" rule: per_send.induct) (auto simp: algebra_simps)

lemma per_send_of_amount:
  assumes "0 \<le> a" "is \<noteq> []"
  shows "list_all (\<lambda>(i, v). 0 \<le> v) (per_send a (bdiv a (int (length is))) 0 is)"
  using assms bdiv_mult_le [of a "int (length is)"] bdiv_nonneg [of a "int (length is)"]
  by (intro per_send_nonneg) auto

section \<open>What a round hands out\<close>

definition res_ok :: "(string, bigint) jmap \<Rightarrow> bool" where
  "res_ok m \<longleftrightarrow> distinct (map fst m) \<and> list_all (\<lambda>(k, v). 0 < v) m"

lemma res_ok_set: "res_ok m \<Longrightarrow> 0 < v \<Longrightarrow> res_ok (jm_set k v m)"
proof -
  assume m: "res_ok m" "0 < v"
  have "set (jm_set k v m) \<subseteq> insert (k, v) (set m)" unfolding jm_set_def by (induction m) auto
  with m show ?thesis by (auto simp: res_ok_def list_all_iff)
qed

lemma res_sum_set: "res_ok m \<Longrightarrow> sum_list (map snd (jm_set k v m)) \<le> sum_list (map snd m) + v"
proof (cases "jm_get m k")
  case (Some w)
  assume m: "res_ok m"
  then have "0 < w" using Some by (auto simp: res_ok_def jm_get_def list_all_iff dest: map_of_SomeD)
  then show ?thesis using sum_jm_set [OF Some, of v] m by (simp add: res_ok_def)
qed (simp add: jm_set_absent)

lemma set_positive_simps [simp]:
  "set_positive m [] = m"
  "set_positive m ((k, v) # kvs) = set_positive (if 0 < v then jm_set k v m else m) kvs"
  by (simp_all add: set_positive_def)

lemma set_positive_ok: "res_ok m \<Longrightarrow> res_ok (set_positive m kvs)"
  by (induction kvs arbitrary: m) (auto simp: res_ok_set)

lemma set_positive_sum:
  "res_ok m \<Longrightarrow> list_all (\<lambda>(k, v). 0 \<le> v) kvs \<Longrightarrow>
    sum_list (map snd (set_positive m kvs)) \<le> sum_list (map snd m) + sum_list (map snd kvs)"
proof (induction kvs arbitrary: m)
  case (Cons kv kvs)
  obtain k v where kv: "kv = (k, v)" by fastforce
  let ?m = "if 0 < v then jm_set k v m else m"
  have "res_ok ?m" "sum_list (map snd ?m) \<le> sum_list (map snd m) + v"
    using Cons.prems res_ok_set res_sum_set [of m k v] by (auto simp: kv)
  with Cons.IH [of ?m] Cons.prems show ?case by (auto simp: kv)
qed simp

lemma set_positive_other: "i \<notin> set (map fst kvs) \<Longrightarrow> get_or0 (set_positive m kvs) i = get_or0 m i"
  by (induction kvs arbitrary: m) (auto simp: get_or0_set)

lemma set_positive_get:
  "distinct (map fst kvs) \<Longrightarrow> (i, v) \<in> set kvs \<Longrightarrow> 0 \<le> v \<Longrightarrow> get_or0 m i = 0 \<Longrightarrow>
    get_or0 (set_positive m kvs) i = v"
proof (induction kvs arbitrary: m)
  case (Cons kv kvs)
  obtain k u where kv: "kv = (k, u)" by fastforce
  show ?case
  proof (cases "i = k")
    case True
    with Cons.prems have "u = v" by (auto simp: kv rev_image_eqI)
    moreover have "k \<notin> set (map fst kvs)" using Cons.prems by (simp add: kv)
    ultimately show ?thesis using True Cons.prems by (simp add: kv set_positive_other get_or0_set)
  next
    case False
    then have "get_or0 (if 0 < u then jm_set k u m else m) i = 0" using Cons.prems by (simp add: get_or0_set)
    moreover have "(i, v) \<in> set kvs" using Cons.prems False by (simp add: kv)
    ultimately show ?thesis using Cons.IH Cons.prems by (simp add: kv)
  qed
qed simp

lemma set_positive_total:
  assumes "distinct (map fst kvs)" "list_all (\<lambda>(k, v). 0 \<le> v) kvs" "\<And>i. i \<in> set (map fst kvs) \<Longrightarrow> get_or0 m i = 0"
  shows "sum_list (map (get_or0 (set_positive m kvs)) (map fst kvs)) = sum_list (map snd kvs)"
proof -
  have "map (\<lambda>kv. get_or0 (set_positive m kvs) (fst kv)) kvs = map snd kvs"
  proof (intro map_cong refl)
    fix kv assume "kv \<in> set kvs"
    then show "get_or0 (set_positive m kvs) (fst kv) = snd kv"
      using assms by (cases kv) (auto simp: list_all_iff intro!: set_positive_get)
  qed
  then show ?thesis by (simp only: map_map comp_def)
qed

text \<open>The fold over the recipients: what it writes, in total and for each of them.\<close>

lemma give_ok: "res_ok m \<Longrightarrow> res_ok (give_recipient A m wa)"
  by (simp add: give_recipient_def Let_def set_positive_ok)

lemma give_sum:
  assumes "res_ok m" "jm_get A w \<noteq> Some []" "jm_get A w \<noteq> None" "0 \<le> a"
  shows "sum_list (map snd (give_recipient A m (w, a))) \<le> sum_list (map snd m) + a"
proof (cases "a \<le> 0")
  case False
  let ?is = "map s_id (the (jm_get A w))"
  have ne: "?is \<noteq> []" using assms by auto
  have "list_all (\<lambda>(i, v). 0 \<le> v) (per_send a (bdiv a (int (length ?is))) 0 ?is)"
    using False ne by (intro per_send_of_amount) auto
  from set_positive_sum [OF assms(1) this] show ?thesis
    using False ne by (simp add: give_recipient_def Let_def sum_per_send)
qed (use assms in \<open>simp add: give_recipient_def\<close>)

lemma give_all_sum:
  assumes "res_ok m" "list_all (\<lambda>(w, a). 0 \<le> a \<and> jm_get A w \<noteq> None \<and> jm_get A w \<noteq> Some []) es"
  shows "res_ok (foldl (give_recipient A) m es) \<and>
    sum_list (map snd (foldl (give_recipient A) m es)) \<le> sum_list (map snd m) + sum_list (map snd es)"
  using assms
proof (induction es arbitrary: m)
  case (Cons wa es)
  obtain w a where wa: "wa = (w, a)" by fastforce
  have "sum_list (map snd (give_recipient A m (w, a))) \<le> sum_list (map snd m) + a"
    using Cons.prems by (intro give_sum) (auto simp: wa)
  with Cons.IH [of "give_recipient A m wa"] Cons.prems give_ok [of m A wa] show ?case
    by (auto simp: wa)
qed simp

text \<open>The deliveries of a recipient, by identifier.\<close>

definition ids_of :: "(wallet, SendRecord list) jmap \<Rightarrow> wallet \<Rightarrow> string list" where
  "ids_of A w = map s_id (the (jm_get A w))"

lemma give_other: "i \<notin> set (ids_of A w) \<Longrightarrow> get_or0 (give_recipient A m (w, a)) i = get_or0 m i"
  by (simp add: give_recipient_def Let_def ids_of_def set_positive_other)

lemma give_all_other:
  "i \<notin> (\<Union>w \<in> fst ` set es. set (ids_of A w)) \<Longrightarrow> get_or0 (foldl (give_recipient A) m es) i = get_or0 m i"
proof (induction es arbitrary: m)
  case (Cons wa es)
  then show ?case by (cases wa) (simp add: give_other)
qed simp

lemma give_own:
  assumes "0 \<le> a" "ids_of A w \<noteq> []" "distinct (ids_of A w)" "\<And>i. i \<in> set (ids_of A w) \<Longrightarrow> get_or0 m i = 0"
  shows "sum_list (map (get_or0 (give_recipient A m (w, a))) (ids_of A w)) = a"
proof (cases "a \<le> 0")
  case True
  have "sum_list (map (get_or0 m) (ids_of A w)) = sum_list (map (\<lambda>_. 0) (ids_of A w))"
    using assms(4) by (rule sum_list_cong)
  with True assms(1) show ?thesis by (simp add: give_recipient_def)
next
  case False
  let ?kvs = "per_send a (bdiv a (int (length (ids_of A w)))) 0 (ids_of A w)"
  have "list_all (\<lambda>(i, v). 0 \<le> v) ?kvs" by (rule per_send_of_amount [OF assms(1,2)])
  then have "sum_list (map (get_or0 (set_positive m ?kvs)) (map fst ?kvs)) = sum_list (map snd ?kvs)"
    using assms by (intro set_positive_total) (auto simp only: fst_per_send)
  with False assms show ?thesis
    by (simp add: give_recipient_def Let_def ids_of_def [symmetric] sum_per_send)
qed

lemma give_all_own:
  assumes "distinct (map fst es)" "(w, a) \<in> set es" "0 \<le> a" "ids_of A w \<noteq> []" "distinct (ids_of A w)"
    and "\<And>v. v \<in> set (map fst es) \<Longrightarrow> v \<noteq> w \<Longrightarrow> set (ids_of A v) \<inter> set (ids_of A w) = {}"
    and "\<And>i. i \<in> set (ids_of A w) \<Longrightarrow> get_or0 m i = 0"
  shows "sum_list (map (get_or0 (foldl (give_recipient A) m es)) (ids_of A w)) = a"
  using assms
proof (induction es arbitrary: m)
  case (Cons va es)
  obtain v b where va: "va = (v, b)" by fastforce
  show ?case
  proof (cases "v = w")
    case True
    then have ab: "b = a" using Cons.prems(1,2) by (auto simp: va rev_image_eqI)
    have "get_or0 (foldl (give_recipient A) (give_recipient A m (w, a)) es) i =
        get_or0 (give_recipient A m (w, a)) i" if "i \<in> set (ids_of A w)" for i
      using Cons.prems(1,6) that True by (intro give_all_other) (force simp: va)
    then have "sum_list (map (get_or0 (foldl (give_recipient A) (give_recipient A m (w, a)) es)) (ids_of A w)) =
        sum_list (map (get_or0 (give_recipient A m (w, a))) (ids_of A w))"
      by (rule sum_list_cong)
    with give_own [OF Cons.prems(3,4,5,7)] True ab show ?thesis by (simp add: va)
  next
    case False
    have "set (ids_of A v) \<inter> set (ids_of A w) = {}" using Cons.prems(6) [of v] False by (simp add: va)
    then have "get_or0 (give_recipient A m (v, b)) i = 0" if "i \<in> set (ids_of A w)" for i
      using Cons.prems(7) [OF that] that by (subst give_other) auto
    with Cons.IH [of "give_recipient A m va"] Cons.prems False show ?thesis by (auto simp: va)
  qed
qed simp

section \<open>The result\<close>

lemma jm_values_pairs: "list_all (\<lambda>(w, d). d = f w) D \<Longrightarrow> distinct (map fst D) \<Longrightarrow> w \<in> set (map fst D) \<Longrightarrow> (w, f w) \<in> set D"
  by (induction D) auto

lemma snd_of_fst: "list_all (\<lambda>(w, d). d = f w) D \<Longrightarrow> map snd D = map f (map fst D)"
  by (induction D) auto

lemma list_all_pairs:
  "list_all (\<lambda>(w, a). P a) es \<Longrightarrow> list_all Q (map fst es) \<Longrightarrow> list_all (\<lambda>(w, a). P a \<and> Q w) es"
  by (induction es) auto

lemma ids_disjoint:
  assumes "distinct (map s_id act)" "v \<noteq> w"
  shows "set (map s_id (filter (\<lambda>s. s_recipient s = v) act)) \<inter>
    set (map s_id (filter (\<lambda>s. s_recipient s = w) act)) = {}"
  using assms by (auto simp: distinct_map dest: inj_onD)

lemma deficit_nonneg: "0 \<le> deficit_of ss b basis w"
  by (simp add: deficit_of_def Let_def)

lemma amounts_cases:
  fixes act ss b basis
  defines "D \<equiv> fst (foldl (add_active (deficit_of ss b basis)) ([], []) act)"
    and "A \<equiv> snd (foldl (add_active (deficit_of ss b basis)) ([], []) act)"
  shows "calculateDeficitAmounts act ss b basis = [] \<or>
    0 < sum_list (map snd D) \<and> 0 < b \<and>
    calculateDeficitAmounts act ss b basis = foldl (give_recipient A) [] (distribute b (sum_list (map snd D)) 0 D)"
  unfolding D_def A_def calculateDeficitAmounts_def Let_def jm_values_def by auto

lemma active_facts:
  fixes act ss b basis
  defines "D \<equiv> fst (foldl (add_active (deficit_of ss b basis)) ([], []) act)"
    and "A \<equiv> snd (foldl (add_active (deficit_of ss b basis)) ([], []) act)"
  shows "distinct (map fst D)" "list_all (\<lambda>(w, d). 0 \<le> d) D"
    "list_all (\<lambda>w. jm_get A w \<noteq> None \<and> jm_get A w \<noteq> Some []) (map fst D)"
    "w \<in> s_recipient ` set act \<Longrightarrow> (w, deficit_of ss b basis w) \<in> set D"
    "w \<in> s_recipient ` set act \<Longrightarrow> ids_of A w = map s_id (filter (\<lambda>s. s_recipient s = w) act)"
    "set (map fst D) = s_recipient ` set act"
proof -
  note loop = active_loop [of "deficit_of ss b basis" act, folded D_def A_def]
  have "w \<in> set (map fst A) \<longleftrightarrow> w \<in> s_recipient ` set act" for w
    using loop by (metis jm_get_def map_of_eq_None_iff option.distinct(1) list.set_map)
  with loop show keys: "set (map fst D) = s_recipient ` set act" by auto
  show dist: "distinct (map fst D)" using loop by simp
  show "list_all (\<lambda>(w, d). 0 \<le> d) D" using loop deficit_nonneg by (auto simp: list_all_iff)
  show "list_all (\<lambda>w. jm_get A w \<noteq> None \<and> jm_get A w \<noteq> Some []) (map fst D)"
    unfolding list_all_iff keys using loop by (auto simp: filter_empty_conv)
  show "w \<in> s_recipient ` set act \<Longrightarrow> (w, deficit_of ss b basis w) \<in> set D"
    using loop dist keys by (intro jm_values_pairs) auto
  show "w \<in> s_recipient ` set act \<Longrightarrow> ids_of A w = map s_id (filter (\<lambda>s. s_recipient s = w) act)"
    using loop by (simp add: ids_of_def)
qed

text \<open>C21: a delivery round never hands out more than the keeper holds of the coin, whatever the
  records say (amounts sent before, negative or repeated commits, repeated identifiers), every
  amount it writes is positive, and no delivery gets two amounts.\<close>

theorem round_within_balance:
  "sum_list (jm_values (calculateDeficitAmounts act ss b basis)) \<le> max 0 b \<and>
   list_all (\<lambda>v. 0 < v) (jm_values (calculateDeficitAmounts act ss b basis)) \<and>
   distinct (jm_keys (calculateDeficitAmounts act ss b basis))"
proof (cases "calculateDeficitAmounts act ss b basis = []")
  case True
  then show ?thesis by (simp add: jm_values_def jm_keys_def)
next
  case False
  note 2 = amounts_cases [where act = act and ss = ss and b = b and basis = basis, simplified False simp_thms]
  let ?DA = "foldl (add_active (deficit_of ss b basis)) ([], []) act"
  let ?es = "distribute b (sum_list (map snd (fst ?DA))) 0 (fst ?DA)"
  note facts = active_facts [where act = act and ss = ss and b = b and basis = basis]
  have ne: "fst ?DA \<noteq> []" using 2(1) by auto
  have "list_all (\<lambda>(w, a). 0 \<le> a) ?es" using 2 facts by (intro distribute_all_nonneg) auto
  moreover have "list_all (\<lambda>w. jm_get (snd ?DA) w \<noteq> None \<and> jm_get (snd ?DA) w \<noteq> Some []) (map fst ?es)"
    using facts(3) by (simp only: fst_distribute)
  ultimately have "list_all (\<lambda>(w, a). 0 \<le> a \<and> jm_get (snd ?DA) w \<noteq> None \<and> jm_get (snd ?DA) w \<noteq> Some []) ?es"
    by (rule list_all_pairs)
  from give_all_sum [OF _ this, of "[]"] show ?thesis
    using 2 sum_distribute [OF ne, of b "sum_list (map snd (fst ?DA))" 0]
    by (auto simp: res_ok_def jm_values_def jm_keys_def list_all_iff)
qed

text \<open>C19: when the keeper holds enough for the recipients of the round, every one of them gets exactly
  its deficit, divided over its deliveries of the round without losing a raw unit, so after the
  round its deliveries add up to its target. The identifiers of the deliveries are distinct, as
  those of a generated round are.\<close>

theorem deficit_met:
  assumes ids: "distinct (map s_id act)" and s: "s \<in> set act" and b: "0 < b"
    and bets: "0 < sum_list (jm_values (bet_map ss))"
    and enough: "sum_list (map (deficit_of ss b basis) (remdups (map s_recipient act))) \<le> b"
  shows "sum_list (map (\<lambda>x. get_or0 (calculateDeficitAmounts act ss b basis) (s_id x))
      (filter (\<lambda>x. s_recipient x = s_recipient s) act)) = deficit_of ss b basis (s_recipient s)"
proof -
  let ?DA = "foldl (add_active (deficit_of ss b basis)) ([], []) act"
  let ?D = "fst ?DA" and ?A = "snd ?DA" and ?w = "s_recipient s"
  note facts = active_facts [where act = act and ss = ss and b = b and basis = basis]
  have w: "?w \<in> s_recipient ` set act" using s by simp
  have mem: "(?w, deficit_of ss b basis ?w) \<in> set ?D" by (rule facts(4) [OF w])
  have td: "sum_list (map snd ?D) = sum_list (map (deficit_of ss b basis) (remdups (map s_recipient act)))"
  proof -
    have "map snd ?D = map (deficit_of ss b basis) (map fst ?D)"
      using active_loop [of "deficit_of ss b basis" act] by (intro snd_of_fst) simp
    then have "sum_list (map snd ?D) = (\<Sum>w \<in> s_recipient ` set act. deficit_of ss b basis w)"
      using facts(1,6) by (simp only: sum_list_distinct_conv_sum_set)
    then show ?thesis by (simp add: sum_list_distinct_conv_sum_set)
  qed
  have nn: "list_all (\<lambda>(w, d). 0 \<le> d) ?D" by (rule facts(2))
  show ?thesis
  proof (cases "sum_list (map snd ?D) \<le> 0")
    case True
    have "deficit_of ss b basis ?w \<le> sum_list (map snd ?D)"
      using mem nn by (intro member_le_sum_list) (force simp: list_all_iff)+
    moreover have "calculateDeficitAmounts act ss b basis = []"
      using True by (simp add: calculateDeficitAmounts_def Let_def jm_values_def)
    ultimately show ?thesis
      using True deficit_nonneg [of ss b basis ?w] by (simp add: get_or0_def jm_get_def sum_list_triv)
  next
    case False
    have res: "calculateDeficitAmounts act ss b basis = foldl (give_recipient ?A) [] ?D"
    proof -
      have "distribute b (sum_list (map snd ?D)) 0 ?D = ?D"
        by (intro distribute_exact) (use enough in \<open>simp only: td\<close>, simp)
      moreover have "act \<noteq> []" "\<not> b \<le> 0" "\<not> sum_list (map snd (bet_map ss)) \<le> 0"
        using s b bets by (auto simp: jm_values_def)
      ultimately show ?thesis
        using False by (simp only: calculateDeficitAmounts_def Let_def jm_values_def if_False simp_thms)
    qed
    have disj: "set (ids_of ?A v) \<inter> set (ids_of ?A ?w) = {}" if "v \<in> set (map fst ?D)" "v \<noteq> ?w" for v
    proof -
      have "v \<in> s_recipient ` set act" using that(1) by (simp only: facts(6))
      then show ?thesis unfolding facts(5) [OF w] by (simp only: facts(5) ids_disjoint [OF ids that(2)])
    qed
    have "sum_list (map (get_or0 (foldl (give_recipient ?A) [] ?D)) (ids_of ?A ?w)) = deficit_of ss b basis ?w"
    proof (rule give_all_own [OF facts(1) mem deficit_nonneg _ _ disj])
      show "ids_of ?A ?w \<noteq> []" using s by (auto simp: facts(5) [OF w] filter_empty_conv)
      show "distinct (ids_of ?A ?w)" using ids by (auto simp: facts(5) [OF w] distinct_map inj_on_def)
    qed (auto simp: get_or0_def jm_get_def)
    then show ?thesis by (simp add: res facts(5) [OF w] comp_def)
  qed
qed

text \<open>A round of three wallets, one of them already served.\<close>

definition a_send :: "string \<Rightarrow> wallet \<Rightarrow> number \<Rightarrow> SendStatus \<Rightarrow> bigint option \<Rightarrow> SendRecord" where
  "a_send i w bet st a = \<lparr>s_id = i, s_mint = ''m'', s_recipient = w, s_betSol = bet, s_share = 0, s_sendN = 1,
     s_round = 1, s_amount = a, s_gross = a, s_status = st, s_topUp = False, s_signature = None, s_pending = None,
     s_limit = None, s_failedSigs = [], s_attempts = 0, s_error = None, s_hadAta = None, s_ataMismatch = None,
     s_updatedAt = 0\<rparr>"

definition small_round :: "SendRecord list" where
  "small_round = [a_send ''1'' ''a'' 1 SPending None, a_send ''2'' ''a'' 1 SPending None,
     a_send ''3'' ''b'' 2 SPending None, a_send ''4'' ''c'' 1 SCompleted (Some 100)]"

lemma small_round_amounts:
  "calculateDeficitAmounts (take 3 small_round) small_round 301 None = [(''1'', 50), (''2'', 50), (''3'', 200)]"
  by code_simp

lemma small_round_facts:
  "distinct (map s_id (take 3 small_round))" "a_send ''1'' ''a'' 1 SPending None \<in> set (take 3 small_round)"
  "0 < sum_list (jm_values (bet_map small_round))"
  "sum_list (map (deficit_of small_round 301 None) (remdups (map s_recipient (take 3 small_round)))) \<le> 301"
  "deficit_of small_round 301 None ''a'' = 100"
  by code_simp+

theorem deficit_met_witness:
  "sum_list (map (\<lambda>x. get_or0 (calculateDeficitAmounts (take 3 small_round) small_round 301 None) (s_id x))
      (filter (\<lambda>x. s_recipient x = ''a'') (take 3 small_round))) = 100"
  using deficit_met [OF small_round_facts(1,2) _ small_round_facts(3,4)] small_round_facts(5)
  by (simp add: a_send_def)

section \<open>Rounds and identifiers\<close>

lemma calculateSendN_mono: "a \<le> b \<Longrightarrow> calculateSendN a \<le> calculateSendN b"
proof -
  assume ab: "a \<le> b"
  let ?f = "\<lambda>x. js_floor (fadd 3 (fdiv (fmul (fsub x 5) 7) 15))"
  have m: "x \<le> y \<Longrightarrow> ?f x \<le> ?f y" for x y
    unfolding number_defs js_floor_def
    by (intro floor_mono fl_mono add_left_mono divide_right_mono mult_right_mono diff_right_mono) simp_all
  have top: "?f 20 = 10" by (simp add: number_defs js_floor_def)
  have "?f x \<le> 10" if "\<not> 20 \<le> x" for x using m [of x 20] that by (simp add: top)
  then show ?thesis using ab m [OF ab] by (auto simp: calculateSendN_def)
qed

lemma calculateSendN_range: "0 < bet \<Longrightarrow> 1 \<le> calculateSendN bet \<and> calculateSendN bet \<le> 10"
proof -
  assume b: "0 < bet"
  have "calculateSendN bet \<le> calculateSendN (max bet 20)" by (rule calculateSendN_mono) simp
  then have "calculateSendN bet \<le> 10" by (simp add: calculateSendN_def)
  with b show ?thesis by (auto simp: calculateSendN_def)
qed

definition rounds_ok :: "int \<Rightarrow> int \<Rightarrow> bool" where
  "rounds_ok totalRounds n \<longleftrightarrow> (let rs = assignRounds n totalRounds in
     length rs = nat n \<and> sorted_wrt (<) (0 # rs) \<and> last rs = totalRounds)"

lemma rounds_ok_10: "list_all (rounds_ok 10) [1..10]" by code_simp
text \<open>C27: a larger commit never gets fewer deliveries; every positive commit gets between one and ten,
  and in a round of ten (the default) they fall in as many different rounds, in order, the last of
  them in the last round.\<close>

theorem delivery_rounds:
  assumes "0 < bet" and "bet \<le> bet'"
  shows "calculateSendN bet \<le> calculateSendN bet' \<and> 1 \<le> calculateSendN bet \<and> calculateSendN bet \<le> 10 \<and>
    length (assignRounds (calculateSendN bet) 10) = nat (calculateSendN bet) \<and>
    sorted_wrt (<) (0 # assignRounds (calculateSendN bet) 10) \<and>
    last (assignRounds (calculateSendN bet) 10) = 10"
proof -
  have "calculateSendN bet \<in> set [1..10]" using calculateSendN_range [OF assms(1)] by simp
  then have "rounds_ok 10 (calculateSendN bet)" using rounds_ok_10 by (simp only: list_all_iff)
  then show ?thesis
    using calculateSendN_mono [OF assms(2)] calculateSendN_range [OF assms(1)]
    by (simp add: rounds_ok_def Let_def)
qed

theorem delivery_rounds_witness: "calculateSendN 5 = 3 \<and> last (assignRounds (calculateSendN 5) 10) = 10"
  using delivery_rounds [of 5 6] by (simp add: calculateSendN_def number_defs js_floor_def)

text \<open>With another number of rounds the rounding of the step can push the last delivery past the
  last round: 29 rounds and 7 deliveries end in round 30, since seven times the rounded step is
  just above 29 before the ceiling.\<close>

theorem last_round_overshoots: "last (assignRounds 7 29) = 30"
  by code_simp

lemma ids_of_records:
  "map s_id (records_for now tr snap tb mnt k r) =
    map (\<lambda>i. ''send_'' @ show_nat (k + int i)) [0..<length (records_for now tr snap tb mnt k r)]"
  by (simp add: records_for_def Let_def)

lemma ids_append:
  "map f [0..<m] @ map (\<lambda>i. f (m + i)) [0..<n] = map f [0..<m + n]"
  by (induction n) simp_all

lemma ids_of_token:
  "map s_id (records_of_token now tr snap tb mnt k rs) =
    map (\<lambda>i. ''send_'' @ show_nat (k + int i)) [0..<length (records_of_token now tr snap tb mnt k rs)]"
proof (induction rs arbitrary: k)
  case (Cons r rs)
  let ?a = "records_for now tr snap tb mnt k r"
  show ?case
    using Cons [of "k + int (length ?a)"] ids_of_records [of now tr snap tb mnt k r]
      ids_append [of "\<lambda>i. ''send_'' @ show_nat (k + int i)" "length ?a"]
    by (simp add: Let_def add.assoc)
qed simp

lemma ids_of_round:
  "map s_id (send_records now tr snap k ts) =
    map (\<lambda>i. ''send_'' @ show_nat (k + int i)) [0..<length (send_records now tr snap k ts)]"
proof (induction ts arbitrary: k)
  case (Cons t ts)
  obtain mnt rs where t: "t = (mnt, rs)" by fastforce
  let ?tb = "foldl fadd 0 (map snd rs)"
  let ?a = "if ?tb \<le> 0 then [] else records_of_token now tr snap ?tb mnt k rs"
  have "map s_id ?a = map (\<lambda>i. ''send_'' @ show_nat (k + int i)) [0..<length ?a]"
    using ids_of_token by simp
  then show ?case
    using Cons [of "k + int (length ?a)"]
      ids_append [of "\<lambda>i. ''send_'' @ show_nat (k + int i)" "length ?a"]
    by (simp add: t Let_def add.assoc del: if_split)
qed simp

lemma generated_ids: "distinct (map s_id (generateSendRecords now totalRounds snap tokens))"
proof -
  have "inj_on (\<lambda>i. ''send_'' @ show_nat (1 + int i)) A" for A
  proof (rule inj_onI)
    fix i j assume "''send_'' @ show_nat (1 + int i) = ''send_'' @ show_nat (1 + int j)"
    then have "bigint_of (show_nat (1 + int i)) = bigint_of (show_nat (1 + int j))" by simp
    then show "i = j" by (simp add: bigint_of_show_nat)
  qed
  then show ?thesis
    by (simp add: generateSendRecords_def ids_of_round distinct_map)
qed

lemma generated_fresh:
  "r \<in> set (generateSendRecords now totalRounds snap tokens) \<Longrightarrow>
    s_signature r = None \<and> s_pending r = None \<and> s_status r = SPending"
proof -
  have "r \<in> set (records_of_token now tr sn tb mnt k rs) \<Longrightarrow> s_signature r = None \<and> s_pending r = None \<and> s_status r = SPending"
    for tr sn tb mnt k rs
    by (induction rs arbitrary: k) (auto simp: records_for_def Let_def)
  then have "r \<in> set (send_records now tr sn k ts) \<Longrightarrow> s_signature r = None \<and> s_pending r = None \<and> s_status r = SPending"
    for tr sn k ts
    by (induction ts arbitrary: k) (auto simp: Let_def split: if_splits)
  then show "r \<in> set (generateSendRecords now totalRounds snap tokens) \<Longrightarrow> ?thesis"
    by (simp add: generateSendRecords_def)
qed

lemma generated_numbered:
  "i \<in> set (map s_id (generateSendRecords now totalRounds snap tokens)) \<Longrightarrow> \<exists>j\<ge>0. i = ''send_'' @ show_nat j"
proof -
  assume "i \<in> set (map s_id (generateSendRecords now totalRounds snap tokens))"
  then obtain k where "i = ''send_'' @ show_nat (1 + int k)"
    by (auto simp only: generateSendRecords_def ids_of_round set_map)
  then show ?thesis by (intro exI [of _ "1 + int k"]) simp
qed

end
