(* ===== verification/Json.thy ===== *)
theory Json
  imports Text
begin

text \<open>
  Values that come from outside as JSON and are read field by field, and the JavaScript idioms
  that read them. \<open>undefined\<close> is \<open>None\<close>; reading a field of a value that is not an
  object gives \<open>undefined\<close> except for \<open>null\<close>, where a plain access throws and an
  optional one (\<open>?.\<close>) does not.
\<close>

datatype json =
    JNull
  | JBool bool
  | JNum number
  | JStr string
  | JArr "json list"
  | JObj "(string \<times> json) list"

type_synonym js = "json option"

definition opt_prop :: "string \<Rightarrow> js \<Rightarrow> js" where
  "opt_prop k v = (case v of Some (JObj kvs) \<Rightarrow> map_of kvs k | _ \<Rightarrow> None)"

definition json_array :: "js \<Rightarrow> json list option" where
  "json_array v = (case v of Some (JArr xs) \<Rightarrow> Some xs | _ \<Rightarrow> None)"

definition json_number :: "js \<Rightarrow> number option" where
  "json_number v = (case v of Some (JNum n) \<Rightarrow> Some n | _ \<Rightarrow> None)"

definition json_string :: "js \<Rightarrow> string option" where
  "json_string v = (case v of Some (JStr s) \<Rightarrow> Some s | _ \<Rightarrow> None)"

text \<open>\<open>v && typeof v === "object"\<close>\<close>

definition truthy_object :: "js \<Rightarrow> bool" where
  "truthy_object v = (case v of Some (JArr _) \<Rightarrow> True | Some (JObj _) \<Rightarrow> True | _ \<Rightarrow> False)"

definition truthy :: "js \<Rightarrow> bool" where
  "truthy v = (case v of None \<Rightarrow> False | Some JNull \<Rightarrow> False | Some (JBool b) \<Rightarrow> b
     | Some (JNum n) \<Rightarrow> n \<noteq> 0 | Some (JStr s) \<Rightarrow> s \<noteq> [] | Some _ \<Rightarrow> True)"

text \<open>\<open>xs[i]\<close>: out of range is \<open>undefined\<close>.\<close>

definition at_index :: "'a list \<Rightarrow> nat \<Rightarrow> 'a option" where
  "at_index xs i = (if i < length xs then Some (xs ! i) else None)"

text \<open>\<open>xs.indexOf(x)\<close>, with \<open>None\<close> for \<open>-1\<close>.\<close>

fun index_of :: "'a \<Rightarrow> 'a list \<Rightarrow> nat option" where
  "index_of x [] = None"
| "index_of x (y # ys) = (if y = x then Some 0 else map_option Suc (index_of x ys))"

lemma index_of_Some: "index_of x xs = Some i \<Longrightarrow> i < length xs \<and> xs ! i = x \<and> x \<notin> set (take i xs)"
  by (induction xs arbitrary: i) (auto split: if_splits)

lemma index_of_None: "index_of x xs = None \<longleftrightarrow> x \<notin> set xs"
  by (induction xs) auto

lemma opt_prop_simps [simp]:
  "opt_prop k None = None" "opt_prop k (Some JNull) = None" "opt_prop k (Some (JBool b)) = None"
  "opt_prop k (Some (JNum n)) = None" "opt_prop k (Some (JStr s)) = None"
  "opt_prop k (Some (JArr xs)) = None" "opt_prop k (Some (JObj kvs)) = map_of kvs k"
  by (simp_all add: opt_prop_def)

lemma json_array_None: "json_array v = None \<longleftrightarrow> (\<forall>xs. v \<noteq> Some (JArr xs))"
  by (auto simp: json_array_def split: option.splits json.splits)

lemma json_number_Some [simp]: "json_number v = Some n \<longleftrightarrow> v = Some (JNum n)"
  by (auto simp: json_number_def split: option.splits json.splits)

lemma json_string_Some [simp]: "json_string v = Some s \<longleftrightarrow> v = Some (JStr s)"
  by (auto simp: json_string_def split: option.splits json.splits)

lemma json_array_Some [simp]: "json_array v = Some xs \<longleftrightarrow> v = Some (JArr xs)"
  by (auto simp: json_array_def split: option.splits json.splits)

section \<open>Lists in portions\<close>

text \<open>\<open>for (i = 0; i < xs.length; i += size) xs.slice(i, i + size)\<close>, for a positive size.\<close>

function portions :: "nat \<Rightarrow> 'a list \<Rightarrow> 'a list list" where
  "portions n xs = (if xs = [] then [] else take (max 1 n) xs # portions n (drop (max 1 n) xs))"
  by pat_completeness auto
termination by (relation "measure (\<lambda>(n, xs). length xs)") auto

declare portions.simps [simp del]

lemma portions_Nil [simp]: "portions n [] = []"
  by (simp add: portions.simps)

lemma concat_portions [simp]: "concat (portions n xs) = xs"
  by (induction n xs rule: portions.induct) (subst portions.simps, simp)

lemma portions_size: "c \<in> set (portions n xs) \<Longrightarrow> c \<noteq> [] \<and> length c \<le> max 1 n"
proof (induction n xs rule: portions.induct)
  case (1 n xs)
  show ?case
  proof (cases "xs = []")
    case False
    with "1.prems" have "c = take (max 1 n) xs \<or> c \<in> set (portions n (drop (max 1 n) xs))"
      by (subst (asm) portions.simps) auto
    with False 1 show ?thesis by auto
  qed (use "1.prems" in simp)
qed

text \<open>\<open>[...new Set(xs)]\<close>: the first occurrences, in order.\<close>

definition unique :: "'a list \<Rightarrow> 'a list" where
  "unique xs = rev (remdups (rev xs))"

lemma set_unique [simp]: "set (unique xs) = set xs"
  by (simp add: unique_def)

lemma distinct_unique [simp]: "distinct (unique xs)"
  by (simp add: unique_def)

lemma unique_distinct: "distinct xs \<Longrightarrow> unique xs = xs"
  by (simp add: unique_def distinct_remdups_id)

lemma unique_Nil [simp]: "unique [] = []"
  by (simp add: unique_def)

end
