(* ===== verification/Debits.thy ===== *)
theory Debits
  imports Json
begin

text \<open>
  What a transaction did to the keeper, read from the node's answer
  (\<open>solana/debits.ts\<close>): the lamports it lost and the tokens of each coin it gained. The
  answer is untyped JSON; a field of a \<open>null\<close> row is the one access that throws. The request
  itself (\<open>rpcBatch\<close>) is a parameter: for the portion and the attempt, the rows of the
  answer, or \<open>None\<close> when it threw.
\<close>

section \<open>One transaction\<close>

record KeeperEffect =
  ke_found :: bool
  ke_debitSol :: number
  ke_deltas :: "(mint, bigint) jmap"
  ke_failed :: bool

definition DEBIT_BATCH_SIZE :: nat where "DEBIT_BATCH_SIZE = 10"

text \<open>One row of \<open>preTokenBalances\<close> that counts: the keeper's own, with a coin and a
  decimal amount.\<close>

definition token_row :: "string \<Rightarrow> json \<Rightarrow> (mint \<times> bigint) option" where
  "token_row keeperKey row =
     (if opt_prop ''owner'' (Some row) \<noteq> Some (JStr keeperKey) then None
      else case json_string (opt_prop ''mint'' (Some row)) of
        None \<Rightarrow> None
      | Some mnt \<Rightarrow>
          (case json_string (opt_prop ''amount'' (opt_prop ''uiTokenAmount'' (Some row))) of
             None \<Rightarrow> None
           | Some amount \<Rightarrow> if all_digits amount then Some (mnt, bigint_of amount) else None))"

fun add_rows :: "string \<Rightarrow> bigint \<Rightarrow> json list \<Rightarrow> (mint, bigint) jmap \<Rightarrow> string + (mint, bigint) jmap" where
  "add_rows keeperKey sign [] deltas = Inr deltas"
| "add_rows keeperKey sign (row # rows) deltas =
     (if row = JNull then Inl ''TypeError''
      else add_rows keeperKey sign rows
        (case token_row keeperKey row of
           None \<Rightarrow> deltas
         | Some (mnt, amount) \<Rightarrow> jm_add mnt (sign * amount) deltas))"

definition add_balances :: "string \<Rightarrow> bigint \<Rightarrow> js \<Rightarrow> (mint, bigint) jmap \<Rightarrow> string + (mint, bigint) jmap" where
  "add_balances keeperKey sign rows deltas =
     (case json_array rows of None \<Rightarrow> Inr deltas | Some rs \<Rightarrow> add_rows keeperKey sign rs deltas)"

definition tokenDeltasFor :: "js \<Rightarrow> js \<Rightarrow> string \<Rightarrow> string + (mint, bigint) jmap" where
  "tokenDeltasFor pre post keeperKey =
     (case add_balances keeperKey (-1) pre [] of
        Inl e \<Rightarrow> Inl e
      | Inr deltas \<Rightarrow> add_balances keeperKey 1 post deltas)"

definition account_key :: "json \<Rightarrow> js" where
  "account_key key = (case key of JStr s \<Rightarrow> Some (JStr s) | _ \<Rightarrow> opt_prop ''pubkey'' (Some key))"

definition effectFrom :: "js \<Rightarrow> string \<Rightarrow> string + KeeperEffect option" where
  "effectFrom raw keeperKey =
     (if raw = Some JNull
      then Inr (Some \<lparr>ke_found = False, ke_debitSol = 0, ke_deltas = [], ke_failed = False\<rparr>)
      else if \<not> truthy_object raw then Inr None
      else let meta = opt_prop ''meta'' raw in
        case (json_array (opt_prop ''preBalances'' meta), json_array (opt_prop ''postBalances'' meta)) of
          (Some pres, Some posts) \<Rightarrow>
            (let accountKeys = json_array (opt_prop ''accountKeys'' (opt_prop ''message'' (opt_prop ''transaction'' raw)));
                 keys = (case accountKeys of Some ks \<Rightarrow> map account_key ks | None \<Rightarrow> []);
                 pos = (case index_of (Some (JStr keeperKey)) keys of Some i \<Rightarrow> i | None \<Rightarrow> 0)
             in case (json_number (at_index pres pos), json_number (at_index posts pos)) of
                  (Some before, Some after) \<Rightarrow>
                    (case tokenDeltasFor (opt_prop ''preTokenBalances'' meta) (opt_prop ''postTokenBalances'' meta) keeperKey of
                       Inl e \<Rightarrow> Inl e
                     | Inr deltas \<Rightarrow> Inr (Some
                         \<lparr>ke_found = True, ke_debitSol = fdiv (fsub before after) 1000000000, ke_deltas = deltas,
                          ke_failed = (opt_prop ''err'' meta \<noteq> Some JNull \<and> opt_prop ''err'' meta \<noteq> None)\<rparr>))
                | _ \<Rightarrow> Inr None)
        | _ \<Rightarrow> Inr None)"

section \<open>Many transactions\<close>

type_synonym rpc = "nat \<Rightarrow> nat \<Rightarrow> signature list \<Rightarrow> json list option"

definition rows_by_id :: "json list \<Rightarrow> (number, json) jmap" where
  "rows_by_id answers =
     foldl (\<lambda>byId answer. case (truthy_object (Some answer), json_number (opt_prop ''id'' (Some answer))) of
        (True, Some i) \<Rightarrow> jm_set i answer byId | _ \<Rightarrow> byId) [] answers"

definition effect_of_row :: "string \<Rightarrow> (number, json) jmap \<Rightarrow> nat \<Rightarrow> string + KeeperEffect option" where
  "effect_of_row keeperKey byId i =
     (case jm_get byId (of_nat i) of
        None \<Rightarrow> Inr None
      | Some answer \<Rightarrow> if truthy (opt_prop ''error'' (Some answer)) then Inr None
                      else effectFrom (opt_prop ''result'' (Some answer)) keeperKey)"

fun read_chunk ::
  "string \<Rightarrow> (number, json) jmap \<Rightarrow> nat \<Rightarrow> signature list \<Rightarrow> (signature, KeeperEffect) jmap \<Rightarrow>
    string + (signature, KeeperEffect) jmap" where
  "read_chunk keeperKey byId i [] result = Inr result"
| "read_chunk keeperKey byId i (s # ss) result =
     (case effect_of_row keeperKey byId i of
        Inl e \<Rightarrow> Inl e
      | Inr None \<Rightarrow> read_chunk keeperKey byId (i + 1) ss result
      | Inr (Some effect) \<Rightarrow> read_chunk keeperKey byId (i + 1) ss (jm_set s effect result))"

fun read_chunks ::
  "rpc \<Rightarrow> string \<Rightarrow> nat \<Rightarrow> signature list list \<Rightarrow> (signature, KeeperEffect) jmap \<Rightarrow>
    string + (signature, KeeperEffect) jmap" where
  "read_chunks rpcBatch keeperKey n [] result = Inr result"
| "read_chunks rpcBatch keeperKey n (chunk # chunks) result =
     (case (case rpcBatch n 0 chunk of Some answers \<Rightarrow> Some answers | None \<Rightarrow> rpcBatch n 1 chunk) of
        None \<Rightarrow> read_chunks rpcBatch keeperKey (n + 1) chunks result
      | Some answers \<Rightarrow>
          (case read_chunk keeperKey (rows_by_id answers) 0 chunk result of
             Inl e \<Rightarrow> Inl e
           | Inr result' \<Rightarrow> read_chunks rpcBatch keeperKey (n + 1) chunks result'))"

definition readKeeperEffects ::
  "rpc \<Rightarrow> nat option \<Rightarrow> signature list \<Rightarrow> string \<Rightarrow> string + (signature, KeeperEffect) jmap" where
  "readKeeperEffects rpcBatch batchSize sigs keeperKey =
     (let size = max 1 (case batchSize of Some n \<Rightarrow> n | None \<Rightarrow> DEBIT_BATCH_SIZE)
      in read_chunks rpcBatch keeperKey 0 (portions size (unique (filter (\<lambda>s. s \<noteq> []) sigs))) [])"

definition readKeeperDebits ::
  "rpc \<Rightarrow> nat option \<Rightarrow> signature list \<Rightarrow> string \<Rightarrow> string + (signature, number option) jmap" where
  "readKeeperDebits rpcBatch batchSize sigs keeperKey =
     (case readKeeperEffects rpcBatch batchSize sigs keeperKey of
        Inl e \<Rightarrow> Inl e
      | Inr effects \<Rightarrow> Inr (foldl (\<lambda>result s. jm_set s (map_option ke_debitSol (jm_get effects s)) result) []
          (unique (filter (\<lambda>s. s \<noteq> []) sigs))))"

section \<open>Token differences\<close>

definition rows_total :: "string \<Rightarrow> mint \<Rightarrow> json list \<Rightarrow> bigint" where
  "rows_total keeperKey mnt rows = sum_list (map (\<lambda>row. case token_row keeperKey row of
     Some (m, amount) \<Rightarrow> (if m = mnt then amount else 0) | None \<Rightarrow> 0) rows)"

definition rows_of :: "js \<Rightarrow> json list" where
  "rows_of v = (case json_array v of Some rs \<Rightarrow> rs | None \<Rightarrow> [])"

lemma add_balances_rows: "add_balances keeperKey sign v d = add_rows keeperKey sign (rows_of v) d"
  by (cases "json_array v") (simp_all add: add_balances_def rows_of_def del: json_array_Some)

lemma add_rows_total:
  "add_rows keeperKey sign rows d = Inr d' \<Longrightarrow>
    jm.value_at d' mnt = jm.value_at d mnt + sign * rows_total keeperKey mnt rows"
proof (induction rows arbitrary: d)
  case (Cons row rows)
  show ?case
  proof (cases "token_row keeperKey row")
    case None
    with Cons show ?thesis by (simp add: rows_total_def split: if_splits)
  next
    case (Some ma)
    then obtain m a where ma: "token_row keeperKey row = Some (m, a)" by (cases ma) auto
    with Cons show ?thesis
      by (auto simp: rows_total_def jm_value_add algebra_simps split: if_splits)
  qed
qed (simp add: rows_total_def)

lemma add_rows_throws: "isl (add_rows keeperKey sign rows d) \<longleftrightarrow> JNull \<in> set rows"
  by (induction rows arbitrary: d) auto


section \<open>Every signature is read from its own row\<close>

lemma read_chunk_get:
  assumes "read_chunk keeperKey byId i ss r = Inr r'" "distinct ss"
  shows "jm_get r' s = (case index_of s ss of
      None \<Rightarrow> jm_get r s
    | Some j \<Rightarrow> (case effect_of_row keeperKey byId (i + j) of Inr (Some ef) \<Rightarrow> Some ef | _ \<Rightarrow> jm_get r s))"
  using assms
proof (induction ss arbitrary: i r)
  case (Cons t ss)
  then obtain v where v: "effect_of_row keeperKey byId i = Inr v"
    by (cases "effect_of_row keeperKey byId i") auto
  let ?r = "case v of None \<Rightarrow> r | Some ef \<Rightarrow> jm_set t ef r"
  have "read_chunk keeperKey byId (i + 1) ss ?r = Inr r'"
    using Cons.prems(1) v by (simp split: option.splits)
  moreover have "index_of t ss = None" using Cons.prems(2) by (simp add: index_of_None)
  ultimately show ?case
    using Cons.IH [of "i + 1" ?r] Cons.prems(2) v
    by (auto simp: jm_get_set split: option.splits sum.splits)
qed simp

text \<open>The answer the code works with for one portion, the second attempt included.\<close>

definition portion_answer :: "rpc \<Rightarrow> nat \<Rightarrow> signature list \<Rightarrow> json list option" where
  "portion_answer rpcBatch n chunk =
     (case rpcBatch n 0 chunk of Some answers \<Rightarrow> Some answers | None \<Rightarrow> rpcBatch n 1 chunk)"

lemma read_chunks_other:
  assumes "read_chunks rpcBatch keeperKey n chunks r = Inr r'" "distinct (concat chunks)"
    "s \<notin> set (concat chunks)"
  shows "jm_get r' s = jm_get r s"
  using assms
proof (induction chunks arbitrary: n r)
  case (Cons c cs)
  show ?case
  proof (cases "portion_answer rpcBatch n c")
    case None
    with Cons show ?thesis by (auto simp: portion_answer_def)
  next
    case (Some answers)
    with Cons.prems(1) obtain q where q: "read_chunk keeperKey (rows_by_id answers) 0 c r = Inr q"
      "read_chunks rpcBatch keeperKey (n + 1) cs q = Inr r'"
      by (auto simp: portion_answer_def split: sum.splits)
    have "index_of s c = None" "distinct c" using Cons.prems(2,3) by (simp_all add: index_of_None)
    with read_chunk_get [OF q(1)] have "jm_get q s = jm_get r s" by simp
    with Cons.IH [OF q(2)] Cons.prems(2,3) show ?thesis by simp
  qed
qed simp

lemma read_chunks_get:
  assumes "read_chunks rpcBatch keeperKey n chunks r = Inr r'" "distinct (concat chunks)"
    "jm_get r' s = Some ef" "jm_get r s = None"
  shows "\<exists>k < length chunks. \<exists>answers. portion_answer rpcBatch (n + k) (chunks ! k) = Some answers \<and>
    (\<exists>j. index_of s (chunks ! k) = Some j \<and> effect_of_row keeperKey (rows_by_id answers) j = Inr (Some ef))"
  using assms
proof (induction chunks arbitrary: n r)
  case (Cons c cs)
  have later: ?case if "read_chunks rpcBatch keeperKey (n + 1) cs q = Inr r'" "jm_get q s = None" for q
    using Cons.IH [OF that(1)] Cons.prems(2,3) that(2) by fastforce
  show ?case
  proof (cases "portion_answer rpcBatch n c")
    case None
    then have "read_chunks rpcBatch keeperKey (n + 1) cs r = Inr r'"
      using Cons.prems(1) by (simp add: portion_answer_def)
    with Cons.prems(4) show ?thesis by (rule later [rotated])
  next
    case (Some answers)
    with Cons.prems(1) obtain q where q: "read_chunk keeperKey (rows_by_id answers) 0 c r = Inr q"
      "read_chunks rpcBatch keeperKey (n + 1) cs q = Inr r'"
      by (auto simp: portion_answer_def split: sum.splits)
    show ?thesis
    proof (cases "jm_get q s")
      case None
      with q(2) show ?thesis by (rule later)
    next
      case (Some ef')
      have c: "distinct c" using Cons.prems(2) by simp
      from read_chunk_get [OF q(1) c, of s] Some Cons.prems(4) obtain j
        where j: "index_of s c = Some j" "effect_of_row keeperKey (rows_by_id answers) j = Inr (Some ef')"
        by (auto split: option.splits sum.splits)
      then have "s \<notin> set (concat cs)"
        using Cons.prems(2) index_of_Some [OF j(1)] by (auto simp: disjoint_iff)
      with read_chunks_other [OF q(2)] Cons.prems(2,3) Some have "ef' = ef" by simp
      with j \<open>portion_answer rpcBatch n c = Some answers\<close> show ?thesis by (intro exI [of _ 0]) auto
    qed
  qed
qed simp

lemma rows_by_id_get:
  assumes "jm_get (rows_by_id answers) i = Some row"
  shows "row \<in> set answers \<and> opt_prop ''id'' (Some row) = Some (JNum i)"
proof -
  have "jm_get (rows_by_id answers) i = Some row \<Longrightarrow> row \<in> set answers \<and> opt_prop ''id'' (Some row) = Some (JNum i)"
    unfolding rows_by_id_def
    by (induction answers rule: rev_induct)
      (auto simp: jm_get_def [of "[]"] jm_get_set split: bool.splits option.splits if_splits)
  with assms show ?thesis by simp
qed

lemma effect_of_row_own:
  assumes "effect_of_row keeperKey (rows_by_id answers) j = Inr (Some ef)"
  shows "\<exists>row \<in> set answers. opt_prop ''id'' (Some row) = Some (JNum (of_nat j)) \<and>
    \<not> truthy (opt_prop ''error'' (Some row)) \<and> effectFrom (opt_prop ''result'' (Some row)) keeperKey = Inr (Some ef)"
  using assms rows_by_id_get [of answers "of_nat j"]
  by (fastforce simp: effect_of_row_def split: option.splits if_splits)

text \<open>C29: what is reported for a signature was read from the row that answers this very signature: the
  row of its own portion whose \<open>id\<close> is the place of the signature in it, without an error. A
  signature that was not asked for, or whose portion failed twice, has no entry.\<close>

theorem effect_from_own_row:
  assumes "readKeeperEffects rpcBatch batchSize sigs keeperKey = Inr effects" "jm_get effects s = Some ef"
  shows "s \<in> set sigs \<and> s \<noteq> [] \<and> (\<exists>n chunk answers j row. portion_answer rpcBatch n chunk = Some answers \<and>
    j < length chunk \<and> chunk ! j = s \<and> row \<in> set answers \<and> opt_prop ''id'' (Some row) = Some (JNum (of_nat j)) \<and>
    \<not> truthy (opt_prop ''error'' (Some row)) \<and> effectFrom (opt_prop ''result'' (Some row)) keeperKey = Inr (Some ef))"
proof -
  define ss where "ss = unique (filter (\<lambda>s. s \<noteq> []) sigs)"
  define cs where "cs = portions (max 1 (case batchSize of Some n \<Rightarrow> n | None \<Rightarrow> DEBIT_BATCH_SIZE)) ss"
  have ss: "concat cs = ss" "distinct (concat cs)" by (simp_all add: cs_def ss_def)
  have "read_chunks rpcBatch keeperKey 0 cs [] = Inr effects"
    using assms(1) by (simp add: readKeeperEffects_def cs_def ss_def)
  from read_chunks_get [OF this ss(2) assms(2)] obtain k answers j where
    k: "k < length cs" "portion_answer rpcBatch (0 + k) (cs ! k) = Some answers"
    and j: "index_of s (cs ! k) = Some j" "effect_of_row keeperKey (rows_by_id answers) j = Inr (Some ef)"
    by (auto simp: jm_get_def)
  from index_of_Some [OF j(1)] have s: "j < length (cs ! k)" "cs ! k ! j = s" by simp_all
  then have "s \<in> set (concat cs)" using k(1) by (metis UN_I nth_mem set_concat)
  then have "s \<in> set sigs" "s \<noteq> []" by (simp_all add: ss(1)) (simp_all add: ss_def)
  with k(2) s effect_of_row_own [OF j(2)] show ?thesis by blast
qed

text \<open>A one-row answer: the keeper paid 5000 lamports and gained 70 of the coin.\<close>

definition a_row :: json where
  "a_row = JObj [(''id'', JNum 0), (''result'', JObj [
     (''meta'', JObj [(''err'', JNull), (''preBalances'', JArr [JNum 9000]), (''postBalances'', JArr [JNum 4000]),
       (''preTokenBalances'', JArr [JObj [(''owner'', JStr ''k''), (''mint'', JStr ''m''),
          (''uiTokenAmount'', JObj [(''amount'', JStr ''30'')])]]),
       (''postTokenBalances'', JArr [JObj [(''owner'', JStr ''k''), (''mint'', JStr ''m''),
          (''uiTokenAmount'', JObj [(''amount'', JStr ''100'')])]])]),
     (''transaction'', JObj [(''message'', JObj [(''accountKeys'', JArr [JObj [(''pubkey'', JStr ''k'')]])])])])]"

definition a_effect :: KeeperEffect where
  "a_effect = \<lparr>ke_found = True, ke_debitSol = fdiv 5000 1000000000, ke_deltas = [(''m'', 70)], ke_failed = False\<rparr>"

theorem effect_from_own_row_witness:
  "readKeeperEffects (\<lambda>_ _ _. Some [a_row]) None [''s'', ''s''] ''k'' = Inr [(''s'', a_effect)] \<and>
   (\<exists>n chunk answers j row. portion_answer (\<lambda>_ _ _. Some [a_row]) n chunk = Some answers \<and>
     j < length chunk \<and> chunk ! j = ''s'' \<and> row \<in> set answers \<and>
     effectFrom (opt_prop ''result'' (Some row)) ''k'' = Inr (Some a_effect))"
proof -
  have "readKeeperEffects (\<lambda>_ _ _. Some [a_row]) None [''s'', ''s''] ''k'' = Inr [(''s'', a_effect)]"
    by code_simp
  with effect_from_own_row [OF this, of "''s''" a_effect] show ?thesis
    by (fastforce simp: jm_get_def)
qed

end
