(* ===== verification/Bought.thy ===== *)
theory Bought
  imports Lottery_State Batch_State Debits
begin

text \<open>
  How many tokens the purchases of a coin brought (\<open>orchestrator/purchaseTokens.ts\<close>,
  \<open>orchestrator/batchFile.ts\<close>). The batch files are read through a loader; the tokens of a
  signature are read once from the chain and kept in the round's state. The lemmas show that the
  number known is the sum over the signatures read, that it never goes down, and that it is the
  truth about the part that was read.
\<close>

section \<open>The signatures of a coin\<close>

type_synonym BatchLoader = "string \<Rightarrow> BatchState option"

text \<open>\<open>parsed\<close> is the content of the file, \<open>None\<close> where it is missing or not JSON.\<close>

definition readBatchFile :: "(string \<Rightarrow> BatchState option) \<Rightarrow> string option \<Rightarrow> BatchState option" where
  "readBatchFile parsed filePath =
     (case filePath of None \<Rightarrow> None | Some file \<Rightarrow> if file = [] then None else parsed file)"

definition truthy_string :: "string option \<Rightarrow> bool" where
  "truthy_string s = (case s of None \<Rightarrow> False | Some x \<Rightarrow> x \<noteq> [])"

lemma truthy_string_simps [simp]: "\<not> truthy_string None" "truthy_string (Some x) \<longleftrightarrow> x \<noteq> []"
  by (simp_all add: truthy_string_def)

definition batch_files :: "TokenBuyRecord \<Rightarrow> string list" where
  "batch_files t =
     (if 0 < length (t_files t) then t_files t
      else if truthy_string (t_file t) then [the (t_file t)] else [])"

definition batch_purchases :: "BatchLoader \<Rightarrow> string \<Rightarrow> PurchaseRecord list" where
  "batch_purchases load file = (case load file of Some b \<Rightarrow> purchases b | None \<Rightarrow> [])"

definition completedPurchaseSignatures :: "TokenBuyRecord \<Rightarrow> BatchLoader \<Rightarrow> signature list" where
  "completedPurchaseSignatures t load =
     unique (concat (map (\<lambda>file. concat (map (\<lambda>p.
       if p_status p = PCompleted \<and> truthy_string (p_signature p) then [the (p_signature p)] else [])
       (batch_purchases load file))) (batch_files t)))"

record PendingAttempt =
  pa_signature :: signature
  pa_updatedAt :: millis

definition purchase_attempts ::
  "(signature, PendingAttempt) jmap \<Rightarrow> PurchaseRecord \<Rightarrow> (signature, PendingAttempt) jmap" where
  "purchase_attempts attempts p =
     (let attempts = (if truthy_string (p_pendingSignature p) \<and> p_pendingSignature p \<noteq> p_signature p
            then jm_set (the (p_pendingSignature p))
              \<lparr>pa_signature = the (p_pendingSignature p), pa_updatedAt = p_updatedAt p\<rparr> attempts
            else attempts)
      in foldl (\<lambda>attempts a. if Some (sa_signature a) \<noteq> p_signature p
           then jm_set (sa_signature a) \<lparr>pa_signature = sa_signature a, pa_updatedAt = sa_at a\<rparr> attempts
           else attempts) attempts (p_sentAttempts p))"

definition pendingPurchaseAttempts :: "TokenBuyRecord \<Rightarrow> BatchLoader \<Rightarrow> PendingAttempt list" where
  "pendingPurchaseAttempts t load =
     jm_values (foldl (\<lambda>attempts file. foldl purchase_attempts attempts (batch_purchases load file))
       [] (batch_files t))"

definition pendingPurchaseSignatures :: "TokenBuyRecord \<Rightarrow> BatchLoader \<Rightarrow> signature list" where
  "pendingPurchaseSignatures t load = map pa_signature (pendingPurchaseAttempts t load)"

definition PENDING_FINAL_AFTER_MS :: millis where "PENDING_FINAL_AFTER_MS = 5 * 60000"

section \<open>What is known\<close>

record Bought =
  bt_known :: bigint
  bt_unread :: "signature list"
  bt_unreadPending :: "signature list"

definition tokensBought :: "LotteryState \<Rightarrow> mint \<Rightarrow> BatchLoader \<Rightarrow> Bought" where
  "tokensBought st mnt load =
     (case List.find (\<lambda>t. t_mint t = mnt) (tokenBuys st) of
        None \<Rightarrow> \<lparr>bt_known = 0, bt_unread = [], bt_unreadPending = []\<rparr>
      | Some t \<Rightarrow>
          let recorded = purchaseTokens st;
              completed = completedPurchaseSignatures t load;
              b1 = foldl (\<lambda>b s. case jm_get recorded s of
                      None \<Rightarrow> b\<lparr>bt_unread := bt_unread b @ [s]\<rparr>
                    | Some raw \<Rightarrow> b\<lparr>bt_known := bt_known b + raw\<rparr>)
                   \<lparr>bt_known = 0, bt_unread = [], bt_unreadPending = []\<rparr> completed
          in foldl (\<lambda>b s. if s \<in> set completed then b
                 else case jm_get recorded s of
                      None \<Rightarrow> b\<lparr>bt_unreadPending := bt_unreadPending b @ [s]\<rparr>
                    | Some raw \<Rightarrow> b\<lparr>bt_known := bt_known b + raw\<rparr>)
               b1 (pendingPurchaseSignatures t load))"

section \<open>Reading the rest\<close>

type_synonym wanting = "(signature, mint) jmap \<times> (signature, millis) jmap"

definition want_coin :: "millis \<Rightarrow> LotteryState \<Rightarrow> BatchLoader \<Rightarrow> wanting \<Rightarrow> mint \<Rightarrow> wanting" where
  "want_coin now st load W mnt =
     (let bought = tokensBought st mnt load;
          wanted = foldl (\<lambda>w s. jm_set s mnt w) (fst W) (bt_unread bought);
          attempts = (case List.find (\<lambda>t. t_mint t = mnt) (tokenBuys st) of
              Some t \<Rightarrow> pendingPurchaseAttempts t load | None \<Rightarrow> [])
      in foldl (\<lambda>(wanted, pending) s. (jm_set s mnt wanted,
             jm_set s (case List.find (\<lambda>a. pa_signature a = s) attempts of
                 Some a \<Rightarrow> pa_updatedAt a | None \<Rightarrow> now) pending))
           (wanted, snd W) (bt_unreadPending bought))"

definition tokens_of ::
  "millis \<Rightarrow> (signature, millis) jmap \<Rightarrow> (signature, KeeperEffect) jmap \<Rightarrow> signature \<Rightarrow> mint \<Rightarrow> bigint option" where
  "tokens_of now pending effects s mnt =
     (case jm_get effects s of
        None \<Rightarrow> None
      | Some ef \<Rightarrow>
          if \<not> ke_found ef
          then (case jm_get pending s of
                  Some signedBy \<Rightarrow> if now - signedBy > PENDING_FINAL_AFTER_MS then Some 0 else None
                | None \<Rightarrow> None)
          else let delta = get_or0 (ke_deltas ef) mnt in Some (if 0 < delta then delta else 0))"

definition found_tokens ::
  "millis \<Rightarrow> wanting \<Rightarrow> (signature, KeeperEffect) jmap \<Rightarrow> (signature, bigint) jmap" where
  "found_tokens now W effects =
     foldl (\<lambda>found (s, mnt). case tokens_of now (snd W) effects s mnt of
        Some raw \<Rightarrow> jm_set s raw found | None \<Rightarrow> found) [] (fst W)"

definition refreshPurchaseTokens ::
  "rpc \<Rightarrow> nat option \<Rightarrow> string \<Rightarrow> mint list \<Rightarrow> BatchLoader \<Rightarrow> millis \<Rightarrow> LotteryMgr \<Rightarrow> string + LotteryMgr" where
  "refreshPurchaseTokens rpcBatch batchSize keeper mints load now m =
     (let W = foldl (want_coin now (lstate m) load) ([], []) mints
      in if fst W = [] then Inr m
         else case readKeeperEffects rpcBatch batchSize (jm_keys (fst W)) keeper of
             Inl e \<Rightarrow> Inl e
           | Inr effects \<Rightarrow> Inr (recordPurchaseTokens (found_tokens now W effects) m))"

section \<open>Known is the sum of what was read\<close>

text \<open>In the map of the attempts every value carries its own key.\<close>

definition own_keys :: "(signature, PendingAttempt) jmap \<Rightarrow> bool" where
  "own_keys m \<longleftrightarrow> distinct (map fst m) \<and> list_all (\<lambda>(s, a). pa_signature a = s) m"

lemma own_keys_set: "own_keys m \<Longrightarrow> pa_signature a = s \<Longrightarrow> own_keys (jm_set s a m)"
proof -
  have "list_all (\<lambda>(s, a). pa_signature a = s) m \<Longrightarrow> pa_signature a = s \<Longrightarrow>
      list_all (\<lambda>(s, a). pa_signature a = s) (jm_set s a m)"
    by (induction m) (auto simp: jm_set_def)
  then show "own_keys m \<Longrightarrow> pa_signature a = s \<Longrightarrow> ?thesis" by (simp add: own_keys_def)
qed

lemma own_keys_foldl: "(\<And>m x. own_keys m \<Longrightarrow> own_keys (f m x)) \<Longrightarrow> own_keys m \<Longrightarrow> own_keys (foldl f m xs)"
  by (induction xs arbitrary: m) auto

lemma own_keys_purchase: "own_keys m \<Longrightarrow> own_keys (purchase_attempts m p)"
  by (simp add: purchase_attempts_def own_keys_set own_keys_foldl)

lemma own_keys_Nil: "own_keys []"
  by (simp add: own_keys_def)

lemma own_keys_values: "own_keys m \<Longrightarrow> map pa_signature (jm_values m) = map fst m"
  by (induction m) (auto simp: own_keys_def jm_values_def)

lemma pending_distinct: "distinct (pendingPurchaseSignatures t load)"
proof -
  have "own_keys (foldl (\<lambda>attempts file. foldl purchase_attempts attempts (batch_purchases load file))
      [] (batch_files t))" (is "own_keys ?m")
    by (intro own_keys_foldl own_keys_purchase own_keys_Nil)
  then have "distinct (map pa_signature (jm_values ?m))" 
    using own_keys_values [of ?m] by (simp only: own_keys_def)
  then show ?thesis by (simp only: pendingPurchaseSignatures_def pendingPurchaseAttempts_def)
qed

text \<open>Every signature that may have bought tokens of the coin, once.\<close>

definition coin_signatures :: "TokenBuyRecord \<Rightarrow> BatchLoader \<Rightarrow> signature list" where
  "coin_signatures t load = completedPurchaseSignatures t load @
     filter (\<lambda>s. s \<notin> set (completedPurchaseSignatures t load)) (pendingPurchaseSignatures t load)"

lemma coin_signatures_distinct: "distinct (coin_signatures t load)"
  by (auto simp: coin_signatures_def completedPurchaseSignatures_def pending_distinct)

definition known_of :: "(signature, bigint) jmap \<Rightarrow> signature list \<Rightarrow> bigint" where
  "known_of recorded ss = sum_list (map (jm.value_at recorded) ss)"

lemma read_loop:
  fixes recorded :: "(signature, bigint) jmap"
  shows "bt_known (foldl (\<lambda>b s. case jm_get recorded s of None \<Rightarrow> b\<lparr>bt_unread := bt_unread b @ [s]\<rparr>
      | Some raw \<Rightarrow> b\<lparr>bt_known := bt_known b + raw\<rparr>) b ss) = bt_known b + known_of recorded ss"
  by (induction ss arbitrary: b) (auto simp: known_of_def jm.value_at_def split: option.split)

lemma read_pending_loop:
  fixes recorded :: "(signature, bigint) jmap"
  shows "bt_known (foldl (\<lambda>b s. if s \<in> done_sigs then b else case jm_get recorded s of
        None \<Rightarrow> b\<lparr>bt_unreadPending := bt_unreadPending b @ [s]\<rparr>
      | Some raw \<Rightarrow> b\<lparr>bt_known := bt_known b + raw\<rparr>) b ss)
    = bt_known b + known_of recorded (filter (\<lambda>s. s \<notin> done_sigs) ss)"
  by (induction ss arbitrary: b) (auto simp: known_of_def jm.value_at_def split: option.split)

lemma known_sum:
  "List.find (\<lambda>t. t_mint t = mnt) (tokenBuys st) = Some t \<Longrightarrow>
    bt_known (tokensBought st mnt load) = known_of (purchaseTokens st) (coin_signatures t load)"
  by (simp add: tokensBought_def Let_def read_loop read_pending_loop coin_signatures_def known_of_def)

lemma known_none:
  "List.find (\<lambda>t. t_mint t = mnt) (tokenBuys st) = None \<Longrightarrow> bt_known (tokensBought st mnt load) = 0"
  by (simp add: tokensBought_def)

text \<open>What is left to read, in both loops.\<close>

lemma read_loop_unread:
  fixes recorded :: "(signature, bigint) jmap"
  defines "step \<equiv> \<lambda>b s. case jm_get recorded s of None \<Rightarrow> b\<lparr>bt_unread := bt_unread b @ [s]\<rparr>
      | Some raw \<Rightarrow> b\<lparr>bt_known := bt_known b + raw\<rparr>"
  shows "bt_unread (foldl step b ss) = bt_unread b @ filter (\<lambda>s. jm_get recorded s = None) ss"
    "bt_unreadPending (foldl step b ss) = bt_unreadPending b"
  unfolding step_def by (induction ss arbitrary: b) (auto split: option.split)

lemma read_pending_unread:
  fixes recorded :: "(signature, bigint) jmap" and done_sigs :: "signature set"
  defines "step \<equiv> \<lambda>b s. if s \<in> done_sigs then b else case jm_get recorded s of
        None \<Rightarrow> b\<lparr>bt_unreadPending := bt_unreadPending b @ [s]\<rparr>
      | Some raw \<Rightarrow> b\<lparr>bt_known := bt_known b + raw\<rparr>"
  shows "bt_unreadPending (foldl step b ss) =
      bt_unreadPending b @ filter (\<lambda>s. s \<notin> done_sigs \<and> jm_get recorded s = None) ss"
    "bt_unread (foldl step b ss) = bt_unread b"
  unfolding step_def by (induction ss arbitrary: b) (auto split: option.split)

lemma unread_of_coin:
  assumes "List.find (\<lambda>t. t_mint t = mnt) (tokenBuys st) = Some t"
  shows "set (bt_unread (tokensBought st mnt load)) =
      {s \<in> set (completedPurchaseSignatures t load). jm_get (purchaseTokens st) s = None}"
    "set (bt_unreadPending (tokensBought st mnt load)) =
      {s \<in> set (pendingPurchaseSignatures t load). s \<notin> set (completedPurchaseSignatures t load) \<and>
        jm_get (purchaseTokens st) s = None}"
  using assms
  by (auto simp: tokensBought_def Let_def read_loop_unread read_pending_unread)

lemma unread_of_no_coin:
  assumes "List.find (\<lambda>t. t_mint t = mnt) (tokenBuys st) = None"
  shows "bt_unread (tokensBought st mnt load) = []" "bt_unreadPending (tokensBought st mnt load) = []"
  using assms by (simp_all add: tokensBought_def)

section \<open>What is asked for\<close>

definition coin_of :: "LotteryState \<Rightarrow> BatchLoader \<Rightarrow> signature \<Rightarrow> mint \<Rightarrow> bool" where
  "coin_of st load s mnt \<longleftrightarrow>
     (\<exists>t. List.find (\<lambda>t. t_mint t = mnt) (tokenBuys st) = Some t \<and> s \<in> set (coin_signatures t load))"

definition signed_by :: "LotteryState \<Rightarrow> BatchLoader \<Rightarrow> signature \<Rightarrow> millis \<Rightarrow> bool" where
  "signed_by st load s at_time \<longleftrightarrow>
     (\<exists>t \<in> set (tokenBuys st). \<exists>a \<in> set (pendingPurchaseAttempts t load). pa_signature a = s \<and> pa_updatedAt a = at_time)"

definition want_ok :: "millis \<Rightarrow> LotteryState \<Rightarrow> BatchLoader \<Rightarrow> wanting \<Rightarrow> bool" where
  "want_ok now st load W \<longleftrightarrow>
     (\<forall>s mnt. jm_get (fst W) s = Some mnt \<longrightarrow> coin_of st load s mnt) \<and>
     (\<forall>s b. jm_get (snd W) s = Some b \<longrightarrow> b = now \<or> signed_by st load s b) \<and> distinct (map fst (fst W))"

lemma want_ok_unread:
  "want_ok now st load W \<Longrightarrow> (\<And>s. s \<in> set ss \<Longrightarrow> coin_of st load s mnt) \<Longrightarrow>
    want_ok now st load (foldl (\<lambda>w s. jm_set s mnt w) (fst W) ss, snd W)"
proof (induction ss arbitrary: W)
  case (Cons s ss)
  then have "want_ok now st load (jm_set s mnt (fst W), snd W)"
    by (auto simp: want_ok_def jm_get_set)
  from Cons.IH [OF this] Cons.prems(2) show ?case by simp
qed simp

lemma want_ok_pending:
  "want_ok now st load W \<Longrightarrow> (\<And>s. s \<in> set ss \<Longrightarrow> coin_of st load s mnt) \<Longrightarrow>
    (\<And>s. s \<in> set ss \<Longrightarrow> t_of s = now \<or> signed_by st load s (t_of s)) \<Longrightarrow>
    want_ok now st load (foldl (\<lambda>(wanted, pending) s. (jm_set s mnt wanted, jm_set s (t_of s) pending)) W ss)"
proof (induction ss arbitrary: W)
  case (Cons s ss)
  from Cons.prems(1) Cons.prems(2,3) [of s]
  have "want_ok now st load (jm_set s mnt (fst W), jm_set s (t_of s) (snd W))"
    by (auto simp: want_ok_def jm_get_set)
  then have "want_ok now st load (foldl (\<lambda>(wanted, pending) s. (jm_set s mnt wanted, jm_set s (t_of s) pending))
      (jm_set s mnt (fst W), jm_set s (t_of s) (snd W)) ss)"
    by (rule Cons.IH) (rule Cons.prems; simp)+
  then show ?case by (cases W) simp
qed simp

lemma find_in: "List.find p xs = Some x \<Longrightarrow> x \<in> set xs"
  by (rule find_SomeE)

lemma want_coin_ok: "want_ok now st load W \<Longrightarrow> want_ok now st load (want_coin now st load W mnt)"
proof (cases "List.find (\<lambda>t. t_mint t = mnt) (tokenBuys st)")
  case None
  then show "want_ok now st load W \<Longrightarrow> ?thesis" by (simp add: want_coin_def unread_of_no_coin)
next
  case (Some t)
  note u = unread_of_coin [OF Some, of load]
  have c: "coin_of st load s mnt" if "s \<in> set (bt_unread (tokensBought st mnt load)) \<union>
      set (bt_unreadPending (tokensBought st mnt load))" for s
    using that Some by (auto simp: u coin_of_def coin_signatures_def)
  show "want_ok now st load W \<Longrightarrow> ?thesis"
    unfolding want_coin_def Let_def
  proof (rule want_ok_pending)
    fix s
    assume "s \<in> set (bt_unreadPending (tokensBought st mnt load))"
    show "(case List.find (\<lambda>a. pa_signature a = s) (case List.find (\<lambda>t. t_mint t = mnt) (tokenBuys st) of
          None \<Rightarrow> [] | Some t \<Rightarrow> pendingPurchaseAttempts t load) of None \<Rightarrow> now | Some a \<Rightarrow> pa_updatedAt a) = now \<or>
        signed_by st load s (case List.find (\<lambda>a. pa_signature a = s) (case List.find (\<lambda>t. t_mint t = mnt) (tokenBuys st) of
          None \<Rightarrow> [] | Some t \<Rightarrow> pendingPurchaseAttempts t load) of None \<Rightarrow> now | Some a \<Rightarrow> pa_updatedAt a)"
    proof (cases "List.find (\<lambda>a. pa_signature a = s) (pendingPurchaseAttempts t load)")
      case (Some a)
      then show ?thesis using find_in [OF \<open>_ = Some t\<close>] find_SomeE [OF Some]
        by (auto simp: \<open>_ = Some t\<close> signed_by_def elim: find_SomeE)
    qed (simp add: Some)
  qed (use c want_ok_unread in auto)
qed

lemma want_all_ok: "want_ok now st load W \<Longrightarrow> want_ok now st load (foldl (want_coin now st load) W mints)"
  by (induction mints arbitrary: W) (simp_all add: want_coin_ok)

lemma found_loop:
  assumes "distinct (map fst ws)"
  shows "jm_get (foldl (\<lambda>found (s, mnt). case tokens_of now P effects s mnt of
      Some raw \<Rightarrow> jm_set s raw found | None \<Rightarrow> found) acc ws) s =
    (case (case jm_get ws s of Some mnt \<Rightarrow> tokens_of now P effects s mnt | None \<Rightarrow> None) of
       Some raw \<Rightarrow> Some raw | None \<Rightarrow> jm_get acc s)"
  using assms
proof (induction ws arbitrary: acc)
  case (Cons w ws)
  obtain k mnt where w: "w = (k, mnt)" by (cases w)
  have "jm_get ws k = None" using Cons.prems by (auto simp: w jm_get_def map_of_eq_None_iff)
  with Cons show ?case
    by (auto simp: w jm_get_set jm_get_def [of "_ # _"] jm_get_def [of ws, symmetric] split: option.splits)
qed (simp add: jm_get_def)

lemma found_tokens_get:
  "distinct (map fst (fst W)) \<Longrightarrow> jm_get (found_tokens now W effects) s =
    (case jm_get (fst W) s of Some mnt \<Rightarrow> tokens_of now (snd W) effects s mnt | None \<Rightarrow> None)"
  by (auto simp: found_tokens_def found_loop jm_get_def [of "[]"] split: option.split)

section \<open>The number known is true and only grows\<close>

definition honest :: "(signature \<Rightarrow> bigint) \<Rightarrow> (signature, bigint) jmap \<Rightarrow> bool" where
  "honest gain recorded \<longleftrightarrow> (\<forall>s r. jm_get recorded s = Some r \<longrightarrow> r = gain s)"

lemma honest_value: "honest gain recorded \<Longrightarrow> jm.value_at recorded s = (if jm_get recorded s = None then 0 else gain s)"
  by (auto simp: honest_def jm.value_at_def split: option.split)

lemma known_le: "honest gain recorded \<Longrightarrow> (\<And>s. 0 \<le> gain s) \<Longrightarrow> known_of recorded ss \<le> sum_list (map gain ss)"
  by (simp add: known_of_def honest_value sum_list_mono)

lemma known_all: "honest gain recorded \<Longrightarrow> (\<And>s. s \<in> set ss \<Longrightarrow> jm_get recorded s \<noteq> None) \<Longrightarrow>
    known_of recorded ss = sum_list (map gain ss)"
  unfolding known_of_def by (intro sum_list_cong) (metis honest_value)

lemma known_mono:
  assumes "honest gain old" "honest gain new" "\<And>s. 0 \<le> gain s" "\<And>s. jm_get old s \<noteq> None \<Longrightarrow> jm_get new s \<noteq> None"
  shows "known_of old ss \<le> known_of new ss"
  unfolding known_of_def
  by (intro sum_list_mono) (simp add: honest_value [OF assms(1)] honest_value [OF assms(2)] assms(3,4))

lemma record_token_lists [simp]: "tokenBuys (lstate (recordPurchaseTokens ts m)) = tokenBuys (lstate m)"
  by (simp add: recordPurchaseTokens_def Let_def)

lemma refresh_buys: "refreshPurchaseTokens rpcBatch bs keeper mints load now m = Inr m' \<Longrightarrow>
    tokenBuys (lstate m') = tokenBuys (lstate m)"
  by (auto simp: refreshPurchaseTokens_def Let_def split: if_splits sum.splits)

lemma refresh_kept: "refreshPurchaseTokens rpcBatch bs keeper mints load now m = Inr m' \<Longrightarrow>
    jm_get (purchaseTokens (lstate m)) s \<noteq> None \<Longrightarrow> jm_get (purchaseTokens (lstate m')) s \<noteq> None"
  by (auto simp: refreshPurchaseTokens_def Let_def record_known split: if_splits sum.splits)

definition node_true ::
  "(signature \<Rightarrow> bigint) \<Rightarrow> rpc \<Rightarrow> nat option \<Rightarrow> string \<Rightarrow> BatchLoader \<Rightarrow> millis \<Rightarrow> LotteryState \<Rightarrow> bool" where
  "node_true gain rpcBatch bs keeper load now st \<longleftrightarrow>
     (\<forall>sigs effects s ef mnt. readKeeperEffects rpcBatch bs sigs keeper = Inr effects \<longrightarrow>
        jm_get effects s = Some ef \<longrightarrow> coin_of st load s mnt \<longrightarrow>
        (if ke_found ef then gain s = max 0 (get_or0 (ke_deltas ef) mnt)
         else \<forall>b. signed_by st load s b \<and> b + PENDING_FINAL_AFTER_MS < now \<longrightarrow> gain s = 0))"

lemma refresh_honest:
  assumes run: "refreshPurchaseTokens rpcBatch bs keeper mints load now m = Inr m'"
    and honest: "honest gain (purchaseTokens (lstate m))"
    and node: "node_true gain rpcBatch bs keeper load now (lstate m)"
  shows "honest gain (purchaseTokens (lstate m'))"
proof -
  define W where "W = foldl (want_coin now (lstate m) load) ([], []) mints"
  have W: "want_ok now (lstate m) load W"
    unfolding W_def by (rule want_all_ok) (simp add: want_ok_def jm_get_def)
  show ?thesis
  proof (cases "fst W = []")
    case True
    then show ?thesis using run honest by (simp add: refreshPurchaseTokens_def W_def)
  next
    case False
    with run obtain effects where e: "readKeeperEffects rpcBatch bs (jm_keys (fst W)) keeper = Inr effects"
      and m': "m' = recordPurchaseTokens (found_tokens now W effects) m"
      by (auto simp: refreshPurchaseTokens_def W_def Let_def split: sum.splits)
    have new: "raw = gain s" if "jm_get (found_tokens now W effects) s = Some raw" for s raw
    proof -
      from that W obtain mnt where c: "coin_of (lstate m) load s mnt" "tokens_of now (snd W) effects s mnt = Some raw"
        by (auto simp: found_tokens_get want_ok_def split: option.splits)
      then obtain ef where ef: "jm_get effects s = Some ef"
        by (auto simp: tokens_of_def split: option.splits)
      from node e ef c(1) have law: "if ke_found ef then gain s = max 0 (get_or0 (ke_deltas ef) mnt)
         else \<forall>b. signed_by (lstate m) load s b \<and> b + PENDING_FINAL_AFTER_MS < now \<longrightarrow> gain s = 0"
        unfolding node_true_def by blast
      show ?thesis
      proof (cases "ke_found ef")
        case True
        with law c(2) ef show ?thesis by (auto simp: tokens_of_def Let_def)
      next
        case False
        with c(2) ef obtain b where b: "jm_get (snd W) s = Some b" "PENDING_FINAL_AFTER_MS < now - b" "raw = 0"
          by (auto simp: tokens_of_def split: option.splits if_splits)
        moreover from this W have "b = now \<or> signed_by (lstate m) load s b" by (auto simp: want_ok_def)
        ultimately have "signed_by (lstate m) load s b" by (auto simp: PENDING_FINAL_AFTER_MS_def)
        moreover have "b + PENDING_FINAL_AFTER_MS < now" using b(2) by simp
        ultimately show ?thesis using law False b(3) by auto
      qed
    qed
    then show ?thesis
      using honest
      by (auto simp: m' honest_def record_known jm_get_def [of "found_tokens now W effects"] split: option.splits)
  qed
qed

text \<open>C8: the tokens known to be bought are the truth about what was read. \<open>gain\<close> is what each
  signature really brought the keeper. As long as the node reports what it did, and a signature it does
  not have five minutes after signing brought nothing, a refresh keeps every recorded number equal to
  the gain; the number known for a coin never goes down, is at most what the signatures of the coin
  brought together, and equals it once none is left to read.\<close>

theorem bought_is_true:
  assumes run: "refreshPurchaseTokens rpcBatch bs keeper mints load now m = Inr m'"
    and honest: "honest gain (purchaseTokens (lstate m))"
    and gains: "\<And>s. 0 \<le> gain s"
    and node: "node_true gain rpcBatch bs keeper load now (lstate m)"
    and coin: "List.find (\<lambda>t. t_mint t = mnt) (tokenBuys (lstate m)) = Some t"
  shows "honest gain (purchaseTokens (lstate m')) \<and>
    bt_known (tokensBought (lstate m) mnt load) \<le> bt_known (tokensBought (lstate m') mnt load) \<and>
    bt_known (tokensBought (lstate m') mnt load) \<le> sum_list (map gain (coin_signatures t load)) \<and>
    (bt_unread (tokensBought (lstate m') mnt load) = [] \<and> bt_unreadPending (tokensBought (lstate m') mnt load) = [] \<longrightarrow>
      bt_known (tokensBought (lstate m') mnt load) = sum_list (map gain (coin_signatures t load)))"
proof -
  have coin': "List.find (\<lambda>t. t_mint t = mnt) (tokenBuys (lstate m')) = Some t"
    using coin by (simp add: refresh_buys [OF run])
  have h': "honest gain (purchaseTokens (lstate m'))" by (rule refresh_honest [OF run honest node])
  have "jm_get (purchaseTokens (lstate m')) s \<noteq> None"
    if "bt_unread (tokensBought (lstate m') mnt load) = []" "bt_unreadPending (tokensBought (lstate m') mnt load) = []"
      "s \<in> set (coin_signatures t load)" for s
    using that unread_of_coin [OF coin', of load] by (auto simp: coin_signatures_def)
  then show ?thesis
    using h' known_mono [OF honest h' gains refresh_kept [OF run]] known_le [OF h' gains] known_all [OF h']
    by (simp add: known_sum [OF coin] known_sum [OF coin'])
qed

text \<open>One coin with one batch file that holds one completed purchase.\<close>

definition a_batch :: BatchState where
  "a_batch = \<lparr>runId = ''r'', b_mint = ''m'', totalSolAmount = 1, purchaseCount = 1,
     b_config = \<lparr>windowMinutes = 20, retryBufferMinutes = 3, startSlippageBps = 300, maxSlippageBps = 1300,
       cfg_hadAtaAtStart = True\<rparr>,
     purchases = [\<lparr>p_id = ''p'', p_index = 1, p_scheduledAt = 0, p_solAmount = 1, p_plannedSolAmount = None,
       p_status = PCompleted, p_signature = Some ''s'', p_pendingSignature = None, p_pendingLimit = None,
       p_sentAttempts = [\<lparr>sa_signature = ''s'', sa_limit = 7, sa_at = 0\<rparr>], p_venue = Some Pumpfun, p_attempts = 1,
       p_lastSlippageBps = None, p_errorMessage = None, p_updatedAt = 0\<rparr>],
     b_summary = \<lparr>completedPurchases = 1, abandonedPurchases = 0, totalSolSpent = 1, bs_startedAt = 0,
       bs_finishedAt = None, retryStartedAt = None, retryEndsAt = None\<rparr>, b_metrics = []\<rparr>"

definition a_load :: BatchLoader where
  "a_load = readBatchFile (\<lambda>f. if f = ''b1'' then Some a_batch else None) \<circ> Some"

definition a_coin :: TokenBuyRecord where
  "a_coin = \<lparr>t_mint = ''m'', t_target = None, t_adjusted = 1, t_status = TCompleted, t_runId = Some ''r'',
     t_file = Some ''b1'', t_files = [''b1''], t_spentSol = None, t_attempts = Some 1, t_error = None,
     t_recipients = [\<lparr>rs_wallet = ''a'', rs_stakeLamports = ''3'', rs_burnBps = 5000, rs_burnWeight = None\<rparr>,
                     \<lparr>rs_wallet = ''b'', rs_stakeLamports = ''4'', rs_burnBps = 0, rs_burnWeight = Some ''99999''\<rparr>],
     t_burnedRaw = None, t_burnBlocked = None, t_supplyAtStart = None, t_supplyAtEnd = None, t_decimals = None,
     t_updatedAt = 0\<rparr>"

definition coin_round :: LotteryMgr where
  "coin_round = l_create (empty_round\<lparr>tokenBuys := [a_coin]\<rparr>) ''round.json''"

definition coin_read :: LotteryMgr where
  "coin_read = l_create (empty_round\<lparr>tokenBuys := [a_coin], purchaseTokens := [(''sig'', 5), (''s'', 70)]\<rparr>) ''round.json''"

lemma a_refresh:
  "refreshPurchaseTokens (\<lambda>_ _ _. Some [a_row]) None ''k'' [''m'', ''x''] a_load 9 coin_round = Inr coin_read"
  by code_simp

lemma a_coin_signatures: "coin_signatures a_coin a_load = [''s'']"
  by code_simp

lemma a_effectFrom: "effectFrom (opt_prop ''result'' (Some a_row)) ''k'' = Inr (Some a_effect)"
  by code_simp

lemma a_node_true:
  "node_true (\<lambda>s. if s = ''s'' then 70 else 5) (\<lambda>_ _ _. Some [a_row]) None ''k'' a_load 9 (lstate coin_round)"
  unfolding node_true_def
proof (intro allI impI)
  fix sigs effects s ef mnt
  assume e: "readKeeperEffects (\<lambda>_ _ _. Some [a_row]) None sigs ''k'' = Inr effects" "jm_get effects s = Some ef"
    and "coin_of (lstate coin_round) a_load s mnt"
  then have "mnt = ''m''" "s = ''s''"
    by (auto simp: coin_of_def coin_round_def l_create_def a_coin_signatures a_coin_def [THEN arg_cong, of t_mint]
        split: if_splits)
  moreover have "ef = a_effect"
    using effect_from_own_row [OF e] a_effectFrom by (auto simp: portion_answer_def)
  ultimately show "if ke_found ef then (if s = ''s'' then 70 else 5) = max 0 (get_or0 (ke_deltas ef) mnt)
    else \<forall>b. signed_by (lstate coin_round) a_load s b \<and> b + PENDING_FINAL_AFTER_MS < 9 \<longrightarrow> (if s = ''s'' then 70 else 5) = 0"
    by (simp add: a_effect_def get_or0_def jm_get_def)
qed

theorem bought_is_true_witness:
  "bt_known (tokensBought (lstate coin_read) ''m'' a_load) = 70 \<and>
   bt_known (tokensBought (lstate coin_read) ''m'' a_load) \<le> sum_list (map (\<lambda>s. if s = ''s'' then 70 else 5) [''s''])"
proof -
  have "honest (\<lambda>s. if s = ''s'' then 70 else 5) (purchaseTokens (lstate coin_round))"
    by (auto simp: honest_def coin_round_def l_create_def empty_round_def jm_get_def split: if_splits)
  moreover have "List.find (\<lambda>t. t_mint t = ''m'') (tokenBuys (lstate coin_round)) = Some a_coin" by code_simp
  moreover have "bt_known (tokensBought (lstate coin_read) ''m'' a_load) = 70" by code_simp
  ultimately show ?thesis
    using bought_is_true [OF a_refresh _ _ a_node_true, of "''m''" a_coin] by (simp add: a_coin_signatures)
qed

end
