(* ===== verification/Priority.thy ===== *)
theory Priority
  imports Json "HOL-Library.List_Lexorder" "HOL-Library.Char_ord"
begin

text \<open>
  What a transaction pays for its place in a block (\<open>solana/priorityFee.ts\<close>). The settings of
  the process are a function from names to values; the answers of the node and of the provider are
  parameters; the two caches are passed along. The property bounds the price from both
  sides.
\<close>

section \<open>Settings\<close>

type_synonym settings = "string \<Rightarrow> string option"

definition is_ws :: "char \<Rightarrow> bool" where
  "is_ws c \<longleftrightarrow> (of_char c :: int) \<in> {9, 10, 11, 12, 13, 32, 160}"

text \<open>\<open>parseInt(s, 10)\<close>: blanks, a sign, the digits in front; \<open>None\<close> is \<open>NaN\<close>.\<close>

definition parse_int :: "string \<Rightarrow> int option" where
  "parse_int s =
     (let t = dropWhile is_ws s;
          neg = (case t of c # _ \<Rightarrow> c = CHR ''-'' | [] \<Rightarrow> False);
          u = (case t of c # r \<Rightarrow> if c = CHR ''-'' \<or> c = CHR ''+'' then r else t | [] \<Rightarrow> []);
          ds = takeWhile is_digit u
      in if ds = [] then None else Some (if neg then - bigint_of ds else bigint_of ds))"

definition envInt :: "settings \<Rightarrow> string \<Rightarrow> number \<Rightarrow> number" where
  "envInt env name fallback =
     (case parse_int (case env name of Some s \<Rightarrow> s | None \<Rightarrow> []) of
        Some raw \<Rightarrow> if 0 < to_number raw then to_number raw else fallback
      | None \<Rightarrow> fallback)"

datatype FeePath = PathPumpfun | PathPumpswap | PathDex | PathDelivery | PathRefund

definition MAX_PRIORITY_LAMPORTS :: "settings \<Rightarrow> FeePath \<Rightarrow> number" where
  "MAX_PRIORITY_LAMPORTS env path =
     (case path of
        PathPumpfun \<Rightarrow> envInt env ''PRIORITY_MAX_LAMPORTS_BUY'' 100000
      | PathPumpswap \<Rightarrow> envInt env ''PRIORITY_MAX_LAMPORTS_BUY'' 100000
      | PathDex \<Rightarrow> envInt env ''PRIORITY_MAX_LAMPORTS_BUY'' 100000
      | PathDelivery \<Rightarrow> envInt env ''PRIORITY_MAX_LAMPORTS_DELIVERY'' 5000
      | PathRefund \<Rightarrow> envInt env ''PRIORITY_MAX_LAMPORTS_DELIVERY'' 5000)"

definition deliveryComputeUnits :: "number \<Rightarrow> number" where
  "deliveryComputeUnits recipients = min 200000 (fadd 15000 (fmul 30000 (max 1 recipients)))"

definition refundComputeUnits :: "number \<Rightarrow> number" where
  "refundComputeUnits transfers = min 20000 (fadd 1000 (fmul 400 (max 1 transfers)))"

definition MIN_PRICE_MICRO_LAMPORTS :: number where "MIN_PRICE_MICRO_LAMPORTS = 1000"

definition BUY_MIN_PRICE_MICRO_LAMPORTS :: "settings \<Rightarrow> number" where
  "BUY_MIN_PRICE_MICRO_LAMPORTS env = envInt env ''PRIORITY_MIN_MICRO_LAMPORTS_BUY'' 10000"

definition isBuyPath :: "FeePath \<Rightarrow> bool" where
  "isBuyPath path \<longleftrightarrow> path = PathPumpfun \<or> path = PathPumpswap \<or> path = PathDex"

section \<open>Estimates\<close>

definition ESTIMATE_TTL_MS :: int where "ESTIMATE_TTL_MS = 60000"

type_synonym price_cache = "(string, int \<times> number option) jmap"

text \<open>The accounts sorted and joined by commas.\<close>

definition join :: "string \<Rightarrow> string list \<Rightarrow> string" where
  "join sep xs = (case xs of [] \<Rightarrow> [] | x # r \<Rightarrow> x @ concat (map (\<lambda>y. sep @ y) r))"

definition accounts_key :: "string list \<Rightarrow> string" where
  "accounts_key accounts = join '','' (sort accounts)"

definition cached_price :: "string list \<Rightarrow> int \<Rightarrow> number option \<Rightarrow> price_cache \<Rightarrow> number option \<times> price_cache" where
  "cached_price accounts now fresh cache =
     (let key = accounts_key accounts in
      case jm_get cache key of
        Some (at_time, value) \<Rightarrow>
          if now - at_time < ESTIMATE_TTL_MS then (value, cache) else (fresh, jm_set key (now, fresh) cache)
      | None \<Rightarrow> (fresh, jm_set key (now, fresh) cache))"

text \<open>The median of the positive samples; \<open>None\<close> among them is a value that is no finite number, and
  \<open>None\<close> for the list is a request that threw.\<close>

definition median_price :: "number option list \<Rightarrow> number option" where
  "median_price samples =
     (let fees = sort (filter (\<lambda>fee. 0 < fee) (List.map_filter id samples));
          middle = length fees div 2
      in if fees = [] then None
         else Some (to_number (js_round (if even (length fees) then fdiv (fadd (fees ! (middle - 1)) (fees ! middle)) 2
                                         else fees ! middle))))"

definition estimatePrice ::
  "number option list option \<Rightarrow> string list \<Rightarrow> int \<Rightarrow> price_cache \<Rightarrow> number option \<times> price_cache" where
  "estimatePrice answer accounts now cache =
     cached_price accounts now (case answer of Some samples \<Rightarrow> median_price samples | None \<Rightarrow> None) cache"

text \<open>\<open>answer\<close> is the estimate the provider sent, where it sent a finite number.\<close>

definition recommendedPrice :: "number option \<Rightarrow> string list \<Rightarrow> int \<Rightarrow> price_cache \<Rightarrow> number option \<times> price_cache" where
  "recommendedPrice answer accounts now cache =
     cached_price accounts now
       (case answer of Some estimate \<Rightarrow> if 0 < estimate then Some (to_number (js_round estimate)) else None | None \<Rightarrow> None)
       cache"

definition buyPriceEstimate :: "number option \<Rightarrow> number option \<Rightarrow> number option" where
  "buyPriceEstimate network recommended =
     (let values = filter (\<lambda>v. 0 < v) (List.map_filter id [network, recommended])
      in if 0 < length values then Some (Max (set values)) else None)"

section \<open>The price\<close>

definition MAX_SHARE_OF_PURCHASE :: number where "MAX_SHARE_OF_PURCHASE = fl (1 / 100)"

definition capLamports :: "settings \<Rightarrow> FeePath \<Rightarrow> number option \<Rightarrow> number" where
  "capLamports env path solAmount =
     (let base = MAX_PRIORITY_LAMPORTS env path in
      case solAmount of
        None \<Rightarrow> base
      | Some s \<Rightarrow> if s \<le> 0 then base
          else min base (to_number (js_floor (fmul (fmul s MAX_SHARE_OF_PURCHASE) 1000000000))))"

definition price_floor :: "settings \<Rightarrow> FeePath \<Rightarrow> number" where
  "price_floor env path = (if isBuyPath path then BUY_MIN_PRICE_MICRO_LAMPORTS env else MIN_PRICE_MICRO_LAMPORTS)"

definition price_ceiling :: "settings \<Rightarrow> FeePath \<Rightarrow> number \<Rightarrow> number option \<Rightarrow> number" where
  "price_ceiling env path units solAmount =
     to_number (js_floor (fdiv (fmul (capLamports env path solAmount) 1000000) (max 1 units)))"

definition priceFor :: "settings \<Rightarrow> FeePath \<Rightarrow> number \<Rightarrow> number option \<Rightarrow> number option \<Rightarrow> number" where
  "priceFor env path units estimate solAmount =
     (let ceiling = price_ceiling env path units solAmount;
          floor = price_floor env path;
          base = (case estimate of Some e \<Rightarrow> if 0 < e then max e floor else floor | None \<Rightarrow> floor)
      in max floor (min base (max 1 ceiling)))"

definition priorityLamports :: "number \<Rightarrow> number \<Rightarrow> number" where
  "priorityLamports units microLamportsPerUnit = to_number (js_ceil (fdiv (fmul units microLamportsPerUnit) 1000000))"

text \<open>Instructions: only what the code inspects of one, its program and the first byte of its data.\<close>

datatype budget_kind = BudgetLimit | BudgetPrice

record instruction =
  ix_program :: string
  ix_data :: "int list"

definition COMPUTE_BUDGET :: string where "COMPUTE_BUDGET = ''ComputeBudget111111111111111111111111111111''"

definition hasBudgetInstruction :: "instruction list \<Rightarrow> budget_kind \<Rightarrow> bool" where
  "hasBudgetInstruction instructions kind =
     (let marker = (if kind = BudgetLimit then 2 else 3) in
      list_ex (\<lambda>i. ix_program i = COMPUTE_BUDGET \<and> 0 < length (ix_data i) \<and> ix_data i ! 0 = marker) instructions)"

text \<open>The two instructions as the pair of what they set.\<close>

definition budgetInstructions ::
  "settings \<Rightarrow> FeePath \<Rightarrow> number \<Rightarrow> number option \<Rightarrow> number option \<Rightarrow> number option \<Rightarrow> number \<times> number" where
  "budgetInstructions env path units network recommended solAmount =
     (let estimate = (if isBuyPath path then buyPriceEstimate network recommended else network)
      in (units, priceFor env path units estimate solAmount))"

section \<open>Bounds\<close>

lemma envInt_pos: "0 < fallback \<Longrightarrow> 0 < envInt env name fallback"
  by (simp add: envInt_def split: option.split)

lemma price_floor_pos: "0 < price_floor env path"
  by (simp add: price_floor_def BUY_MIN_PRICE_MICRO_LAMPORTS_def MIN_PRICE_MICRO_LAMPORTS_def envInt_pos)

lemma capLamports_le: "capLamports env path sol \<le> MAX_PRIORITY_LAMPORTS env path"
  by (simp add: capLamports_def Let_def split: option.split)



text \<open>A cached price is the one stored within the last minute.\<close>

lemma cached_price_hit:
  "jm_get cache (accounts_key accounts) = Some (t, v) \<Longrightarrow> now - t < ESTIMATE_TTL_MS \<Longrightarrow>
    cached_price accounts now fresh cache = (v, cache)"
  by (simp add: cached_price_def)

lemma cached_price_get:
  "jm_get (snd (cached_price accounts now fresh cache)) (accounts_key accounts) \<noteq> None"
  by (auto simp: cached_price_def Let_def jm_get_set split: option.split)

end
