(* ===== verification/Round_World.thy ===== *)
theory Round_World
  imports Bought Shares Outcome Priority
begin

text \<open>
  The world the delivery side of a round acts in: its state manager, the number of answers received
  from outside, and two records of what was signed, the burns and the deliveries. What the code
  cannot decide (the node, the signer, the clock, the token library) are functions of the number of
  answers received, so every call gets a fresh one. Sending a signed transaction
  (\<open>solana/transaction.ts\<close>) is modelled down to the two requests it makes.
\<close>

section \<open>The outside\<close>

text \<open>\<open>inspectMint\<close>: what makes the coin undeliverable, whether it has a transfer hook, and its
  transfer fee by epoch and amount (\<open>calculateEpochFee\<close> of the token library).\<close>

record mint_report =
  mr_blockers :: "string list"
  mr_hook :: bool
  mr_fee :: "(bigint \<Rightarrow> bigint \<Rightarrow> bigint) option"

text \<open>\<open>None\<close> and \<open>Inl\<close> stand for a request that threw. \<open>re_confirm\<close> gives the error text of a
  transaction that was confirmed as failed.\<close>

record round_env =
  re_height :: "nat \<Rightarrow> int option"
  re_status :: "nat \<Rightarrow> signature \<Rightarrow> status_answer"
  re_program :: "nat \<Rightarrow> mint \<Rightarrow> string option"
  re_decimals :: "nat \<Rightarrow> mint \<Rightarrow> int option"
  re_balance :: "nat \<Rightarrow> mint \<Rightarrow> bigint option"
  re_sign :: "nat \<Rightarrow> js_error + (signature \<times> int option)"
  re_raw :: "nat \<Rightarrow> signature \<Rightarrow> js_error + signature"
  re_confirm :: "nat \<Rightarrow> signature \<Rightarrow> js_error + string option"
  re_clock :: "nat \<Rightarrow> millis"
  re_account :: "nat \<Rightarrow> mint \<Rightarrow> wallet \<Rightarrow> bool option"
  re_inspect :: "nat \<Rightarrow> mint \<Rightarrow> js_error + mint_report"
  re_epoch :: "nat \<Rightarrow> js_error + bigint"
  re_hook :: "nat \<Rightarrow> wallet \<Rightarrow> js_error option"
  re_price :: "nat \<Rightarrow> number option"
  re_rpc :: "nat \<Rightarrow> rpc"
  re_keeper :: string

section \<open>The world\<close>

text \<open>A burn that was signed: coin, signature, blockhash limit, raw amount. A delivery that was
  signed: signature, limit, and the amount for each record in it.\<close>

type_synonym signed_burn = "mint \<times> signature \<times> int option \<times> bigint"
type_synonym signed_batch = "signature \<times> int option \<times> (string \<times> bigint) list"

record rworld =
  rw_mgr :: LotteryMgr
  rw_step :: nat
  rw_signed :: "signed_burn list"
  rw_sent :: "signed_batch list"

definition r_tick :: "rworld \<Rightarrow> rworld" where
  "r_tick w = w\<lparr>rw_step := rw_step w + 1\<rparr>"

definition r_mut :: "round_env \<Rightarrow> (millis \<Rightarrow> LotteryMgr \<Rightarrow> string + LotteryMgr) \<Rightarrow> rworld \<Rightarrow> rworld" where
  "r_mut env f w = w\<lparr>rw_mgr := sure (rw_mgr w) (f (re_clock env (rw_step w)) (rw_mgr w))\<rparr>"

definition r_metric :: "string \<Rightarrow> bigint \<Rightarrow> rworld \<Rightarrow> rworld" where
  "r_metric k n w = w\<lparr>rw_mgr := l_incrementMetric k n (rw_mgr w)\<rparr>"

definition ask_signature :: "round_env \<Rightarrow> signature \<Rightarrow> int option \<Rightarrow> rworld \<Rightarrow> SignatureOutcome \<times> rworld" where
  "ask_signature env sig limit w =
     (signatureOutcome limit (re_height env (rw_step w)) (re_status env (rw_step w) sig), r_tick w)"

lemma tick_simps [simp]:
  "rw_mgr (r_tick w) = rw_mgr w" "rw_signed (r_tick w) = rw_signed w" "rw_step (r_tick w) = rw_step w + 1"
  "rw_sent (r_tick w) = rw_sent w"
  by (simp_all add: r_tick_def)

lemma mut_simps [simp]:
  "rw_mgr (r_mut env f w) = sure (rw_mgr w) (f (re_clock env (rw_step w)) (rw_mgr w))"
  "rw_signed (r_mut env f w) = rw_signed w" "rw_step (r_mut env f w) = rw_step w" "rw_sent (r_mut env f w) = rw_sent w"
  by (simp_all add: r_mut_def)

lemma metric_simps [simp]:
  "rw_mgr (r_metric k n w) = l_incrementMetric k n (rw_mgr w)"
  "rw_signed (r_metric k n w) = rw_signed w" "rw_step (r_metric k n w) = rw_step w" "rw_sent (r_metric k n w) = rw_sent w"
  by (simp_all add: r_metric_def)

section \<open>Sending what was signed\<close>

text \<open>\<open>sendSignedTransaction\<close>, asked at step \<open>k\<close>: from the moment the node took the transaction,
  every error carries its signature and limit.\<close>

definition sendSignedTransaction ::
  "round_env \<Rightarrow> nat \<Rightarrow> signature \<Rightarrow> int option \<Rightarrow> js_error + signature" where
  "sendSignedTransaction env k sig limit =
     (case re_raw env k sig of
        Inl e \<Rightarrow> Inl e
      | Inr signature \<Rightarrow>
          (case re_confirm env k signature of
             Inr None \<Rightarrow> Inr signature
           | Inr (Some err) \<Rightarrow>
               Inl (PostSendError (''Transaction send/confirm failed: Transaction confirmed but failed on-chain: '' @ err)
                 (Some signature) limit)
           | Inl e \<Rightarrow>
               if epost e then Inl e
               else Inl (PostSendError (''Transaction send/confirm failed: '' @ emsg e) (Some signature) limit)))"

text \<open>What is documented of the node: it answers with the transaction's own signature, and the waiting for a
  confirmation throws no \<open>PostSendError\<close> of its own.\<close>

definition node_sends :: "round_env \<Rightarrow> bool" where
  "node_sends env \<longleftrightarrow>
     (\<forall>k sig. (\<forall>s. re_raw env k sig = Inr s \<longrightarrow> s = sig) \<and> (\<forall>e. re_raw env k sig = Inl e \<longrightarrow> \<not> epost e) \<and>
        (\<forall>e. re_confirm env k sig = Inl e \<longrightarrow> \<not> epost e))"

lemma send_signed_signature:
  assumes "node_sends env"
  shows "sendSignedTransaction env k sig limit = Inr s \<Longrightarrow> s = sig"
    "sendSignedTransaction env k sig limit = Inl e \<Longrightarrow> epost e \<Longrightarrow> esig e = Some sig \<and> elimit e = limit"
  using assms unfolding node_sends_def sendSignedTransaction_def
  by (auto simp: PostSendError_def split: sum.splits option.splits if_splits)

section \<open>Metrics change only the metrics\<close>

lemma metric_lists [simp]:
  "tokenBuys (lstate (l_incrementMetric k n m)) = tokenBuys (lstate m)"
  "sends (lstate (l_incrementMetric k n m)) = sends (lstate m)"
  "burns (lstate (l_incrementMetric k n m)) = burns (lstate m)"
  "refunds (lstate (l_incrementMetric k n m)) = refunds (lstate m)"
  "purchaseTokens (lstate (l_incrementMetric k n m)) = purchaseTokens (lstate m)"
  by (simp_all add: l_incrementMetric_def Let_def)

text \<open>A node on which everything that is sent lands, and whose answers never decide before it did.\<close>

definition a_node :: round_env where
  "a_node = \<lparr>re_height = (\<lambda>_. Some 0), re_status = (\<lambda>_ _. Some None), re_program = (\<lambda>_ _. Some ''token''),
     re_decimals = (\<lambda>_ _. Some 6), re_balance = (\<lambda>_ _. Some 60),
     re_sign = (\<lambda>n. Inr (replicate (n + 1) CHR ''x'', Some 100)), re_raw = (\<lambda>_ sig. Inr sig),
     re_confirm = (\<lambda>_ _. Inr None), re_clock = (\<lambda>n. 1000 + int n), re_account = (\<lambda>_ _ _. Some True),
     re_inspect = (\<lambda>_ _. Inr \<lparr>mr_blockers = [], mr_hook = False, mr_fee = None\<rparr>), re_epoch = (\<lambda>_. Inr 1),
     re_hook = (\<lambda>_ _. None), re_price = (\<lambda>_. None), re_rpc = (\<lambda>_ _ _ _. None), re_keeper = ''k''\<rparr>"

end
