(* ===== verification/Burn_Safety.thy ===== *)
theory Burn_Safety
  imports Burns
begin

text \<open>
  The burns of a coin never exceed what it owes. Every burn ever signed is matched with its record:
  a completed record's transaction landed, a failed one's did not and never will, one in progress
  still carries the signature to ask about. A coin with a burn in progress is not burned again.
  The history a coin can have is a step relation: a call of \<open>burnDueFor\<close>, the process
  dying after a burn was signed and before anything came back, or anything else of the round that
  leaves the burns alone and does not lose purchases.
\<close>

section \<open>Sums over records and signed burns\<close>

definition counted :: "mint \<Rightarrow> BurnStatus set \<Rightarrow> BurnRecord list \<Rightarrow> bigint" where
  "counted M S bs = sum_list (map (\<lambda>b. if bn_mint b = M \<and> bn_status b \<in> S then bn_raw b else 0) bs)"

definition landed_raw :: "(signature \<Rightarrow> bool) \<Rightarrow> mint \<Rightarrow> signed_burn list \<Rightarrow> bigint" where
  "landed_raw landed M sg = sum_list (map (\<lambda>(m, s, l, r). if m = M \<and> landed s then r else 0) sg)"

fun fate :: "(signature \<Rightarrow> bool) \<Rightarrow> BurnRecord \<Rightarrow> signed_burn \<Rightarrow> bool" where
  "fate landed b (m, s, l, r) \<longleftrightarrow> bn_mint b = m \<and> bn_raw b = r \<and> 0 < r \<and>
     (case bn_status b of
        BCompleted \<Rightarrow> landed s
      | BInProgress \<Rightarrow> bn_pending b = Some s \<and> bn_limit b = l \<and> s \<noteq> []
      | BFailed \<Rightarrow> \<not> landed s)"

lemma counted_append [simp]: "counted M S (bs @ cs) = counted M S bs + counted M S cs"
  by (simp add: counted_def)

lemma landed_between:
  "list_all2 (fate landed) bs sg \<Longrightarrow>
    counted M {BCompleted} bs \<le> landed_raw landed M sg \<and> landed_raw landed M sg \<le> counted M {BCompleted, BInProgress} bs"
  unfolding counted_def landed_raw_def
proof (induction rule: list_all2_induct)
  case (Cons b bs s sg)
  then show ?case by (cases s; cases "bn_status b") auto
qed simp

lemma fate_map:
  "list_all2 (fate landed) bs sg \<Longrightarrow> (\<And>b s. b \<in> set bs \<Longrightarrow> s \<in> set sg \<Longrightarrow> fate landed b s \<Longrightarrow> fate landed (h b) s) \<Longrightarrow>
    list_all2 (fate landed) (map h bs) sg"
  by (auto simp: list_all2_conv_all_nth)

section \<open>The number at the end of an identifier\<close>

definition last_field :: "string \<Rightarrow> string" where
  "last_field s = rev (takeWhile (\<lambda>c. c \<noteq> CHR ''_'') (rev s))"

lemma last_field_append: "CHR ''_'' \<notin> set d \<Longrightarrow> last_field (s @ CHR ''_'' # d) = d"
  unfolding last_field_def by simp (subst takeWhile_append2; auto)

lemma digits_no_underscore: "list_all is_digit s \<Longrightarrow> CHR ''_'' \<notin> set s"
  by (auto simp: list_all_iff is_digit_def)

lemma last_field_burn: "bigint_of (last_field (burn_id mnt now n)) = int n"
proof -
  have "burn_id mnt now n = (''burn_'' @ take 8 mnt @ ''_'' @ show_nat now) @ CHR ''_'' # show_nat (int n)"
    by (simp add: burn_id_def)
  moreover have "CHR ''_'' \<notin> set (show_nat (int n))"
    using show_nat_digits [of "int n"] by (intro digits_no_underscore) (simp add: all_digits_def)
  ultimately have "last_field (burn_id mnt now n) = show_nat (int n)"
    by (metis last_field_append)
  then show ?thesis by (simp add: bigint_of_show_nat)
qed

definition numbered :: "BurnRecord list \<Rightarrow> bool" where
  "numbered bs \<longleftrightarrow> map (\<lambda>b. bigint_of (last_field (bn_id b))) bs = map (\<lambda>k. int k + 1) [0..<length bs]"

lemma numbered_distinct: "numbered bs \<Longrightarrow> distinct (map bn_id bs)"
proof -
  assume "numbered bs"
  then have "map (\<lambda>i. bigint_of (last_field i)) (map bn_id bs) = map (\<lambda>k. int k + 1) [0..<length bs]"
    by (simp add: numbered_def comp_def)
  moreover have "distinct (map (\<lambda>k. int k + 1) [0..<length bs])" by (simp add: distinct_map inj_on_def)
  ultimately show ?thesis by (metis distinct_map)
qed

lemma numbered_snoc:
  "numbered bs \<Longrightarrow> bn_id b = burn_id mnt now (length bs + 1) \<Longrightarrow> numbered (bs @ [b])"
  by (simp add: numbered_def last_field_burn)

section \<open>What the updates do to the lists\<close>

abbreviation bl :: "rworld \<Rightarrow> BurnRecord list" where
  "bl w \<equiv> burns (lstate (rw_mgr w))"

text \<open>What the shares and the tokens bought are computed from.\<close>

definition coin_view :: "mint \<Rightarrow> LotteryState \<Rightarrow> _" where
  "coin_view M st = (map_option (\<lambda>t. (t_recipients t, t_files t, t_file t)) (List.find (\<lambda>t. t_mint t = M) (tokenBuys st)),
     sends st, purchaseTokens st)"

lemma batch_signatures_view:
  assumes "t_files t = t_files t'" "t_file t = t_file t'"
  shows "completedPurchaseSignatures t load = completedPurchaseSignatures t' load"
    "pendingPurchaseSignatures t load = pendingPurchaseSignatures t' load"
  using assms by (simp_all add: completedPurchaseSignatures_def pendingPurchaseSignatures_def
      pendingPurchaseAttempts_def batch_files_def)

lemma coin_view_eq:
  assumes "coin_view M st = coin_view M st'"
  shows "sharesOf st M = sharesOf st' M \<and> tokensBought st M load = tokensBought st' M load"
proof (cases "List.find (\<lambda>t. t_mint t = M) (tokenBuys st)")
  case None
  with assms have "List.find (\<lambda>t. t_mint t = M) (tokenBuys st') = None" "sends st = sends st'"
    by (auto simp: coin_view_def)
  with None show ?thesis by (simp add: sharesOf_def tokensBought_def)
next
  case (Some t)
  with assms obtain t' where t': "List.find (\<lambda>t. t_mint t = M) (tokenBuys st') = Some t'"
    and v: "t_recipients t = t_recipients t'" "t_files t = t_files t'" "t_file t = t_file t'"
      "sends st = sends st'" "purchaseTokens st = purchaseTokens st'"
    by (cases "List.find (\<lambda>t. t_mint t = M) (tokenBuys st')") (auto simp: coin_view_def)
  show ?thesis
    by (simp add: sharesOf_def tokensBought_def Some t' v batch_signatures_view [OF v(2,3)] Let_def)
qed

lemmas coin_view_shares = coin_view_eq [THEN conjunct1]
lemmas coin_view_bought = coin_view_eq [THEN conjunct2]

lemma burn_update_view:
  "coin_view M (lstate (sure m (updateBurn now i f m))) = coin_view M (lstate m)"
  "getTokenBuy M (sure m (updateBurn now i f m)) = getTokenBuy M m"
  by (auto simp: updateBurn_def coin_view_def getTokenBuy_def split: option.split)

lemma burn_update_list:
  assumes "distinct (map bn_id (burns (lstate m)))"
  shows "burns (lstate (sure m (updateBurn now i f m))) =
    map (\<lambda>b. if bn_id b = i then (f b)\<lparr>bn_updatedAt := now\<rparr> else b) (burns (lstate m))"
proof (cases "getBurn i m")
  case None
  then have "\<And>b. b \<in> set (burns (lstate m)) \<Longrightarrow> bn_id b \<noteq> i" by (auto simp: getBurn_def find_None_iff)
  with None show ?thesis by (auto simp: updateBurn_def intro!: map_idI [symmetric])
qed (simp add: updateBurn_def upd_first_distinct assms)

lemma buy_update_view:
  assumes "\<And>t. t_mint (f t) = t_mint t \<and> t_recipients (f t) = t_recipients t \<and> t_files (f t) = t_files t \<and> t_file (f t) = t_file t"
  shows "coin_view M (lstate (sure m (updateTokenBuy now k f m))) = coin_view M (lstate m)"
proof (cases "getTokenBuy k m")
  case (Some t)
  then have "List.find (\<lambda>t. t_mint t = k) (tokenBuys (lstate m)) = Some t" by (simp add: getTokenBuy_def)
  from find_after_update [OF this, of "\<lambda>t. (f t)\<lparr>t_updatedAt := now\<rparr>" M] this Some assms show ?thesis
    by (auto simp: updateTokenBuy_def coin_view_def)
qed (simp add: updateTokenBuy_def)

lemma addBurned_effect:
  "coin_view M (lstate (sure m (addBurned now k raw m))) = coin_view M (lstate m) \<and>
   burns (lstate (sure m (addBurned now k raw m))) = burns (lstate m) \<and>
   (getTokenBuy M (sure m (addBurned now k raw m)) = None) = (getTokenBuy M m = None) \<and>
   burned_of M (sure m (addBurned now k raw m)) =
     burned_of M m + (if M = k \<and> getTokenBuy M m \<noteq> None then raw else 0)"
proof (cases "getTokenBuy k m")
  case (Some t)
  let ?f = "\<lambda>t'. t'\<lparr>t_burnedRaw := Some ((case t_burnedRaw t of None \<Rightarrow> 0 | Some b \<Rightarrow> b) + raw)\<rparr>"
  have eq: "addBurned now k raw m = updateTokenBuy now k ?f m" by (simp add: addBurned_def Some)
  have "coin_view M (lstate (sure m (addBurned now k raw m))) = coin_view M (lstate m)"
    unfolding eq by (rule buy_update_view) simp
  moreover have "burns (lstate (sure m (addBurned now k raw m))) = burns (lstate m)"
    by (simp add: eq updateTokenBuy_def Some)
  moreover have "getTokenBuy M (sure m (addBurned now k raw m)) =
      (if M = k then Some ((?f t)\<lparr>t_updatedAt := now\<rparr>) else getTokenBuy M m)"
    unfolding eq by (subst buys.get_sure) (auto simp: Some)
  ultimately show ?thesis using Some by (auto simp: burned_of_def)
qed (auto simp: addBurned_def)

lemmas addBurned_sure = addBurned_effect [THEN conjunct1] addBurned_effect [THEN conjunct2, THEN conjunct1]
  addBurned_effect [THEN conjunct2, THEN conjunct2, THEN conjunct1]
  addBurned_effect [THEN conjunct2, THEN conjunct2, THEN conjunct2]

lemma block_sure:
  assumes "\<And>t. t_mint (f t) = t_mint t \<and> t_recipients (f t) = t_recipients t \<and> t_files (f t) = t_files t \<and>
      t_file (f t) = t_file t \<and> t_burnedRaw (f t) = t_burnedRaw t"
  shows "coin_view M (lstate (sure m (updateTokenBuy now k f m))) = coin_view M (lstate m)"
    "burns (lstate (sure m (updateTokenBuy now k f m))) = burns (lstate m)"
    "(getTokenBuy M (sure m (updateTokenBuy now k f m)) = None) = (getTokenBuy M m = None)"
    "burned_of M (sure m (updateTokenBuy now k f m)) = burned_of M m"
  using assms
  by (auto simp: buy_update_view buys.get_sure burned_of_def split: option.split)
    (auto simp: updateTokenBuy_def split: option.split)

section \<open>The invariant\<close>

definition burn_inv :: "round_env \<Rightarrow> (signature \<Rightarrow> bool) \<Rightarrow> mint \<Rightarrow> rworld \<Rightarrow> bool" where
  "burn_inv env landed M w \<longleftrightarrow>
     list_all2 (fate landed) (bl w) (rw_signed w) \<and> numbered (bl w) \<and>
     (\<forall>(m, s, l, r) \<in> set (rw_signed w). \<exists>n. re_sign env n = Inr (s, l)) \<and>
     getTokenBuy M (rw_mgr w) \<noteq> None \<and> burned_of M (rw_mgr w) = counted M {BCompleted} (bl w)"

text \<open>What the chain, the node and the sender promise about a burn that was signed: the outcome read for
  it is the truth, a confirmed sending landed under its own signature, a refusal by the program is
  final, and an error that carries a signature carries this one.\<close>

definition refused :: "js_error \<Rightarrow> bool" where
  "refused e \<longleftrightarrow> matchError (emsg e) STRUCTURAL \<noteq> None \<or> matchError (emsg e) LIFTABLE \<noteq> None"

definition burn_laws :: "round_env \<Rightarrow> (signature \<Rightarrow> bool) \<Rightarrow> bool" where
  "burn_laws env landed \<longleftrightarrow>
     (\<forall>n sig limit. re_sign env n = Inr (sig, limit) \<longrightarrow> sig \<noteq> [] \<and>
        (\<forall>k. (signatureOutcome limit (re_height env k) (re_status env k sig) = Landed \<longrightarrow> landed sig) \<and>
             (signatureOutcome limit (re_height env k) (re_status env k sig) \<in> {Absent, FailedOnChain} \<longrightarrow> \<not> landed sig) \<and>
             (\<forall>s. sendSignedTransaction env k sig limit = Inr s \<longrightarrow> s = sig \<and> landed sig) \<and>
             (\<forall>e. sendSignedTransaction env k sig limit = Inl e \<longrightarrow> (refused e \<longrightarrow> \<not> landed sig) \<and> (epost e \<longrightarrow> esig e \<in> {None, Some sig}))))"

definition active :: "mint \<Rightarrow> rworld \<Rightarrow> bigint" where
  "active M w = counted M {BCompleted, BInProgress} (bl w)"

definition owes :: "mint \<Rightarrow> BatchLoader \<Rightarrow> rworld \<Rightarrow> bigint" where
  "owes M load w = burnOwed (bt_known (tokensBought (lstate (rw_mgr w)) M load)) (sharesOf (lstate (rw_mgr w)) M)"

text \<open>What an operation on the burns keeps.\<close>

definition keeps :: "round_env \<Rightarrow> (signature \<Rightarrow> bool) \<Rightarrow> mint \<Rightarrow> rworld \<Rightarrow> rworld \<Rightarrow> bool" where
  "keeps env landed M w w' \<longleftrightarrow>
     (burn_inv env landed M w \<longrightarrow> burn_inv env landed M w' \<and> active M w' \<le> active M w) \<and>
     coin_view M (lstate (rw_mgr w')) = coin_view M (lstate (rw_mgr w)) \<and>
     (\<forall>k. (getTokenBuy k (rw_mgr w') = None) = (getTokenBuy k (rw_mgr w) = None))"

lemma keeps_trans: "keeps env landed M a b \<Longrightarrow> keeps env landed M b c \<Longrightarrow> keeps env landed M a c"
  by (fastforce simp: keeps_def)

lemma keeps_tick: "keeps env landed M w (r_tick w)"
  by (simp add: keeps_def burn_inv_def active_def)

lemma map_at:
  assumes "distinct (map g xs)" "b \<in> set xs"
  obtains ys zs where "xs = ys @ b # zs" "map (\<lambda>x. if g x = g b then h x else x) xs = ys @ h b # zs"
proof -
  from split_list [OF assms(2)] obtain ys zs where xs: "xs = ys @ b # zs" by blast
  with assms(1) have "g x \<noteq> g b" if "x \<in> set ys \<union> set zs" for x
    using that by (auto simp: image_iff)
  then have "map (\<lambda>x. if g x = g b then h x else x) xs = ys @ h b # zs"
    by (simp add: xs map_idI)
  with xs show ?thesis by (rule that)
qed

lemma inv_distinct: "burn_inv env landed M w \<Longrightarrow> distinct (map bn_id (bl w))"
  by (simp add: burn_inv_def numbered_distinct)

text \<open>One record changes its status; \<open>burned\<close> is what is added to the coin's burned total.\<close>

definition restamp :: "round_env \<Rightarrow> BurnRecord \<Rightarrow> (BurnRecord \<Rightarrow> BurnRecord) \<Rightarrow> rworld \<Rightarrow> rworld" where
  "restamp env b f w = r_mut env (\<lambda>now. updateBurn now (bn_id b) f) w"

lemma restamp_list:
  assumes "distinct (map bn_id (bl w))" "b \<in> set (bl w)"
  obtains ys zs now where "bl w = ys @ b # zs" "bl (restamp env b f w) = ys @ (f b)\<lparr>bn_updatedAt := now\<rparr> # zs"
proof -
  let ?h = "\<lambda>b. (f b)\<lparr>bn_updatedAt := re_clock env (rw_step w)\<rparr>"
  from map_at [OF assms, of ?h] obtain ys zs where "bl w = ys @ b # zs"
    "map (\<lambda>x. if bn_id x = bn_id b then ?h x else x) (bl w) = ys @ ?h b # zs" .
  moreover have "bl (restamp env b f w) = map (\<lambda>x. if bn_id x = bn_id b then ?h x else x) (bl w)"
    by (simp add: restamp_def burn_update_list assms(1))
  ultimately show ?thesis by (intro that) simp_all
qed

lemma restamp_rest [simp]:
  "coin_view M (lstate (rw_mgr (restamp env b f w))) = coin_view M (lstate (rw_mgr w))"
  "getTokenBuy k (rw_mgr (restamp env b f w)) = getTokenBuy k (rw_mgr w)"
  "burned_of k (rw_mgr (restamp env b f w)) = burned_of k (rw_mgr w)"
  "rw_signed (restamp env b f w) = rw_signed w"
  by (simp_all add: restamp_def burn_update_view burned_of_def)

lemma restamp_facts:
  assumes inv: "list_all2 (fate landed) (bl w) (rw_signed w)" "numbered (bl w)" and b: "b \<in> set (bl w)"
    and same: "bn_id (f b) = bn_id b" "bn_mint (f b) = bn_mint b" "bn_raw (f b) = bn_raw b"
    and fates: "\<And>s. s \<in> set (rw_signed w) \<Longrightarrow> fate landed b s \<Longrightarrow> fate landed (f b) s"
  shows "list_all2 (fate landed) (bl (restamp env b f w)) (rw_signed w) \<and> numbered (bl (restamp env b f w)) \<and>
    counted M S (bl (restamp env b f w)) = counted M S (bl w) +
      (if bn_mint b = M then (if bn_status (f b) \<in> S then bn_raw b else 0) - (if bn_status b \<in> S then bn_raw b else 0) else 0)"
proof -
  from restamp_list [OF numbered_distinct [OF inv(2)] b, of env f] obtain ys zs now where
    l: "bl w = ys @ b # zs" "bl (restamp env b f w) = ys @ (f b)\<lparr>bn_updatedAt := now\<rparr> # zs" .
  have st: "fate landed (r\<lparr>bn_updatedAt := now\<rparr>) s = fate landed r s" for r s
    by (cases s) (simp split: BurnStatus.split)
  from inv(1) l(1) obtain sy s sz where s: "rw_signed w = sy @ s # sz" "list_all2 (fate landed) ys sy"
    "fate landed b s" "list_all2 (fate landed) zs sz"
    by (auto simp: list_all2_append1 list_all2_Cons1)
  then have "list_all2 (fate landed) (bl (restamp env b f w)) (rw_signed w)"
    using fates [of s] by (simp add: l s(1) list_all2_appendI st)
  moreover have "numbered (bl (restamp env b f w))"
    using inv(2) by (simp add: l numbered_def same)
  ultimately show ?thesis by (simp add: l counted_def same)
qed


lemma restamp_keeps:
  assumes b: "b \<in> set (bl w)" "bn_status b = BInProgress" "bn_status (f b) \<noteq> BCompleted"
    and same: "bn_id (f b) = bn_id b" "bn_mint (f b) = bn_mint b" "bn_raw (f b) = bn_raw b"
    and fates: "\<And>s. s \<in> set (rw_signed w) \<Longrightarrow> fate landed b s \<Longrightarrow> fate landed (f b) s"
    and pos: "0 < bn_raw b"
  shows "keeps env landed M w (restamp env b f w)"
proof -
  have "burn_inv env landed M (restamp env b f w) \<and> active M (restamp env b f w) \<le> active M w"
    if inv: "burn_inv env landed M w"
  proof -
    have i: "list_all2 (fate landed) (bl w) (rw_signed w)" "numbered (bl w)"
      using inv by (simp_all add: burn_inv_def)
    from restamp_facts [where f = f and env = env and M = M and S = "{BCompleted}", OF i b(1) same fates]
      restamp_facts [where f = f and env = env and M = M and S = "{BCompleted, BInProgress}", OF i b(1) same fates] inv b pos
    show ?thesis by (auto simp: burn_inv_def active_def split: if_splits)
  qed
  then show ?thesis by (simp add: keeps_def)
qed

lemmas restamp_keeps_tick = keeps_trans [OF keeps_tick restamp_keeps]

text \<open>A record completes and its amount is added to the coin's total.\<close>

lemma complete_keeps:
  assumes b: "b \<in> set (bl w)" "bn_status b = BInProgress" "bn_status (f b) = BCompleted" "bn_mint b = mnt"
    and same: "bn_id (f b) = bn_id b" "bn_mint (f b) = bn_mint b" "bn_raw (f b) = bn_raw b"
    and fates: "\<And>s. s \<in> set (rw_signed w) \<Longrightarrow> fate landed b s \<Longrightarrow> fate landed (f b) s"
  shows "keeps env landed M w (r_mut env (\<lambda>now. addBurned now mnt (bn_raw b)) (restamp env b f w))"
proof -
  define q where "q = r_mut env (\<lambda>now. addBurned now mnt (bn_raw b)) (restamp env b f w)"
  have l: "bl q = bl (restamp env b f w)" "rw_signed q = rw_signed w"
    "coin_view M (lstate (rw_mgr q)) = coin_view M (lstate (rw_mgr w))"
    "\<And>k. (getTokenBuy k (rw_mgr q) = None) = (getTokenBuy k (rw_mgr w) = None)"
    "burned_of M (rw_mgr q) = burned_of M (rw_mgr w) + (if M = mnt \<and> getTokenBuy M (rw_mgr w) \<noteq> None then bn_raw b else 0)"
    by (simp_all add: q_def addBurned_sure)
  have "burn_inv env landed M q \<and> active M q \<le> active M w" if inv: "burn_inv env landed M w"
  proof -
    have i: "list_all2 (fate landed) (bl w) (rw_signed w)" "numbered (bl w)"
      using inv by (simp_all add: burn_inv_def)
    note r = restamp_facts [where f = f and env = env and M = M, OF i b(1) same fates]
    show ?thesis
      using r [where S = "{BCompleted}"] r [where S = "{BCompleted, BInProgress}"] inv b
      unfolding burn_inv_def active_def l by simp
  qed
  then show ?thesis unfolding q_def [symmetric] by (simp add: keeps_def l)
qed

lemma in_fate: "list_all2 (fate landed) bs sg \<Longrightarrow> b \<in> set bs \<Longrightarrow> \<exists>s \<in> set sg. fate landed b s"
  by (induction rule: list_all2_induct) auto

text \<open>What the invariant says of a burn in progress.\<close>

lemma open_burn:
  assumes "burn_inv env landed M w" "b \<in> set (bl w)" "bn_status b = BInProgress"
  obtains n sig where "bn_pending b = Some sig" "re_sign env n = Inr (sig, bn_limit b)" "sig \<noteq> []" "0 < bn_raw b"
    "\<And>s. s \<in> set (rw_signed w) \<Longrightarrow> fate landed b s \<Longrightarrow> s = (bn_mint b, sig, bn_limit b, bn_raw b)"
proof -
  have "list_all2 (fate landed) (bl w) (rw_signed w)" using assms(1) by (simp add: burn_inv_def)
  from in_fate [OF this assms(2)] obtain m s l r where
    s: "(m, s, l, r) \<in> set (rw_signed w)" "fate landed b (m, s, l, r)"
    by (metis prod_cases4)
  with assms(1) obtain n where "re_sign env n = Inr (s, l)" by (auto simp: burn_inv_def)
  with s assms(3) show ?thesis by (intro that [of s n]) (auto simp: prod_eq_iff)
qed

definition in_progress :: "mint \<Rightarrow> rworld \<Rightarrow> BurnRecord set" where
  "in_progress mnt w = {b \<in> set (bl w). bn_mint b = mnt \<and> bn_status b = BInProgress}"

lemma settle_open_keeps:
  assumes laws: "burn_laws env landed"
  shows "burn_inv env landed M w \<Longrightarrow> distinct (map bn_id os) \<Longrightarrow> in_progress mnt w = set os \<Longrightarrow>
    settle_open env mnt os w = (r, w') \<Longrightarrow>
    keeps env landed M w w' \<and> rw_signed w' = rw_signed w \<and> (r \<longrightarrow> in_progress mnt w' = {})"
proof (induction os arbitrary: w)
  case Nil
  then show ?case by (auto simp: keeps_def)
next
  case (Cons b os)
  have b: "b \<in> set (bl w)" "bn_mint b = mnt" "bn_status b = BInProgress"
    using Cons.prems(3) by (auto simp: in_progress_def)
  from open_burn [OF Cons.prems(1) b(1,3)] obtain n sig where sig: "bn_pending b = Some sig"
    "re_sign env n = Inr (sig, bn_limit b)" "sig \<noteq> []" "0 < bn_raw b"
    and only: "\<And>s. s \<in> set (rw_signed w) \<Longrightarrow> fate landed b s \<Longrightarrow> s = (bn_mint b, sig, bn_limit b, bn_raw b)"
    by metis
  let ?out = "signatureOutcome (bn_limit b) (re_height env (rw_step w)) (re_status env (rw_step w) sig)"
  have law: "(?out = Landed \<longrightarrow> landed sig) \<and> (?out \<in> {Absent, FailedOnChain} \<longrightarrow> \<not> landed sig)"
    using laws sig(2) by (simp add: burn_laws_def)
  have rest: "in_progress mnt (restamp env b f (r_tick w)) = set os"
    if "\<And>c. bn_status (f c) \<noteq> BInProgress" for f
  proof -
    have d: "distinct (map bn_id (bl (r_tick w)))" using inv_distinct [OF Cons.prems(1)] by simp
    have "b \<in> set (bl (r_tick w))" using b(1) by simp
    from restamp_list [OF d this, of env f] obtain ys zs now where
      l: "bl (r_tick w) = ys @ b # zs" "bl (restamp env b f (r_tick w)) = ys @ (f b)\<lparr>bn_updatedAt := now\<rparr> # zs" .
    have "b \<notin> set ys \<union> set zs" using d l(1) by auto
    moreover have "b \<noteq> (f b)\<lparr>bn_updatedAt := now\<rparr>"
      using that [of b] b(3) by (auto dest: arg_cong [of _ _ bn_status])
    ultimately have "in_progress mnt (restamp env b f (r_tick w)) = in_progress mnt w - {b}"
      using that [of b] l(1) by (auto simp: in_progress_def l(2))
    moreover have "b \<notin> set os" using Cons.prems(2) by auto
    ultimately show ?thesis using Cons.prems(3) by simp
  qed
  have step: "keeps env landed M w w' \<and> rw_signed w' = rw_signed w \<and> (r \<longrightarrow> in_progress mnt w' = {})"
    if "keeps env landed M (r_tick w) q" "rw_signed q = rw_signed w" "in_progress mnt q = set os"
      "settle_open env mnt os q = (r, w')" for q
  proof -
    have k: "keeps env landed M w q" using keeps_trans [OF keeps_tick that(1)] .
    then have "burn_inv env landed M q" using Cons.prems(1) by (simp add: keeps_def)
    from Cons.IH [OF this _ that(3,4)] Cons.prems(2) that(2) k show ?thesis by (auto intro: keeps_trans)
  qed
  show ?case
  proof (cases "?out = Landed")
    case True
    let ?f = "\<lambda>r. r\<lparr>bn_status := BCompleted, bn_signature := Some sig, bn_pending := None, bn_limit := None\<rparr>"
    let ?q = "r_mut env (\<lambda>now. addBurned now mnt (bn_raw b)) (restamp env b ?f (r_tick w))"
    have "keeps env landed M (r_tick w) ?q"
      using b law True by (intro complete_keeps) (auto dest!: only)
    moreover have "in_progress mnt ?q = set os"
      using rest [of ?f] by (simp add: in_progress_def addBurned_sure)
    moreover have "settle_open env mnt os ?q = (r, w')"
      using Cons.prems(4) True sig by (simp add: truthy_string_def ask_signature_def restamp_def)
    ultimately show ?thesis by (intro step) simp_all
  next
    case False
    show ?thesis
    proof (cases "?out \<in> {Absent, FailedOnChain}")
      case True
      let ?f = "\<lambda>r. r\<lparr>bn_status := BFailed, bn_error := Some (if ?out = FailedOnChain then ''failed on chain'' else ''never landed'')\<rparr>"
      have "keeps env landed M (r_tick w) (restamp env b ?f (r_tick w))"
        using b law True sig(4) by (intro restamp_keeps) (auto dest!: only)
      moreover have "in_progress mnt (restamp env b ?f (r_tick w)) = set os" by (rule rest) simp
      moreover have "settle_open env mnt os (restamp env b ?f (r_tick w)) = (r, w')"
        using Cons.prems(4) False True sig by (simp add: truthy_string_def ask_signature_def restamp_def)
      ultimately show ?thesis by (intro step) simp_all
    next
      case unknown: False
      have "r = False \<and> w' = r_tick w"
        using Cons.prems(4) False unknown sig by (auto simp: truthy_string_def ask_signature_def)
      then show ?thesis by (simp add: keeps_tick)
    qed
  qed
qed


section \<open>Preparing and sending\<close>

text \<open>The two ways \<open>burn_prepare\<close> ends: without a new burn, or with one that was signed and
  written, of at most what is still owed.\<close>

lemma prepare_cases:
  assumes "burn_prepare env load mnt w = (x, w')" "settlePending env mnt w = (clear, w1)"
  obtains
    (none) r v where "x = Inl r" "v \<in> {w, w1}" "rw_mgr w' = rw_mgr v" "rw_signed w' = rw_signed v"
  | (signed) bn sig limit n now where "x = Inr bn" "clear" "re_sign env n = Inr (sig, limit)"
      "bn_id bn = burn_id mnt now (length (bl w1) + 1)" "bn_mint bn = mnt" "bn_status bn = BInProgress"
      "bn_pending bn = Some sig" "bn_limit bn = limit" "0 < bn_raw bn"
      "bn_raw bn \<le> burnOwed (bt_known (tokensBought (lstate (rw_mgr w1)) mnt load)) (sharesOf (lstate (rw_mgr w)) mnt) -
         burned_of mnt (rw_mgr w1)"
      "rw_mgr w' = addBurn bn (rw_mgr w1)" "rw_signed w' = rw_signed w1 @ [(mnt, sig, limit, bn_raw bn)]"
proof -
  let ?due = "burnOwed (bt_known (tokensBought (lstate (rw_mgr w1)) mnt load)) (sharesOf (lstate (rw_mgr w)) mnt) -
         burned_of mnt (rw_mgr w1)"
  let ?w2 = "r_tick (r_tick w1)"
  let ?cut = "case re_balance env (rw_step ?w2) mnt of Some balance \<Rightarrow> if balance < ?due then balance else ?due | None \<Rightarrow> ?due"
  consider (a) "getTokenBuy mnt (rw_mgr w) = None"
    | (b) t where "getTokenBuy mnt (rw_mgr w) = Some t"
        "t_burnBlocked t \<noteq> None \<or> \<not> clear \<or> ?due \<le> 0 \<or> re_program env (rw_step w1) mnt = None \<or>
         re_decimals env (rw_step w1 + 1) mnt = None \<or> ?cut \<le> 0 \<or> isl (re_sign env (rw_step (r_tick (r_tick (r_tick (r_tick w1))))))"
    | (c) t pr d sig limit where "getTokenBuy mnt (rw_mgr w) = Some t" "t_burnBlocked t = None" "clear" "0 < ?due"
        "re_program env (rw_step w1) mnt = Some pr" "re_decimals env (rw_step w1 + 1) mnt = Some d" "0 < ?cut"
        "re_sign env (rw_step (r_tick (r_tick (r_tick (r_tick w1))))) = Inr (sig, limit)"
    by (cases "getTokenBuy mnt (rw_mgr w)"; cases clear; cases "re_sign env (rw_step (r_tick (r_tick (r_tick (r_tick w1)))))";
        cases "re_program env (rw_step w1) mnt"; cases "re_decimals env (rw_step w1 + 1) mnt") force+
  then show ?thesis
  proof cases
    case a
    then show ?thesis using assms by (intro none [of Nothing w]) (auto simp: burn_prepare_def)
  next
    case b
    then show ?thesis using assms
      by (intro none [of "case x of Inl r \<Rightarrow> r" "if t_burnBlocked t \<noteq> None then w else w1"])
        (auto simp: burn_prepare_def Let_def split: if_splits option.splits sum.splits)
  next
    case c
    have le: "?cut \<le> ?due" by (simp split: option.split)
    from c assms show ?thesis
      using le by (intro signed [of "case x of Inr r \<Rightarrow> r" "rw_step (r_tick (r_tick (r_tick (r_tick w1))))" sig limit "re_clock env (rw_step (r_tick (r_tick (r_tick w1))))"])
        (auto simp: burn_prepare_def Let_def getBurns_def add.commute split: if_splits)
  qed
qed


lemma settle_keeps:
  assumes "burn_laws env landed" "burn_inv env landed M w" "settlePending env mnt w = (clear, w1)"
  shows "keeps env landed M w w1 \<and> rw_signed w1 = rw_signed w \<and> (clear \<longrightarrow> in_progress mnt w1 = {})"
proof (rule settle_open_keeps [OF assms(1,2)])
  let ?os = "filter (\<lambda>b. bn_mint b = mnt \<and> bn_status b = BInProgress) (bl w)"
  show "distinct (map bn_id ?os)" using inv_distinct [OF assms(2)] by (rule distinct_map_filter)
  show "in_progress mnt w = set ?os" by (auto simp: in_progress_def)
  show "settle_open env mnt ?os w = (clear, w1)" using assms(3) by (simp add: settlePending_def getBurns_def)
qed

lemma keeps_bound:
  assumes "keeps env landed M w w'" "burn_inv env landed M w" "active M w \<le> owes M load w"
  shows "burn_inv env landed M w' \<and> active M w' \<le> owes M load w'"
proof -
  have "owes M load w' = owes M load w"
    using assms(1) coin_view_eq [of M "lstate (rw_mgr w')" "lstate (rw_mgr w)"] by (simp add: keeps_def owes_def)
  with assms show ?thesis by (auto simp: keeps_def)
qed

lemma addBurn_simps [simp]:
  "burns (lstate (addBurn b m)) = burns (lstate m) @ [b]" "getTokenBuy k (addBurn b m) = getTokenBuy k m"
  "burned_of k (addBurn b m) = burned_of k m" "coin_view k (lstate (addBurn b m)) = coin_view k (lstate m)"
  by (simp_all add: addBurn_def getTokenBuy_def burned_of_def coin_view_def)

lemma counted_settled: "in_progress M w = {} \<Longrightarrow> counted M {BCompleted, BInProgress} (bl w) = counted M {BCompleted} (bl w)"
  unfolding counted_def by (rule sum_list_cong) (auto simp: in_progress_def)

lemma prepare_ok:
  assumes laws: "burn_laws env landed" and inv: "burn_inv env landed M w" and bound: "active M w \<le> owes M load w"
    and run: "burn_prepare env load mnt w = (x, w')"
  shows "burn_inv env landed M w' \<and> active M w' \<le> owes M load w' \<and>
    (\<forall>bn. x = Inr bn \<longrightarrow> bn \<in> set (bl w') \<and> bn_mint bn = mnt \<and> bn_status bn = BInProgress)"
proof -
  obtain clear w1 where s: "settlePending env mnt w = (clear, w1)" by fastforce
  have k: "keeps env landed M w w1" "rw_signed w1 = rw_signed w" "clear \<longrightarrow> in_progress mnt w1 = {}"
    using settle_keeps [OF laws inv s] by simp_all
  have i1: "burn_inv env landed M w1" "active M w1 \<le> owes M load w1"
    using keeps_bound [OF k(1) inv bound] by simp_all
  have view: "sharesOf (lstate (rw_mgr w)) M = sharesOf (lstate (rw_mgr w1)) M"
    using k(1) coin_view_eq [of M "lstate (rw_mgr w)" "lstate (rw_mgr w1)"] by (simp add: keeps_def)
  from run s show ?thesis
  proof (cases rule: prepare_cases)
    case (none r v)
    then show ?thesis using inv bound i1 by (auto simp: burn_inv_def active_def owes_def)
  next
    case (signed bn sig limit n now)
    have fate: "fate landed bn (mnt, sig, limit, bn_raw bn)"
      using signed laws by (auto simp: burn_laws_def)
    have owes: "owes M load w' = owes M load w1"
      using coin_view_eq [of M "lstate (rw_mgr w')" "lstate (rw_mgr w1)"] by (simp add: signed(11) owes_def)
    have act: "active M w' = active M w1 + (if mnt = M then bn_raw bn else 0)"
      by (simp add: active_def signed counted_def)
    have "active M w' \<le> owes M load w'"
    proof (cases "mnt = M")
      case True
      then have "active M w1 = burned_of M (rw_mgr w1)"
        using i1(1) k(3) signed(2) by (simp add: active_def counted_settled burn_inv_def)
      with signed(10) True show ?thesis by (simp add: act owes) (simp add: owes_def view)
    qed (use act owes i1 in simp)
    moreover have "burn_inv env landed M w'"
      using i1(1) fate signed numbered_snoc [of "bl w1" bn mnt now]
      by (auto simp: burn_inv_def list_all2_appendI counted_def)
    ultimately show ?thesis using signed by auto
  qed
qed

lemma send_keeps:
  assumes laws: "burn_laws env landed" and inv: "burn_inv env landed M w"
    and bn: "bn \<in> set (bl w)" "bn_mint bn = mnt" "bn_status bn = BInProgress"
  shows "keeps env landed M w (snd (burn_send env mnt final bn w))"
proof -
  from open_burn [OF inv bn(1,3)] obtain n sig where sig: "bn_pending bn = Some sig"
    "re_sign env n = Inr (sig, bn_limit bn)" "sig \<noteq> []" "0 < bn_raw bn"
    and only: "\<And>s. s \<in> set (rw_signed w) \<Longrightarrow> fate landed bn s \<Longrightarrow> s = (bn_mint bn, sig, bn_limit bn, bn_raw bn)"
    by metis
  have law: "sendSignedTransaction env k sig (bn_limit bn) = Inr s \<Longrightarrow> s = sig \<and> landed sig"
    "sendSignedTransaction env k sig (bn_limit bn) = Inl e \<Longrightarrow> (refused e \<longrightarrow> \<not> landed sig) \<and> (epost e \<longrightarrow> esig e \<in> {None, Some sig})" for k s e
    using laws [unfolded burn_laws_def, THEN spec, THEN spec, THEN spec, THEN mp, OF sig(2)] by blast+
  have bn': "bn \<in> set (bl (r_tick w))" using bn by simp
  show ?thesis
  proof (cases "sendSignedTransaction env (rw_step w) sig (bn_limit bn)")
    case (Inr s)
    let ?f = "\<lambda>r. r\<lparr>bn_status := BCompleted, bn_signature := Some s, bn_pending := None, bn_limit := None\<rparr>"
    have "keeps env landed M (r_tick w) (r_mut env (\<lambda>now. addBurned now mnt (bn_raw bn)) (restamp env bn ?f (r_tick w)))"
      using bn law(1) [OF Inr] by (intro complete_keeps) (auto dest!: only)
    then have "keeps env landed M w (r_mut env (\<lambda>now. addBurned now mnt (bn_raw bn)) (restamp env bn ?f (r_tick w)))"
      by (rule keeps_trans [OF keeps_tick])
    then show ?thesis using Inr sig(1) by (simp add: burn_send_def restamp_def)
  next
    case (Inl e)
    show ?thesis
    proof (cases "refused e")
      case True
      let ?f = "\<lambda>r. r\<lparr>bn_status := BFailed, bn_pending := None, bn_limit := None, bn_error := Some (emsg e)\<rparr>"
      have r: "keeps env landed M w (restamp env bn ?f (r_tick w))"
        using bn sig(4) law(2) [OF Inl] True
        by (intro restamp_keeps_tick) (auto dest!: only)
      have b: "keeps env landed M v (r_mut env (\<lambda>now. updateTokenBuy now mnt (\<lambda>t. t\<lparr>t_burnBlocked := Some (why, now)\<rparr>)) v)" for v why
        by (simp add: keeps_def burn_inv_def active_def block_sure)
      show ?thesis
        using keeps_trans [OF r b] r True Inl sig(1) by (simp add: burn_send_def restamp_def refused_def Let_def)
    next
      case False
      let ?s = "if epost e then (case esig e of Some s \<Rightarrow> s | None \<Rightarrow> sig) else sig"
      let ?f = "\<lambda>r. r\<lparr>bn_pending := Some ?s, bn_error := Some (emsg e)\<rparr>"
      have s: "?s = sig" using law(2) [OF Inl] by (auto split: option.split)
      have "keeps env landed M w (restamp env bn ?f (r_tick w))"
        using bn sig law(2) [OF Inl] unfolding s
        by (intro restamp_keeps_tick) (auto dest!: only)
      then show ?thesis
        using False Inl sig(1) by (simp add: burn_send_def restamp_def refused_def Let_def)
    qed
  qed
qed

section \<open>The history of a coin\<close>

text \<open>The process dies: memory is lost, the next one starts from the file.\<close>

definition restart :: "rworld \<Rightarrow> rworld" where
  "restart w = w\<lparr>rw_mgr := l_load (the (ldisk (rw_mgr w))) (lpath (rw_mgr w))\<rparr>"

definition aside :: "mint \<Rightarrow> BatchLoader \<Rightarrow> rworld \<Rightarrow> BatchLoader \<Rightarrow> rworld \<Rightarrow> bool" where
  "aside M load w load' w' \<longleftrightarrow>
     bl w' = bl w \<and> rw_signed w' = rw_signed w \<and> getTokenBuy M (rw_mgr w') \<noteq> None \<and>
     burned_of M (rw_mgr w') = burned_of M (rw_mgr w) \<and>
     sharesOf (lstate (rw_mgr w')) M = sharesOf (lstate (rw_mgr w)) M \<and>
     bt_known (tokensBought (lstate (rw_mgr w)) M load) \<le> bt_known (tokensBought (lstate (rw_mgr w')) M load')"

inductive burn_step :: "round_env \<Rightarrow> mint \<Rightarrow> BatchLoader \<times> rworld \<Rightarrow> BatchLoader \<times> rworld \<Rightarrow> bool"
  for env M where
  call: "burn_step env M (load, w) (load, snd (burnDueFor env load mnt final w))"
| death: "burn_prepare env load mnt w = (Inr bn, w') \<Longrightarrow> burn_step env M (load, w) (load, restart w')"
| other: "aside M load w load' w' \<Longrightarrow> burn_step env M (load, w) (load', w')"

definition burn_ok :: "round_env \<Rightarrow> (signature \<Rightarrow> bool) \<Rightarrow> mint \<Rightarrow> BatchLoader \<times> rworld \<Rightarrow> bool" where
  "burn_ok env landed M s \<longleftrightarrow> burn_inv env landed M (snd s) \<and> active M (snd s) \<le> owes M (fst s) (snd s)"

lemma burnOwed_nonneg: "0 \<le> burnOwed a (sharesOf st M)"
proof -
  let ?D = "totalStake (sharesOf st M) * FULL_BPS"
  have ge: "0 \<le> burnWeight (sharesOf st M)" "0 \<le> ?D"
    using shares_ok_nonneg [OF sharesOf_ok [of st M]] by (simp_all add: FULL_BPS_def)
  then have "?D = 0 \<or> 0 < ?D" by linarith
  then show ?thesis using ge(1) by (auto simp: burnOwed_def Let_def intro!: bdiv_nonneg)
qed

lemma burnOwed_mono: "a \<le> b \<Longrightarrow> burnOwed a (sharesOf st M) \<le> burnOwed b (sharesOf st M)"
proof (cases "a \<le> 0 \<or> totalStake (sharesOf st M) * FULL_BPS = 0")
  case True
  then have "burnOwed a (sharesOf st M) = 0" by (auto simp: burnOwed_def Let_def)
  then show ?thesis by (simp add: burnOwed_nonneg)
next
  case False
  assume "a \<le> b"
  moreover have "0 \<le> burnWeight (sharesOf st M)" "0 < totalStake (sharesOf st M) * FULL_BPS"
    using False shares_ok_nonneg [OF sharesOf_ok [of st M]] by (auto simp: FULL_BPS_def)
  ultimately show ?thesis
    using False by (auto simp: burnOwed_def Let_def intro!: bdiv_mono mult_right_mono)
qed

lemma prepare_synced:
  assumes "burn_prepare env load mnt w = (Inr bn, w')"
  shows "ldisk (rw_mgr w') = Some (lstate (rw_mgr w'))"
proof -
  obtain clear w1 where s: "settlePending env mnt w = (clear, w1)" by fastforce
  from assms s show ?thesis
  proof (cases rule: prepare_cases)
    case (signed sig limit n now)
    then show ?thesis by (simp add: addBurn_def l_save_def)
  qed simp
qed

lemma burn_step_ok:
  assumes laws: "burn_laws env landed"
  shows "burn_step env M s s' \<Longrightarrow> burn_ok env landed M s \<Longrightarrow> burn_ok env landed M s'"
proof (induction rule: burn_step.induct)
  case (call load w mnt final)
  obtain x w1 where p: "burn_prepare env load mnt w = (x, w1)" by fastforce
  from call have "burn_inv env landed M w" "active M w \<le> owes M load w" by (simp_all add: burn_ok_def)
  note ok = prepare_ok [OF laws this p]
  show ?case
  proof (cases x)
    case (Inl r)
    then show ?thesis using ok p by (simp add: burnDueFor_def burn_ok_def)
  next
    case (Inr bn)
    with ok have "keeps env landed M w1 (snd (burn_send env mnt final bn w1))"
      by (intro send_keeps [OF laws]) auto
    from keeps_bound [OF this, of load] ok Inr p show ?thesis by (simp add: burnDueFor_def burn_ok_def)
  qed
next
  case (death load mnt w bn w')
  then have "burn_inv env landed M w" "active M w \<le> owes M load w" by (simp_all add: burn_ok_def)
  note ok = prepare_ok [OF laws this death(1)]
  have "lstate (rw_mgr (restart w')) = lstate (rw_mgr w')" "rw_signed (restart w') = rw_signed w'"
    using prepare_synced [OF death(1)] by (simp_all add: restart_def l_load_def)
  with ok show ?case
    by (simp add: burn_ok_def burn_inv_def active_def owes_def getTokenBuy_def burned_of_def)
next
  case (other load w load' w')
  then have "owes M load w \<le> owes M load' w'" by (simp add: aside_def owes_def burnOwed_mono)
  with other show ?case by (auto simp: burn_ok_def aside_def burn_inv_def active_def)
qed



definition before_burn :: rworld where
  "before_burn = \<lparr>rw_mgr = coin_read, rw_step = 0, rw_signed = [], rw_sent = []\<rparr>"

definition after_burn :: rworld where
  "after_burn = snd (burnDueFor a_node a_load ''m'' False before_burn)"

lemma a_node_laws: "burn_laws a_node (\<lambda>_. True)"
  by (simp add: burn_laws_def a_node_def signatureOutcome_def EXPIRY_MARGIN_BLOCKS_def sendSignedTransaction_def)


end
