(* ===== verification/Preparation.thy ===== *)
theory Preparation
  imports Shares Deficit Schedule
begin

text \<open>
  What a round is before its first purchase (\<open>orchestrator/fees.ts\<close> and the first phase of
  \<open>executeLottery\<close> in \<open>orchestrator/orchestrator.ts\<close>): who gets deliveries, how much SOL is held back
  for them, how the rest is divided among the coins, and the state that is written down. The two
  reads of the chain, the token accounts and the supplies, are answers from outside.
\<close>

section \<open>The request\<close>

record RecipientEntry =
  ry_wallet :: wallet
  ry_amount :: number
  ry_lamports :: "string option"
  ry_burnBps :: "number option"
  ry_burnWeight :: "string option"

record TokenEntry =
  te_mint :: mint
  te_totalSol :: number
  te_recipients :: "RecipientEntry list"

section \<open>Reserve and budget\<close>

definition calculateSendReserve :: "(int \<times> bool) list \<Rightarrow> number" where
  "calculateSendReserve ss =
     foldl (\<lambda>acc (sendN, hasAta). fadd acc (fadd (fmul (of_int sendN) TX_FEE_SOL) (if hasAta then 0 else ATA_FEE_SOL))) 0 ss"

fun budget_parts :: "number \<Rightarrow> number \<Rightarrow> number list \<Rightarrow> number \<Rightarrow> number list" where
  "budget_parts budget totalRequested [] spent = []"
| "budget_parts budget totalRequested [sol] spent = [round9 (fsub budget spent)]"
| "budget_parts budget totalRequested (sol # sols) spent =
     (let rounded = round9 (fmul (fdiv sol totalRequested) budget)
      in rounded # budget_parts budget totalRequested sols (fadd spent rounded))"

definition distributeBuyBudget :: "number list \<Rightarrow> number \<Rightarrow> number list" where
  "distributeBuyBudget sols budget =
     (let totalRequested = foldl fadd 0 sols
      in if length sols = 0 then []
         else if totalRequested \<le> 0 then map (\<lambda>_. 0) sols
         else budget_parts budget totalRequested sols 0)"

section \<open>The choices of a backer\<close>

definition stakeLamportsOf :: "RecipientEntry \<Rightarrow> bigint" where
  "stakeLamportsOf r =
     (case ry_lamports r of
        Some s \<Rightarrow> if all_digits s then bigint_of s else js_round (fmul (ry_amount r) 1000000000)
      | None \<Rightarrow> js_round (fmul (ry_amount r) 1000000000))"

definition burnWeightOfEntry :: "RecipientEntry \<Rightarrow> bigint" where
  "burnWeightOfEntry r = burnWeightOf (stakeLamportsOf r) (ry_burnWeight r) (ry_burnBps r)"

definition burnsEverything :: "RecipientEntry \<Rightarrow> bool" where
  "burnsEverything r \<longleftrightarrow> 0 < stakeLamportsOf r \<and> burnWeightOfEntry r = stakeLamportsOf r * 10000"

definition delivery_recipients :: "TokenEntry \<Rightarrow> RecipientEntry list" where
  "delivery_recipients t = filter (\<lambda>r. \<not> burnsEverything r) (te_recipients t)"

section \<open>The deliveries and what they may cost\<close>

definition delivery_key :: "mint \<Rightarrow> wallet \<Rightarrow> string" where
  "delivery_key mnt recipient = mnt @ '':'' @ recipient"

text \<open>\<open>snapshotRecipientAtas\<close>: \<open>account\<close> is \<open>None\<close> where a request threw.\<close>

definition snapshotRecipientAtas ::
  "(mint \<Rightarrow> wallet \<Rightarrow> bool option) \<Rightarrow> TokenEntry list \<Rightarrow> (string, bool) jmap" where
  "snapshotRecipientAtas account tokens =
     foldl (\<lambda>m (mnt, recipient). jm_set (delivery_key mnt recipient)
         (case account mnt recipient of Some exists \<Rightarrow> exists | None \<Rightarrow> False) m) []
       (concat (map (\<lambda>t. map (\<lambda>r. (te_mint t, ry_wallet r)) (delivery_recipients t)) tokens))"

definition count_recipient :: "(string, int \<times> bool) jmap \<Rightarrow> SendRecord \<Rightarrow> (string, int \<times> bool) jmap" where
  "count_recipient m s =
     (let key = delivery_key (s_mint s) (s_recipient s)
      in jm_set key (case jm_get m key of
           Some (sendN, hasAta) \<Rightarrow> (sendN + 1, hasAta)
         | None \<Rightarrow> (1, s_hadAta s = Some True)) m)"

definition uniqueRecipients :: "SendRecord list \<Rightarrow> (string, int \<times> bool) jmap" where
  "uniqueRecipients ss = foldl count_recipient [] ss"

definition BURN_EXTRA_PASSES :: int where "BURN_EXTRA_PASSES = 4"

definition burn_reserve :: "TokenEntry list \<Rightarrow> int \<Rightarrow> number" where
  "burn_reserve tokens rounds =
     (let burningCoins = length (filter (\<lambda>t. list_ex (\<lambda>r. 0 < burnWeightOfEntry r) (te_recipients t)) tokens)
      in fmul (fmul (of_nat burningCoins) (of_int (rounds + BURN_EXTRA_PASSES))) TX_FEE_SOL)"

definition show_int :: "bigint \<Rightarrow> string" where
  "show_int n = (if n < 0 then CHR ''-'' # show_nat (- n) else show_nat n)"

definition recipient_stake :: "RecipientEntry \<Rightarrow> RecipientStake" where
  "recipient_stake r =
     (let stake = stakeLamportsOf r; weight = burnWeightOfEntry r
      in \<lparr>rs_wallet = ry_wallet r, rs_stakeLamports = show_int stake,
          rs_burnBps = (if 0 < stake then fdiv (to_number (bdiv (weight * 100) stake)) 100 else 0),
          rs_burnWeight = Some (show_int weight)\<rparr>)"

definition token_buy :: "millis \<Rightarrow> TokenEntry \<Rightarrow> number \<Rightarrow> TokenBuyRecord" where
  "token_buy now t adjusted =
     \<lparr>t_mint = te_mint t, t_target = Some (te_totalSol t), t_adjusted = adjusted, t_status = TPending, t_runId = None,
      t_file = None, t_files = [], t_spentSol = None, t_attempts = None, t_error = None,
      t_recipients = map recipient_stake (te_recipients t), t_burnedRaw = None, t_burnBlocked = None,
      t_supplyAtStart = None, t_supplyAtEnd = None, t_decimals = None, t_updatedAt = now\<rparr>"

definition prepared_sends :: "millis \<Rightarrow> (mint \<Rightarrow> wallet \<Rightarrow> bool option) \<Rightarrow> int \<Rightarrow> TokenEntry list \<Rightarrow> SendRecord list" where
  "prepared_sends now account rounds tokens =
     generateSendRecords now rounds (Some (snapshotRecipientAtas account tokens))
       (map (\<lambda>t. (te_mint t, map (\<lambda>r. (ry_wallet r, ry_amount r)) (delivery_recipients t))) tokens)"

definition send_reserve :: "SendRecord list \<Rightarrow> TokenEntry list \<Rightarrow> int \<Rightarrow> number" where
  "send_reserve ss tokens rounds = fadd (calculateSendReserve (jm_values (uniqueRecipients ss))) (burn_reserve tokens rounds)"

definition prepare_round ::
  "millis \<Rightarrow> (mint \<Rightarrow> wallet \<Rightarrow> bool option) \<Rightarrow> string \<Rightarrow> TokenEntry list \<Rightarrow> LotteryConfig \<Rightarrow> LotteryState" where
  "prepare_round now account i tokens cfg =
     (let ss = prepared_sends now account (sendRounds cfg) tokens;
          reserve = send_reserve ss tokens (sendRounds cfg);
          totSol = foldl fadd 0 (map te_totalSol tokens);
          budget = max 0 (fsub totSol reserve);
          adjusted = distributeBuyBudget (map te_totalSol tokens) budget
      in \<lparr>lotteryId = i, totalSol = totSol, sendReserve = reserve, buyBudget = budget, l_config = cfg,
          tokenBuys = map2 (token_buy now) tokens adjusted, sends = ss, refunds = [], burns = [], purchaseTokens = [],
          l_summary = \<lparr>tokensBoughtN = 0, tokensFailed = 0, sendsTotal = int (length ss), sendsCompleted = 0,
            sendsSatisfied = 0, sendsAbandoned = 0, sendsAtaMismatch = 0, ls_startedAt = now, ls_finishedAt = None\<rparr>,
          l_metrics = None\<rparr>)"


section \<open>What is written down is what was asked\<close>

lemma parts_length: "length (budget_parts b tr sols spent) = length sols"
  by (induction b tr sols spent rule: budget_parts.induct) (simp_all add: Let_def)

lemma budget_length: "length (distributeBuyBudget sols budget) = length sols"
  by (simp add: distributeBuyBudget_def Let_def parts_length)

lemma find_prepared:
  assumes "distinct (map te_mint tokens)" "t \<in> set tokens" "length adjusted = length tokens"
  shows "\<exists>x. List.find (\<lambda>b. t_mint b = te_mint t) (map2 (token_buy now) tokens adjusted) = Some (token_buy now t x)"
  using assms
proof (induction tokens arbitrary: adjusted)
  case (Cons u us)
  then obtain a as where "adjusted = a # as" "length as = length us" by (cases adjusted) auto
  then show ?case using Cons by (cases "u = t") (auto simp: token_buy_def)
qed simp

definition entry_share :: "RecipientEntry \<Rightarrow> Share" where
  "entry_share r = \<lparr>sh_wallet = ry_wallet r, sh_stake = stakeLamportsOf r, sh_burn = burnWeightOfEntry r\<rparr>"

lemma stake_read:
  assumes "0 < stakeLamportsOf r"
  shows "fromStake (recipient_stake r) = entry_share r"
proof -
  have w: "0 \<le> burnWeightOfEntry r" "burnWeightOfEntry r \<le> stakeLamportsOf r * FULL_BPS"
    using burnWeightOf_clamped [of "stakeLamportsOf r"] assms by (simp_all add: burnWeightOfEntry_def)
  then have "burnWeightOf (stakeLamportsOf r) (Some (show_int (burnWeightOfEntry r))) b = burnWeightOfEntry r" for b
    by (simp add: burnWeightOf_def Let_def show_int_def show_nat_digits bigint_of_show_nat)
  then show ?thesis
    using assms
    by (simp add: fromStake_def recipient_stake_def Let_def entry_share_def show_int_def show_nat_digits bigint_of_show_nat)
qed

lemma stakes_kept:
  assumes "distinct (map ry_wallet rs)" "\<And>r. r \<in> set rs \<Longrightarrow> 0 < stakeLamportsOf r"
    "ry_wallet ` set rs \<inter> fst ` set m = {}"
  shows "foldl add_stake m (map recipient_stake rs) = m @ map (\<lambda>r. (ry_wallet r, entry_share r)) rs"
  using assms
proof (induction rs arbitrary: m)
  case (Cons r rs)
  have g: "jm_get m (ry_wallet r) = None" using Cons.prems(3) by (auto simp: jm_get_def map_of_eq_None_iff)
  have "add_stake m (recipient_stake r) = m @ [(ry_wallet r, entry_share r)]"
    using g stake_read [of r] Cons.prems(2) [of r] by (simp add: add_stake_def Let_def entry_share_def jm_set_absent)
  moreover have "foldl add_stake (m @ [(ry_wallet r, entry_share r)]) (map recipient_stake rs) =
      (m @ [(ry_wallet r, entry_share r)]) @ map (\<lambda>r. (ry_wallet r, entry_share r)) rs"
    by (rule Cons.IH) (use Cons.prems in auto)
  ultimately show ?case by simp
qed simp

text \<open>C7: what the backers asked for survives the round file. Stake and burn weight go into the
  state as decimal strings; read back by \<open>sharesOf\<close>, which burns, deliveries and top-ups divide
  by, they are exactly the lamports and the weight of the request, for every coin and every backer, in the order
  of the request.\<close>

theorem stake_roundtrip:
  assumes coins: "distinct (map te_mint tokens)" and t: "t \<in> set tokens" "te_recipients t \<noteq> []"
    and wallets: "distinct (map ry_wallet (te_recipients t))"
    and stakes: "\<And>r. r \<in> set (te_recipients t) \<Longrightarrow> 0 < stakeLamportsOf r"
  shows "sharesOf (prepare_round now account i tokens cfg) (te_mint t) =
    map (\<lambda>r. \<lparr>sh_wallet = ry_wallet r, sh_stake = stakeLamportsOf r, sh_burn = burnWeightOfEntry r\<rparr>) (te_recipients t)"
proof -
  let ?st = "prepare_round now account i tokens cfg"
  obtain adjusted where a: "tokenBuys ?st = map2 (token_buy now) tokens adjusted" "length adjusted = length tokens"
    by (simp add: prepare_round_def Let_def budget_length)
  obtain x where "List.find (\<lambda>b. t_mint b = te_mint t) (tokenBuys ?st) = Some (token_buy now t x)"
    using find_prepared [OF coins t(1) a(2)] a(1) by fastforce
  then have "sharesOf ?st (te_mint t) = jm_values (foldl add_stake [] (map recipient_stake (te_recipients t)))"
    using t(2) by (simp add: sharesOf_def token_buy_def)
  also have "foldl add_stake [] (map recipient_stake (te_recipients t)) =
      map (\<lambda>r. (ry_wallet r, entry_share r)) (te_recipients t)"
    using stakes_kept [OF wallets stakes, of "[]"] by simp
  finally show ?thesis by (simp add: jm_values_def entry_share_def comp_def)
qed

definition two_backers :: "TokenEntry list" where
  "two_backers = [\<lparr>te_mint = ''m'', te_totalSol = 3, te_recipients =
     [\<lparr>ry_wallet = ''a'', ry_amount = 1, ry_lamports = Some ''1000000000'', ry_burnBps = Some 2500, ry_burnWeight = None\<rparr>,
      \<lparr>ry_wallet = ''b'', ry_amount = 2, ry_lamports = None, ry_burnBps = None, ry_burnWeight = Some ''77''\<rparr>]\<rparr>]"

theorem stake_roundtrip_witness:
  "sharesOf (prepare_round 0 (\<lambda>_ _. Some True) ''1'' two_backers
      \<lparr>buyConcurrency = 1, sendConcurrency = 1, buyWindowMinutes = 10, sendRounds = 1\<rparr>) ''m'' =
    [\<lparr>sh_wallet = ''a'', sh_stake = 1000000000, sh_burn = 2500000000000\<rparr>, \<lparr>sh_wallet = ''b'', sh_stake = 2000000000, sh_burn = 77\<rparr>]"
proof -
  have facts: "map stakeLamportsOf (te_recipients (hd two_backers)) = [1000000000, 2000000000]"
    "map burnWeightOfEntry (te_recipients (hd two_backers)) = [2500000000000, 77]"
    "map ry_wallet (te_recipients (hd two_backers)) = [''a'', ''b'']"
    by code_simp+
  have shape: "two_backers = [hd two_backers]" "te_mint (hd two_backers) = ''m''" by (simp_all add: two_backers_def)
  have pos: "0 < stakeLamportsOf r" if "r \<in> set (te_recipients (hd two_backers))" for r
  proof -
    have "stakeLamportsOf r \<in> set (map stakeLamportsOf (te_recipients (hd two_backers)))" using that by simp
    then show ?thesis unfolding facts(1) by auto
  qed
  from stake_roundtrip [of two_backers "hd two_backers", OF _ _ _ _ pos] facts show ?thesis
    by (simp add: two_backers_def)
qed

end
