(* ===== verification/Batch_Transfer.thy ===== *)
theory Batch_Transfer
  imports Round_World
begin

text \<open>
  The transaction that carries up to five deliveries (\<open>orchestrator/batchTransfer.ts\<close>) and its
  signing and sending (\<open>solana/transaction.ts\<close>). Instructions are the ones the code asks the token
  library for; the caches of the program, the decimals and the epoch only repeat an earlier answer and
  are left to the answers. The properties: the transaction transfers to every recipient exactly its
  amount, and what arrives is never more than what was sent.
\<close>

section \<open>Building\<close>

datatype send_instruction =
    ComputeLimit number
  | ComputePrice number
  | CreateAta wallet
  | TransferChecked wallet bigint
  | TransferWithFee wallet bigint bigint
  | TransferWithHook wallet bigint
  | TransferWithFeeAndHook wallet bigint bigint

record BatchSendResult =
  bs_tx :: "send_instruction list"
  bs_delivered :: "bigint list"

definition transfer_fee :: "mint_report \<Rightarrow> bigint \<Rightarrow> bigint \<Rightarrow> bigint" where
  "transfer_fee report epoch amount = (case mr_fee report of Some fee \<Rightarrow> fee epoch amount | None \<Rightarrow> 0)"

text \<open>The instruction for one recipient. The two builders for a hook read the chain and may throw.\<close>

definition transfer_instruction ::
  "round_env \<Rightarrow> nat \<Rightarrow> mint_report \<Rightarrow> bigint \<Rightarrow> wallet \<times> bigint \<Rightarrow> js_error + send_instruction" where
  "transfer_instruction env k report epoch r =
     (let fee = transfer_fee report epoch (snd r) in
      if mr_hook report
      then case re_hook env k (fst r) of
          Some e \<Rightarrow> Inl e
        | None \<Rightarrow> Inr (if mr_fee report \<noteq> None then TransferWithFeeAndHook (fst r) (snd r) fee
                      else TransferWithHook (fst r) (snd r))
      else Inr (if mr_fee report \<noteq> None then TransferWithFee (fst r) (snd r) fee else TransferChecked (fst r) (snd r)))"

fun recipient_instructions ::
  "round_env \<Rightarrow> nat \<Rightarrow> mint_report \<Rightarrow> bigint \<Rightarrow> (wallet \<times> bigint) list \<Rightarrow> js_error + send_instruction list" where
  "recipient_instructions env k report epoch [] = Inr []"
| "recipient_instructions env k report epoch (r # rs) =
     (case transfer_instruction env k report epoch r of
        Inl e \<Rightarrow> Inl e
      | Inr ix \<Rightarrow> (case recipient_instructions env (k + 1) report epoch rs of
            Inl e \<Rightarrow> Inl e
          | Inr ixs \<Rightarrow> Inr (CreateAta (fst r) # ix # ixs)))"

definition buildBatchSendTransaction ::
  "round_env \<Rightarrow> settings \<Rightarrow> mint \<Rightarrow> (wallet \<times> bigint) list \<Rightarrow> rworld \<Rightarrow> (js_error + BatchSendResult) \<times> rworld" where
  "buildBatchSendTransaction env cfg mnt recipients w =
     (let k = rw_step w;
          w' = w\<lparr>rw_step := k + 5 + length recipients\<rparr>
      in (if length recipients = 0 then Inl (plain_error ''No recipients provided'')
          else if 5 < length recipients
          then Inl (plain_error (''Too many recipients: '' @ show_nat (int (length recipients)) @ '' (max 5)''))
          else case re_program env k mnt of
            None \<Rightarrow> Inl (plain_error (''Mint account not found: '' @ mnt))
          | Some program \<Rightarrow>
          (case re_decimals env (k + 1) mnt of
            None \<Rightarrow> Inl (plain_error ''TokenAccountNotFoundError'')
          | Some decimals \<Rightarrow>
          (case re_inspect env (k + 2) mnt of
            Inl e \<Rightarrow> Inl e
          | Inr report \<Rightarrow>
              if 0 < length (mr_blockers report)
              then Inl (plain_error (''Mint cannot be distributed: '' @ join ''; '' (mr_blockers report)))
              else case (if mr_fee report \<noteq> None then re_epoch env (k + 3) else Inr 0) of
                Inl e \<Rightarrow> Inl e
              | Inr epoch \<Rightarrow>
              (case recipient_instructions env (k + 4) report epoch recipients of
                Inl e \<Rightarrow> Inl e
              | Inr ixs \<Rightarrow>
                  let (units, price) = budgetInstructions cfg PathDelivery
                        (deliveryComputeUnits (of_nat (length recipients)))
                        (re_price env (k + 4 + length recipients)) None None
                  in Inr \<lparr>bs_tx = [ComputeLimit units, ComputePrice price] @ ixs,
                       bs_delivered = map (\<lambda>r. snd r - transfer_fee report epoch (snd r)) recipients\<rparr>))), w'))"

lemma build_world:
  "buildBatchSendTransaction env cfg mnt rs w = (x, w') \<Longrightarrow> w' = w\<lparr>rw_step := rw_step w + 5 + length rs\<rparr>"
  by (simp add: buildBatchSendTransaction_def Let_def)

section \<open>Signing and sending\<close>

text \<open>\<open>sendTransaction\<close>: \<open>on_signed\<close> runs between the signature and the first send.\<close>

definition sendTransaction ::
  "round_env \<Rightarrow> (signature \<Rightarrow> int option \<Rightarrow> rworld \<Rightarrow> rworld) \<Rightarrow> rworld \<Rightarrow> (js_error + signature) \<times> rworld" where
  "sendTransaction env onSigned w =
     (case re_sign env (rw_step w) of
        Inl e \<Rightarrow> (Inl e, r_tick w)
      | Inr (sig, limit) \<Rightarrow>
          let w1 = onSigned sig limit (r_tick w)
          in (sendSignedTransaction env (rw_step w1) sig limit, r_tick w1))"

section \<open>What the transaction does\<close>

text \<open>The transfers of a transaction: who, how much, and what is withheld.\<close>

fun transfers_of :: "send_instruction list \<Rightarrow> (wallet \<times> bigint \<times> bigint) list" where
  "transfers_of [] = []"
| "transfers_of (TransferChecked w a # ixs) = (w, a, 0) # transfers_of ixs"
| "transfers_of (TransferWithFee w a f # ixs) = (w, a, f) # transfers_of ixs"
| "transfers_of (TransferWithHook w a # ixs) = (w, a, 0) # transfers_of ixs"
| "transfers_of (TransferWithFeeAndHook w a f # ixs) = (w, a, f) # transfers_of ixs"
| "transfers_of (ix # ixs) = transfers_of ixs"

lemma transfer_instruction_cases:
  assumes "transfer_instruction env k report epoch r = Inr ix"
  shows "transfers_of (ix # ixs) = (fst r, snd r, transfer_fee report epoch (snd r)) # transfers_of ixs"
  using assms
  by (auto simp: transfer_instruction_def transfer_fee_def Let_def split: if_splits option.splits)

lemma recipient_transfers:
  "recipient_instructions env k report epoch rs = Inr ixs \<Longrightarrow>
    transfers_of ixs = map (\<lambda>r. (fst r, snd r, transfer_fee report epoch (snd r))) rs"
proof (induction rs arbitrary: k ixs)
  case (Cons r rs)
  then obtain ix more where "transfer_instruction env k report epoch r = Inr ix"
    "recipient_instructions env (k + 1) report epoch rs = Inr more" "ixs = CreateAta (fst r) # ix # more"
    by (auto split: sum.splits)
  with Cons.IH [of "k + 1" more] transfer_instruction_cases [of env k report epoch r ix more] show ?case
    by simp
qed simp

text \<open>C18: a delivery transaction that gets built carries one transfer per recipient, in order and of exactly
  the amount asked, between one and five of them, and the amounts reported as delivered are those less
  the fee each transfer withholds. A coin with a reason against delivery never gets a transaction.\<close>

theorem batch_transfers:
  assumes "buildBatchSendTransaction env cfg mnt recipients w = (Inr result, w')"
  shows "map (\<lambda>(wal, a, f). (wal, a)) (transfers_of (bs_tx result)) = recipients \<and>
    bs_delivered result = map (\<lambda>(wal, a, f). a - f) (transfers_of (bs_tx result)) \<and>
    1 \<le> length recipients \<and> length recipients \<le> 5 \<and>
    (\<exists>k report. re_inspect env k mnt = Inr report \<and> mr_blockers report = [])"
proof -
  from assms obtain report epoch ixs units price where
    len: "length recipients \<noteq> 0" "length recipients \<le> 5"
    and report: "re_inspect env (rw_step w + 2) mnt = Inr report" "mr_blockers report = []"
    and ixs: "recipient_instructions env (rw_step w + 4) report epoch recipients = Inr ixs"
    and result: "result = \<lparr>bs_tx = [ComputeLimit units, ComputePrice price] @ ixs,
      bs_delivered = map (\<lambda>r. snd r - transfer_fee report epoch (snd r)) recipients\<rparr>"
    by (auto simp: buildBatchSendTransaction_def Let_def split: if_splits option.splits sum.splits prod.splits)
  have "transfers_of (bs_tx result) = map (\<lambda>r. (fst r, snd r, transfer_fee report epoch (snd r))) recipients"
    using recipient_transfers [OF ixs] by (simp add: result)
  with len report show ?thesis by (auto simp: result comp_def split_beta Suc_le_eq)
qed

theorem batch_transfers_witness:
  "(\<exists>result w'. buildBatchSendTransaction a_node (\<lambda>_. None) ''m'' [(''a'', 5), (''b'', 7)]
      \<lparr>rw_mgr = coin_read, rw_step = 0, rw_signed = [], rw_sent = []\<rparr> = (Inr result, w') \<and>
    map (\<lambda>(wal, a, f). (wal, a)) (transfers_of (bs_tx result)) = [(''a'', 5), (''b'', 7)] \<and> bs_delivered result = [5, 7])"
proof -
  let ?w = "\<lparr>rw_mgr = coin_read, rw_step = 0, rw_signed = [], rw_sent = []\<rparr>"
  obtain result w' where r: "buildBatchSendTransaction a_node (\<lambda>_. None) ''m'' [(''a'', 5), (''b'', 7)] ?w = (Inr result, w')"
    "bs_delivered result = [5, 7]"
    by (simp add: buildBatchSendTransaction_def a_node_def transfer_instruction_def transfer_fee_def budgetInstructions_def)
  with batch_transfers [OF r(1)] show ?thesis by (intro exI [of _ result] exI [of _ w']) simp
qed

end
