(* ===== verification/Sends.thy ===== *)
theory Sends
  imports Burns Batch_Transfer Deficit
begin

text \<open>
  The delivery rounds (\<open>orchestrator/sendRounds.ts\<close>, \<open>executeSendRounds\<close>). The arrays of the code
  hold the live records of the round's state, so the model passes identifiers and reads the record
  where the code reads a field. The batches of a round are started under a semaphore and touch
  disjoint records; the model runs each where it is started. A request outside the code's own
  \<open>try\<close> ends the whole function, which is the first component of the result. The batch files
  change while purchases run, so the loader is taken at the step it is used.
\<close>

section \<open>Small parts\<close>

definition isBatchTooLargeError :: "js_error \<Rightarrow> bool" where
  "isBatchTooLargeError e \<longleftrightarrow>
     str_includes (emsg e) ''ComputeBudget'' \<or> str_includes (emsg e) ''compute units exceeded'' \<or>
     str_includes (emsg e) ''Compute units exceeded'' \<or> str_includes (emsg e) ''exceeded CUs'' \<or>
     str_includes (emsg e) ''Transaction too large'' \<or> str_includes (emsg e) ''encoding overruns''"

definition MAX_SEND_ATTEMPTS :: int where "MAX_SEND_ATTEMPTS = 3"

definition getTokenBalance :: "round_env \<Rightarrow> mint \<Rightarrow> rworld \<Rightarrow> bigint \<times> rworld" where
  "getTokenBalance env mnt w =
     (case re_program env (rw_step w) mnt of
        None \<Rightarrow> (0, r_tick w)
      | Some program \<Rightarrow> ((case re_balance env (rw_step w + 1) mnt of Some b \<Rightarrow> b | None \<Rightarrow> 0), r_tick (r_tick w)))"

definition up_send :: "round_env \<Rightarrow> string \<Rightarrow> (SendRecord \<Rightarrow> SendRecord) \<Rightarrow> rworld \<Rightarrow> rworld" where
  "up_send env i f w = r_mut env (\<lambda>now. updateSend now i f) w"

definition for_each :: "(string \<Rightarrow> rworld \<Rightarrow> rworld) \<Rightarrow> string list \<Rightarrow> rworld \<Rightarrow> rworld" where
  "for_each f ids w = fold f ids w"

definition the_send :: "string \<Rightarrow> rworld \<Rightarrow> SendRecord" where
  "the_send i w = the (getSend i (rw_mgr w))"

section \<open>A transaction that may have landed\<close>

datatype SendVerdict = DoSend | Settled | FateUnknown

definition checkPendingSend :: "round_env \<Rightarrow> string \<Rightarrow> rworld \<Rightarrow> SendVerdict \<times> rworld" where
  "checkPendingSend env i w =
     (let s = the_send i w in
      if \<not> truthy_string (s_pending s) then (DoSend, w)
      else let sig = the (s_pending s);
               (outcome, w1) = ask_signature env sig (s_limit s) w
      in case outcome of
          UnknownYet \<Rightarrow> (FateUnknown, r_metric ''send.pendingCheckFailed'' 1 w1)
        | FailedOnChain \<Rightarrow> (DoSend, up_send env i (\<lambda>r. r\<lparr>s_failedSigs := s_failedSigs r @ [sig],
              s_pending := None, s_limit := None\<rparr>) w1)
        | Absent \<Rightarrow> (DoSend, up_send env i (\<lambda>r. r\<lparr>s_pending := None, s_limit := None\<rparr>) w1)
        | Landed \<Rightarrow> (Settled, r_metric ''send.pendingTxConfirmed'' 1
              (up_send env i (\<lambda>r. r\<lparr>s_status := SCompleted, s_signature := Some sig, s_pending := None,
                 s_limit := None, s_gross := s_amount r\<rparr>) w1)))"

fun check_all :: "round_env \<Rightarrow> string list \<Rightarrow> string list \<Rightarrow> rworld \<Rightarrow> string list \<times> rworld" where
  "check_all env [] skip w = (skip, w)"
| "check_all env (i # is) skip w =
     (let (verdict, w1) = checkPendingSend env i w
      in check_all env is (if verdict = FateUnknown then skip @ [i] else skip) w1)"

section \<open>One batch\<close>

definition mark_batch :: "round_env \<Rightarrow> (string, bigint) jmap \<Rightarrow> string list \<Rightarrow> rworld \<Rightarrow> rworld" where
  "mark_batch env amounts = for_each (\<lambda>i. up_send env i (\<lambda>r. r\<lparr>s_status := SInProgress, s_amount := jm_get amounts i\<rparr>))"

text \<open>The callback between signing and sending; \<open>rw_sent\<close> remembers the signed batch.\<close>

definition on_signed ::
  "round_env \<Rightarrow> (string, bigint) jmap \<Rightarrow> string list \<Rightarrow> signature \<Rightarrow> int option \<Rightarrow> rworld \<Rightarrow> rworld" where
  "on_signed env amounts ids sig limit w =
     for_each (\<lambda>i. up_send env i (\<lambda>r. r\<lparr>s_pending := Some sig, s_limit := limit\<rparr>)) ids
       (w\<lparr>rw_sent := rw_sent w @ [(sig, limit, map (\<lambda>i. (i, get_or0 amounts i)) ids)]\<rparr>)"

definition complete_batch ::
  "round_env \<Rightarrow> (string, bigint) jmap \<Rightarrow> bool \<Rightarrow> signature \<Rightarrow> (string \<times> bigint) list \<Rightarrow> rworld \<Rightarrow> rworld" where
  "complete_batch env amounts isSweep sig parts w =
     (let w1 = fold (\<lambda>(i, arrived). up_send env i (\<lambda>r. r\<lparr>s_status := SCompleted, s_signature := Some sig,
            s_pending := None, s_limit := None, s_amount := Some arrived, s_gross := jm_get amounts i,
            s_attempts := s_attempts r + 1\<rparr>)) parts w
      in if isSweep then r_metric ''sweep.sendCompleted'' (int (length parts)) w1 else w1)"

definition drop_tried :: "round_env \<Rightarrow> js_error \<Rightarrow> string list \<Rightarrow> rworld \<Rightarrow> rworld" where
  "drop_tried env e ids w =
     (let tried = (if epost e then esig e else None)
      in r_metric ''send.computeLimitSplit'' 1
        (for_each (\<lambda>i. up_send env i (\<lambda>r. r\<lparr>
            s_failedSigs := (if truthy_string tried then s_failedSigs r @ [the tried] else s_failedSigs r),
            s_pending := None, s_limit := None\<rparr>)) ids w))"

definition fail_batch :: "round_env \<Rightarrow> bool \<Rightarrow> js_error \<Rightarrow> string list \<Rightarrow> rworld \<Rightarrow> rworld" where
  "fail_batch env isSweep e ids w =
     (if error_class_of e = NonRetryable
      then for_each (\<lambda>i w. r_metric ''send.nonRetryableAbandon'' 1
             (up_send env i (\<lambda>r. r\<lparr>s_status := SAbandoned, s_error := Some (emsg e), s_attempts := s_attempts r + 1\<rparr>) w)) ids w
      else let named = epost e \<and> truthy_string (esig e);
               first = the_send (hd ids) w;
               pendingSignature = (if named then esig e else s_pending first);
               pendingLimit = (if named then elimit e else s_limit first);
               w1 = for_each (\<lambda>i w.
                 if MAX_SEND_ATTEMPTS \<le> s_attempts (the_send i w) + 1
                 then r_metric ''send.maxAttemptsAbandon'' 1 (up_send env i (\<lambda>r. r\<lparr>s_status := SAbandoned,
                        s_error := Some (emsg e), s_attempts := s_attempts r + 1,
                        s_pending := pendingSignature, s_limit := pendingLimit\<rparr>) w)
                 else r_metric ''send.retryableToPending'' 1 (up_send env i (\<lambda>r. r\<lparr>s_status := SPending,
                        s_error := Some (emsg e), s_attempts := s_attempts r + 1,
                        s_pending := pendingSignature, s_limit := pendingLimit\<rparr>) w)) ids w
           in if isSweep then r_metric ''sweep.sendFailed'' (int (length ids)) w1 else w1)"

text \<open>What one attempt at a batch came to: the error it ended in, if it did.\<close>

definition try_batch ::
  "round_env \<Rightarrow> settings \<Rightarrow> mint \<Rightarrow> (string, bigint) jmap \<Rightarrow> bool \<Rightarrow> string list \<Rightarrow> rworld \<Rightarrow> js_error option \<times> rworld" where
  "try_batch env cfg mnt amounts isSweep ids w =
     (let recipients = map (\<lambda>i. (s_recipient (the_send i w), get_or0 amounts i)) ids;
          w1 = mark_batch env amounts ids w
      in case buildBatchSendTransaction env cfg mnt recipients w1 of
          (Inl e, w2) \<Rightarrow> (Some e, w2)
        | (Inr result, w2) \<Rightarrow>
            (case sendTransaction env (on_signed env amounts ids) w2 of
               (Inl e, w3) \<Rightarrow> (Some e, w3)
             | (Inr sig, w3) \<Rightarrow> (None, complete_batch env amounts isSweep sig (zip ids (bs_delivered result)) w3)))"

lemma half_less: "1 < n \<Longrightarrow> (n + 1) div 2 < (n :: nat)"
  by presburger

function sendBatch ::
  "round_env \<Rightarrow> settings \<Rightarrow> mint \<Rightarrow> (string, bigint) jmap \<Rightarrow> bool \<Rightarrow> string list \<Rightarrow> string list \<Rightarrow> rworld \<Rightarrow> rworld" where
  "sendBatch env cfg mnt amounts isSweep skipUnknown entries w =
     (let ids = filter (\<lambda>i. i \<notin> set skipUnknown) entries in
      if ids = [] then w
      else case try_batch env cfg mnt amounts isSweep ids w of
          (None, w1) \<Rightarrow> w1
        | (Some e, w1) \<Rightarrow>
            if isBatchTooLargeError e \<and> 1 < length ids
            then let mid = (length ids + 1) div 2;
                     w2 = sendBatch env cfg mnt amounts isSweep skipUnknown (take mid ids) (drop_tried env e ids w1)
                 in sendBatch env cfg mnt amounts isSweep skipUnknown (drop mid ids) w2
            else fail_batch env isSweep e ids w1)"
  by pat_completeness auto
termination
proof (relation "measure (\<lambda>(env, cfg, mnt, amounts, sweep, skip, entries, w). length entries)", goal_cases)
  case 1
  then show ?case by simp
next
  case (2 env cfg mnt amounts sweep skip entries w ids x e w1 mid)
  have "length (take mid ids) < length ids" using 2 half_less [of "length ids"] by simp
  also have "length ids \<le> length entries" by (simp add: 2(1))
  finally show ?case by simp
next
  case (3 env cfg mnt amounts sweep skip entries w ids x e w1 mid w2)
  have "length (drop mid ids) < length ids" using 3 by simp
  also have "length ids \<le> length entries" by (simp add: 3(1))
  finally show ?case by simp
qed

declare sendBatch.simps [simp del]

section \<open>One coin of a round\<close>

text \<open>The rules about token accounts that vanished, wallet by wallet. \<open>recSends\<close> are the pending
  records of the wallet; the request for the account is the one that can throw.\<close>

definition rule_for_wallet ::
  "round_env \<Rightarrow> mint \<Rightarrow> bool \<Rightarrow> wallet \<Rightarrow> string list \<Rightarrow> rworld \<Rightarrow> (js_error + string list) \<times> rworld" where
  "rule_for_wallet env mnt lastRound recipient recSends w =
     (let sample = the_send (hd recSends) w;
          hadAtaAtStart = (s_hadAta sample = Some True);
          n = int (length recSends)
      in case (if hadAtaAtStart then re_account env (rw_step w) mnt recipient else Some True) of
          None \<Rightarrow> (Inl (plain_error ''getAccountInfo''), r_tick w)
        | Some hasAtaNow \<Rightarrow>
            (let w1 = (if hadAtaAtStart then r_tick w else w);
                 gone = (hadAtaAtStart \<and> \<not> hasAtaNow)
             in if s_betSol sample < 1
                then if gone \<and> s_betSol sample < 1 / 2
                     then (Inr [], r_metric ''send.ataMismatchBlocked'' n
                            (for_each (\<lambda>i. up_send env i (\<lambda>r. r\<lparr>s_status := SAtaMismatch, s_ataMismatch := Some True,
                               s_error := Some ''ATA_MISMATCH''\<rparr>)) recSends w1))
                     else (Inr recSends, if gone then r_metric ''send.ataForgiven'' n w1 else w1)
                else if gone \<and> \<not> lastRound then (Inr [], r_metric ''send.ataDeferred'' n w1)
                else (Inr recSends, if gone then r_metric ''send.ataDeferredSent'' n w1 else w1)))"

fun allow_wallets ::
  "round_env \<Rightarrow> mint \<Rightarrow> bool \<Rightarrow> wallet list \<Rightarrow> (wallet, string list) jmap \<Rightarrow> string list \<Rightarrow> rworld \<Rightarrow>
    (js_error + string list) \<times> rworld" where
  "allow_wallets env mnt lastRound unsure [] allowed w = (Inr allowed, w)"
| "allow_wallets env mnt lastRound unsure ((recipient, recSends) # rest) allowed w =
     (if recipient \<in> set unsure then allow_wallets env mnt lastRound unsure rest allowed w
      else case rule_for_wallet env mnt lastRound recipient recSends w of
          (Inl e, w1) \<Rightarrow> (Inl e, w1)
        | (Inr ids, w1) \<Rightarrow> allow_wallets env mnt lastRound unsure rest (allowed @ ids) w1)"

definition group_by :: "(string \<Rightarrow> 'k) \<Rightarrow> string list \<Rightarrow> ('k, string list) jmap" where
  "group_by key ids = foldl (\<lambda>m i. jm_set (key i)
     ((case jm_get m (key i) of Some xs \<Rightarrow> xs | None \<Rightarrow> []) @ [i]) m) [] ids"

definition coin_amounts ::
  "round_env \<Rightarrow> (nat \<Rightarrow> BatchLoader) \<Rightarrow> mint \<Rightarrow> bool \<Rightarrow> string list \<Rightarrow> bigint \<Rightarrow> rworld \<Rightarrow> (string, bigint) jmap" where
  "coin_amounts env loads mnt hasBurners allowedSends balance w =
     (let st = lstate (rw_mgr w);
          allMintSends = filter (\<lambda>s. s_mint s = mnt) (sends st);
          basis = (if hasBurners
            then Some \<lparr>basis_bought = bt_known (tokensBought st mnt (loads (rw_step w))), basis_shares = sharesOf st mnt\<rparr>
            else None)
      in calculateDeficitAmounts (map (\<lambda>i. the_send i w) allowedSends) allMintSends balance basis)"

definition satisfy_rest :: "round_env \<Rightarrow> (string, bigint) jmap \<Rightarrow> string list \<Rightarrow> rworld \<Rightarrow> rworld" where
  "satisfy_rest env amounts = for_each (\<lambda>i w. if jm_get amounts i = None
     then r_metric ''send.satisfied'' 1 (up_send env i (\<lambda>r. r\<lparr>s_status := SSatisfied\<rparr>) w) else w)"

definition deliver_coin ::
  "round_env \<Rightarrow> settings \<Rightarrow> (nat \<Rightarrow> BatchLoader) \<Rightarrow> bool \<Rightarrow> bool \<Rightarrow> mint \<Rightarrow> bool \<Rightarrow> string list \<Rightarrow> rworld \<Rightarrow>
    js_error option \<times> rworld" where
  "deliver_coin env cfg loads isSweep lastRound mnt hasBurners ids w =
     (if ids = [] then (None, w)
      else if re_program env (rw_step w) mnt = None then (None, r_tick w)
      else let (skipUnknown, w1) = check_all env ids [] (r_tick w);
               unsure = map (\<lambda>i. s_recipient (the_send i w1)) (filter (\<lambda>i. i \<in> set skipUnknown) ids);
               byRecipient = group_by (\<lambda>i. s_recipient (the_send i w1)) ids
           in case allow_wallets env mnt lastRound unsure byRecipient [] w1 of
               (Inl e, w2) \<Rightarrow> (Some e, w2)
             | (Inr allowed, w2) \<Rightarrow>
                 let (balance, w3) = getTokenBalance env mnt w2
                 in if balance \<le> 0 then (None, r_metric ''send.carryForward'' (int (length ids)) w3)
                    else let allowedSends = filter (\<lambda>i. s_status (the_send i w3) = SPending \<and> i \<in> set allowed) ids;
                             amounts = coin_amounts env loads mnt hasBurners allowedSends balance w3;
                             w4 = satisfy_rest env amounts allowedSends w3;
                             entries = filter (\<lambda>i. jm_get amounts i \<noteq> None) allowedSends
                         in (None, fold (sendBatch env cfg mnt amounts isSweep skipUnknown) (portions 5 entries) w4))"

definition visit_coin ::
  "round_env \<Rightarrow> settings \<Rightarrow> (nat \<Rightarrow> BatchLoader) \<Rightarrow> bool \<Rightarrow> bool \<Rightarrow> mint \<Rightarrow> bool \<Rightarrow> string list \<Rightarrow> rworld \<Rightarrow>
    js_error option \<times> rworld" where
  "visit_coin env cfg loads isSweep lastRound mnt hasBurners ids w =
     (let blocked = (case getTokenBuy mnt (rw_mgr w) of Some t \<Rightarrow> t_burnBlocked t \<noteq> None | None \<Rightarrow> False);
          w1 = (if hasBurners \<and> \<not> blocked then snd (burnDueFor env (loads (rw_step w)) mnt False w) else w)
      in deliver_coin env cfg loads isSweep lastRound mnt hasBurners ids w1)"

fun visit_coins ::
  "round_env \<Rightarrow> settings \<Rightarrow> (nat \<Rightarrow> BatchLoader) \<Rightarrow> bool \<Rightarrow> bool \<Rightarrow> mint list \<Rightarrow> (mint, string list) jmap \<Rightarrow> mint list \<Rightarrow>
    rworld \<Rightarrow> js_error option \<times> rworld" where
  "visit_coins env cfg loads isSweep lastRound exact byMint [] w = (None, w)"
| "visit_coins env cfg loads isSweep lastRound exact byMint (mnt # rest) w =
     (case visit_coin env cfg loads isSweep lastRound mnt (mnt \<in> set exact)
             (case jm_get byMint mnt of Some ids \<Rightarrow> ids | None \<Rightarrow> []) w of
        (Some e, w1) \<Rightarrow> (Some e, w1)
      | (None, w1) \<Rightarrow> visit_coins env cfg loads isSweep lastRound exact byMint rest w1)"

section \<open>The rounds\<close>

definition one_round ::
  "round_env \<Rightarrow> settings \<Rightarrow> (nat \<Rightarrow> BatchLoader) \<Rightarrow> bool \<Rightarrow> int \<Rightarrow> int \<Rightarrow> rworld \<Rightarrow> js_error option \<times> rworld" where
  "one_round env cfg loads isSweep totalRounds r w =
     (let st = lstate (rw_mgr w);
          pendingSends = filter (\<lambda>s. s_status s = SPending \<and> (isSweep \<or> s_round s \<le> r)) (sends st);
          exact = mintsWithBurners st;
          refreshed = (if 0 < length exact
            then refreshPurchaseTokens (re_rpc env (rw_step w)) None (re_keeper env) exact (loads (rw_step w))
                   (re_clock env (rw_step w)) (rw_mgr w)
            else Inr (rw_mgr w))
      in case refreshed of
          Inl e \<Rightarrow> (Some (plain_error e), r_tick w)
        | Inr m \<Rightarrow>
            let w1 = (r_tick w)\<lparr>rw_mgr := m\<rparr>;
                mint_of = (\<lambda>i. s_mint (the_send i w1));
                byMint = group_by mint_of (map s_id pendingSends)
            in if pendingSends = [] \<and> exact = [] then (None, w1)
               else visit_coins env cfg loads isSweep (totalRounds \<le> r) exact byMint (unique (exact @ jm_keys byMint)) w1)"

fun rounds_from ::
  "round_env \<Rightarrow> settings \<Rightarrow> (nat \<Rightarrow> BatchLoader) \<Rightarrow> bool \<Rightarrow> int \<Rightarrow> int list \<Rightarrow> rworld \<Rightarrow> js_error option \<times> rworld" where
  "rounds_from env cfg loads isSweep totalRounds [] w = (None, w)"
| "rounds_from env cfg loads isSweep totalRounds (r # rs) w =
     (case one_round env cfg loads isSweep totalRounds r (r_tick w) of
        (Some e, w1) \<Rightarrow> (Some e, w1)
      | (None, w1) \<Rightarrow> rounds_from env cfg loads isSweep totalRounds rs w1)"

definition executeSendRounds ::
  "round_env \<Rightarrow> settings \<Rightarrow> (nat \<Rightarrow> BatchLoader) \<Rightarrow> bool \<Rightarrow> int \<Rightarrow> rworld \<Rightarrow> js_error option \<times> rworld" where
  "executeSendRounds env cfg loads isSweep totalRounds w =
     rounds_from env cfg loads isSweep totalRounds [1..totalRounds] w"

end
