(* ===== verification/Settle.thy ===== *)
theory Settle
  imports Sends
begin

text \<open>
  After the buying (\<open>orchestrator/settle.ts\<close>): what the last purchases brought is read, the burns are
  finished, and every wallet that has received less than its share gets one more delivery in the
  queue. \<open>finishBurns\<close> is the last word on the burns. Pauses only pass time, so they are left out; how
  often is tried is not.
\<close>

section \<open>Constants\<close>

definition TOP_UP_MIN_SOL :: number where "TOP_UP_MIN_SOL = TX_FEE_SOL"

definition READ_RETRY_DELAYS_MS :: "millis list" where "READ_RETRY_DELAYS_MS = [0, 2000, 5000, 10000]"

definition FINISH_BURN_DELAYS_MS :: "millis list" where "FINISH_BURN_DELAYS_MS = [0, 30000, 60000, 120000]"

record SettleResult =
  sr_topUps :: int
  sr_burnsWaiting :: "mint list"

section \<open>Reading and burning\<close>

definition unread_of :: "(nat \<Rightarrow> BatchLoader) \<Rightarrow> rworld \<Rightarrow> mint \<Rightarrow> bool" where
  "unread_of loads w mnt \<longleftrightarrow> 0 < length (bt_unread (tokensBought (lstate (rw_mgr w)) mnt (loads (rw_step w))))"

text \<open>\<open>refreshPurchaseTokens\<close> on the world: what it throws, if anything, and the world after.\<close>

definition refresh ::
  "round_env \<Rightarrow> (nat \<Rightarrow> BatchLoader) \<Rightarrow> mint list \<Rightarrow> rworld \<Rightarrow> js_error option \<times> rworld" where
  "refresh env loads mints w =
     (case refreshPurchaseTokens (re_rpc env (rw_step w)) None (re_keeper env) mints (loads (rw_step w))
             (re_clock env (rw_step w)) (rw_mgr w) of
        Inl e \<Rightarrow> (Some (plain_error e), r_tick w)
      | Inr m \<Rightarrow> (None, (r_tick w)\<lparr>rw_mgr := m\<rparr>))"

fun read_last ::
  "round_env \<Rightarrow> (nat \<Rightarrow> BatchLoader) \<Rightarrow> mint list \<Rightarrow> millis list \<Rightarrow> rworld \<Rightarrow> js_error option \<times> rworld" where
  "read_last env loads exact [] w = (None, w)"
| "read_last env loads exact (delay # delays) w =
     (let unread = filter (unread_of loads w) exact in
      if length unread = 0 then (None, w)
      else case refresh env loads unread w of
          (Some e, w1) \<Rightarrow> (Some e, w1)
        | (None, w1) \<Rightarrow> read_last env loads exact delays w1)"

definition burn_last ::
  "round_env \<Rightarrow> (nat \<Rightarrow> BatchLoader) \<Rightarrow> mint \<Rightarrow> mint list \<times> rworld \<Rightarrow> mint list \<times> rworld" where
  "burn_last env loads mnt s =
     (let (burnsWaiting, w) = s in
      if (case getTokenBuy mnt (rw_mgr w) of Some t \<Rightarrow> t_burnBlocked t \<noteq> None | None \<Rightarrow> False) then s
      else let (result, w1) = burnDueFor env (loads (rw_step w)) mnt True w
           in (if result = Waiting \<and> mnt \<notin> set burnsWaiting then burnsWaiting @ [mnt] else burnsWaiting, w1))"

section \<open>Top-ups of one coin\<close>

text \<open>The deliveries given up that still carry a signature: who is left alone.\<close>

definition check_abandoned :: "round_env \<Rightarrow> string \<Rightarrow> wallet list \<times> rworld \<Rightarrow> wallet list \<times> rworld" where
  "check_abandoned env i s =
     (let (unsure, w) = s; r = the_send i w in
      if s_status r \<noteq> SAbandoned \<or> \<not> truthy_string (s_pending r) then s
      else let (verdict, w1) = ask_signature env (the (s_pending r)) (s_limit r) w
      in if verdict = Landed
         then (unsure, r_metric ''send.pendingTxConfirmed'' 1
                (up_send env i (\<lambda>q. q\<lparr>s_status := SCompleted, s_signature := s_pending r, s_pending := None,
                   s_limit := None, s_gross := s_amount r\<rparr>) w1))
         else (if verdict = UnknownYet then unsure @ [s_recipient r] else unsure, w1))"

definition sol_per_raw :: "number \<Rightarrow> bigint \<Rightarrow> number" where
  "sol_per_raw spentSol bought = (if 0 < spentSol then fdiv spentSol (fl (of_int bought)) else 0)"

definition top_up_target :: "bool \<Rightarrow> bigint \<Rightarrow> Share list \<Rightarrow> wallet \<Rightarrow> bigint" where
  "top_up_target exact bought shares wal =
     (if exact then deliveryOwed bought wal shares
      else bdiv (bought * (case List.find (\<lambda>s. sh_wallet s = wal) shares of Some s \<Rightarrow> sh_stake s | None \<Rightarrow> 0))
             (totalStake shares))"

definition worth_sending :: "number \<Rightarrow> bigint \<Rightarrow> bool" where
  "worth_sending solPerRaw short \<longleftrightarrow> 0 < short \<and>
     \<not> (0 < solPerRaw \<and> fmul (fl (of_int short)) solPerRaw < TOP_UP_MIN_SOL)"

definition topup_id :: "int \<Rightarrow> string" where
  "topup_id counter = ''send_topup_'' @ show_nat counter"

definition top_up_record :: "int \<Rightarrow> mint \<Rightarrow> wallet \<Rightarrow> SendRecord \<Rightarrow> int \<Rightarrow> millis \<Rightarrow> SendRecord" where
  "top_up_record counter mnt wal sample lastRound now =
     \<lparr>s_id = topup_id counter, s_mint = mnt, s_recipient = wal,
      s_betSol = s_betSol sample, s_share = s_share sample, s_sendN = 1, s_round = lastRound, s_amount = None,
      s_gross = None, s_status = SPending, s_topUp = True, s_signature = None, s_pending = None, s_limit = None,
      s_failedSigs = [], s_attempts = 0, s_error = None, s_hadAta = s_hadAta sample, s_ataMismatch = None,
      s_updatedAt = now\<rparr>"

fun add_top_ups ::
  "(wallet \<Rightarrow> bool) \<Rightarrow> mint \<Rightarrow> SendRecord list \<Rightarrow> int \<Rightarrow> millis \<Rightarrow> wallet list \<Rightarrow> int \<Rightarrow> SendRecord list" where
  "add_top_ups wants mnt ss lastRound now [] counter = []"
| "add_top_ups wants mnt ss lastRound now (wal # wals) counter =
     (if wants wal
      then top_up_record (counter + 1) mnt wal (the (List.find (\<lambda>s. s_recipient s = wal) ss)) lastRound now #
             add_top_ups wants mnt ss lastRound now wals (counter + 1)
      else add_top_ups wants mnt ss lastRound now wals counter)"

text \<open>\<open>tokenBalance\<close> is asked only for a coin nobody burns; \<open>None\<close> when it threw.\<close>

definition coin_pot ::
  "(nat \<Rightarrow> BatchLoader) \<Rightarrow> (mint \<Rightarrow> rworld \<Rightarrow> bigint option \<times> rworld) \<Rightarrow> mint \<Rightarrow> bool \<Rightarrow> (wallet, bigint) jmap \<Rightarrow> rworld \<Rightarrow>
    bigint option \<times> rworld" where
  "coin_pot loads tokenBalance mnt exact dlv w =
     (if exact then (Some (bt_known (tokensBought (lstate (rw_mgr w)) mnt (loads (rw_step w)))), w)
      else case tokenBalance mnt w of
          (None, w1) \<Rightarrow> (None, w1)
        | (Some balance, w1) \<Rightarrow> (Some (balance + sum_list (jm_values dlv)), w1))"

definition coin_sends :: "mint \<Rightarrow> rworld \<Rightarrow> SendRecord list" where
  "coin_sends mnt w = filter (\<lambda>s. s_mint s = mnt) (sends (lstate (rw_mgr w)))"

definition busy_wallets :: "SendRecord list \<Rightarrow> wallet list \<Rightarrow> wallet list" where
  "busy_wallets ss unsure =
     map s_recipient (filter (\<lambda>s. s_status s = SPending \<or> s_status s = SInProgress) ss) @ unsure"

definition topUpsFor ::
  "round_env \<Rightarrow> (nat \<Rightarrow> BatchLoader) \<Rightarrow> (mint \<Rightarrow> rworld \<Rightarrow> bigint option \<times> rworld) \<Rightarrow> int \<Rightarrow> mint \<Rightarrow> bool \<Rightarrow> rworld \<Rightarrow>
    int \<times> rworld" where
  "topUpsFor env loads tokenBalance lastRound mnt exact w =
     (if length (coin_sends mnt w) = 0 then (0, w)
      else let (unsure, w1) = fold (check_abandoned env) (map s_id (coin_sends mnt w)) ([], w);
               shares = sharesOf (lstate (rw_mgr w1)) mnt
      in if totalStake shares = 0 then (0, w1)
      else let ss = coin_sends mnt w1;
               dlv = sent_map exact ss;
               (pot, w2) = coin_pot loads tokenBalance mnt exact dlv w1
      in case pot of None \<Rightarrow> (0, w2)
      | Some bought \<Rightarrow>
          if bought \<le> 0 then (0, w2)
          else let spentSol = (case getTokenBuy mnt (rw_mgr w2) of
                       Some t \<Rightarrow> (case t_spentSol t of Some x \<Rightarrow> x | None \<Rightarrow> 0) | None \<Rightarrow> 0);
                   solPerRaw = sol_per_raw spentSol bought;
                   busy = busy_wallets ss unsure;
                   wants = (\<lambda>wal. wal \<notin> set busy \<and>
                     worth_sending solPerRaw (top_up_target exact bought shares wal - get_or0 dlv wal));
                   added = add_top_ups wants mnt ss lastRound (re_clock env (rw_step w2))
                     (unique (map s_recipient ss)) (int (length (sends (lstate (rw_mgr w2)))))
               in (int (length added), (r_tick w2)\<lparr>rw_mgr := addSends added (rw_mgr w2)\<rparr>))"

section \<open>Settlement\<close>

fun top_ups ::
  "round_env \<Rightarrow> (nat \<Rightarrow> BatchLoader) \<Rightarrow> (mint \<Rightarrow> rworld \<Rightarrow> bigint option \<times> rworld) \<Rightarrow> int \<Rightarrow> mint list \<Rightarrow> mint list \<Rightarrow> int \<Rightarrow>
    rworld \<Rightarrow> int \<times> rworld" where
  "top_ups env loads tokenBalance lastRound exact [] n w = (n, w)"
| "top_ups env loads tokenBalance lastRound exact (mnt # mints) n w =
     (let (added, w1) = topUpsFor env loads tokenBalance lastRound mnt (mnt \<in> set exact) w
      in top_ups env loads tokenBalance lastRound exact mints (n + added) w1)"

definition settleAfterBuying ::
  "round_env \<Rightarrow> (nat \<Rightarrow> BatchLoader) \<Rightarrow> (mint \<Rightarrow> rworld \<Rightarrow> bigint option \<times> rworld) \<Rightarrow> int \<Rightarrow> rworld \<Rightarrow>
    (js_error + SettleResult) \<times> rworld" where
  "settleAfterBuying env loads tokenBalance lastRound w =
     (let mints = map t_mint (tokenBuys (lstate (rw_mgr w)));
          exact = filter (\<lambda>m. hasBurn (sharesOf (lstate (rw_mgr w)) m)) mints
      in case read_last env loads exact READ_RETRY_DELAYS_MS w of
          (Some e, w1) \<Rightarrow> (Inl e, w1)
        | (None, w1) \<Rightarrow>
            let incomplete = filter (unread_of loads w1) exact;
                (burnsWaiting, w2) = fold (burn_last env loads) exact (incomplete, w1);
                (topUps, w3) = top_ups env loads tokenBalance lastRound exact mints 0 w2
            in (Inr \<lparr>sr_topUps = topUps, sr_burnsWaiting = burnsWaiting\<rparr>, w3))"

text \<open>The balance the orchestrator passes: it never throws.\<close>

definition settle_balance :: "round_env \<Rightarrow> mint \<Rightarrow> rworld \<Rightarrow> bigint option \<times> rworld" where
  "settle_balance env mnt w = (let (b, w1) = getTokenBalance env mnt w in (Some b, w1))"

section \<open>The last burns\<close>

fun finish_pass ::
  "round_env \<Rightarrow> (nat \<Rightarrow> BatchLoader) \<Rightarrow> mint list \<Rightarrow> mint list \<Rightarrow> rworld \<Rightarrow> mint list \<times> rworld" where
  "finish_pass env loads [] still w = (still, w)"
| "finish_pass env loads (mnt # waiting) still w =
     (let (result, w1) = burnDueFor env (loads (rw_step w)) mnt True w;
          unread = unread_of loads w1 mnt
      in finish_pass env loads waiting (if result = Waiting \<or> unread \<and> result \<noteq> Blocked then still @ [mnt] else still) w1)"

fun finish_loop ::
  "round_env \<Rightarrow> (nat \<Rightarrow> BatchLoader) \<Rightarrow> millis list \<Rightarrow> mint list \<Rightarrow> rworld \<Rightarrow> (js_error + mint list) \<times> rworld" where
  "finish_loop env loads [] waiting w = (Inr waiting, w)"
| "finish_loop env loads (delay # delays) waiting w =
     (if length waiting = 0 then (Inr waiting, w)
      else case refresh env loads waiting w of
          (Some e, w1) \<Rightarrow> (Inl e, w1)
        | (None, w1) \<Rightarrow>
            let (still, w2) = finish_pass env loads waiting [] w1
            in finish_loop env loads delays still w2)"

definition finishBurns ::
  "round_env \<Rightarrow> (nat \<Rightarrow> BatchLoader) \<Rightarrow> mint list \<Rightarrow> rworld \<Rightarrow> (js_error + mint list) \<times> rworld" where
  "finishBurns env loads mints w = finish_loop env loads FINISH_BURN_DELAYS_MS mints w"

end
