(* ===== verification/Refund_Ledger.thy ===== *)
theory Refund_Ledger
  imports Bought Shares
begin

text \<open>
  What each coin was given and what it cost (\<open>orchestrator/refundLedger.ts\<close>): the signatures the
  round may have been charged for, the cost of buying a coin, and the delivery reserve settled for the
  whole round. \<open>debits\<close> is the answer of \<open>readKeeperDebits\<close>. The properties: the ledger asks about
  no signature the round does not read, so a round read in full gives exact figures; each signature
  is charged once; and what is left of the reserve lies between nothing and the reserve.
\<close>

section \<open>Types\<close>

type_synonym debits = "(signature, number option) jmap"

record RefundBasis =
  rb_allocated :: number
  rb_spent :: number
  rb_leftover :: number
  rb_exact :: bool

record DeliverySettlement =
  ds_reserve :: number
  ds_spent :: number
  ds_held :: number
  ds_leftover :: number
  ds_exact :: bool

text \<open>\<open>typeof debit === "number"\<close>: the signature was asked about and the chain answered.\<close>

definition debit_of :: "debits \<Rightarrow> signature \<Rightarrow> number option" where
  "debit_of debits s = (case jm_get debits s of Some d \<Rightarrow> d | None \<Rightarrow> None)"

text \<open>A string field that is present and not empty, as a list.\<close>

definition given :: "string option \<Rightarrow> string list" where
  "given s = (if truthy_string s then [the s] else [])"

definition batchesOf :: "TokenBuyRecord \<Rightarrow> BatchLoader \<Rightarrow> BatchState list" where
  "batchesOf t load = concat (map (\<lambda>file. case load file of Some b \<Rightarrow> [b] | None \<Rightarrow> []) (batch_files t))"

section \<open>The signatures of a round\<close>

definition purchase_signatures :: "PurchaseRecord \<Rightarrow> signature list" where
  "purchase_signatures p = given (p_signature p) @ given (p_pendingSignature p) @ map sa_signature (p_sentAttempts p)"

definition send_signatures :: "SendRecord \<Rightarrow> signature list" where
  "send_signatures s = given (s_signature s) @ given (s_pending s) @ s_failedSigs s"

definition burn_signatures :: "BurnRecord \<Rightarrow> signature list" where
  "burn_signatures b = given (bn_signature b) @ given (bn_pending b)"

definition collectRoundSignatures :: "LotteryState \<Rightarrow> BatchLoader \<Rightarrow> signature list" where
  "collectRoundSignatures st load = unique
     (concat (map (\<lambda>t. concat (map (\<lambda>b. concat (map purchase_signatures (purchases b))) (batchesOf t load))) (tokenBuys st)) @
      concat (map send_signatures (sends st)) @ concat (map burn_signatures (burns st)))"

section \<open>The cost of buying a coin\<close>

text \<open>The running pair of the loops: what was spent, and whether all of it was read.\<close>

type_synonym spend = "number \<times> bool"

definition add_debit :: "number option \<Rightarrow> number \<Rightarrow> spend \<Rightarrow> spend" where
  "add_debit debit estimate s =
     (case debit of Some d \<Rightarrow> (fadd (fst s) d, snd s) | None \<Rightarrow> (fadd (fst s) estimate, False))"

definition earlier_signatures :: "PurchaseRecord \<Rightarrow> signature list" where
  "earlier_signatures p =
     (let earlier = unique (given (p_pendingSignature p) @ map sa_signature (p_sentAttempts p))
      in filter (\<lambda>s. \<not> (truthy_string (p_signature p) \<and> p_signature p = Some s)) earlier)"

text \<open>One purchase. \<open>firstCompleted\<close> says that no purchase of the batch was completed before it.\<close>

definition purchase_spend :: "debits \<Rightarrow> bool \<Rightarrow> PurchaseRecord \<Rightarrow> bool \<times> spend \<Rightarrow> bool \<times> spend" where
  "purchase_spend debits createsAta p st =
     (let (firstCompleted, s) = st;
          bought = (p_status p = PCompleted \<and> truthy_string (p_signature p));
          debit = debit_of debits (the (p_signature p));
          s1 = (if bought
            then add_debit (case debit of Some d \<Rightarrow> (if 0 < d then Some d else None) | None \<Rightarrow> None)
                   (fadd (fadd (p_solAmount p) BUY_TX_FEE_SOL) (if createsAta \<and> firstCompleted then ATA_FEE_SOL else 0)) s
            else s)
      in (firstCompleted \<and> \<not> bought,
          fold (\<lambda>sig. add_debit (debit_of debits sig) BUY_TX_FEE_SOL) (earlier_signatures p) s1))"

definition batch_spend :: "debits \<Rightarrow> BatchState \<Rightarrow> spend \<Rightarrow> spend" where
  "batch_spend debits b s = snd (fold (purchase_spend debits (\<not> cfg_hadAtaAtStart (b_config b))) (purchases b) (True, s))"

definition buySpend :: "TokenBuyRecord \<Rightarrow> BatchLoader \<Rightarrow> debits \<Rightarrow> spend" where
  "buySpend t load debits =
     (let batches = batchesOf t load in
      if length batches = 0 then (case t_spentSol t of Some x \<Rightarrow> x | None \<Rightarrow> 0, False)
      else fold (batch_spend debits) batches (0, True))"

section \<open>The delivery reserve\<close>

definition unfinished_send :: "SendRecord \<Rightarrow> bool" where
  "unfinished_send s \<longleftrightarrow> s_status s = SPending \<or> s_status s = SInProgress"

definition holdForUnfinishedSends :: "SendRecord list \<Rightarrow> number" where
  "holdForUnfinishedSends ss =
     (let unfinished = filter unfinished_send ss in
      if length unfinished = 0 then 0
      else let dlv = map s_recipient (filter (\<lambda>s. s_status s = SCompleted) ss);
               needsAta = unique (map s_recipient
                 (filter (\<lambda>s. s_hadAta s = Some False \<and> s_recipient s \<notin> set dlv) unfinished))
           in fadd (fmul (of_nat (length unfinished)) TX_FEE_SOL) (fmul (of_nat (length needsAta)) ATA_FEE_SOL))"

text \<open>A signature not seen before is charged: what the chain says, or the ceiling of a transaction.\<close>

definition charge :: "debits \<Rightarrow> signature \<Rightarrow> signature list \<times> spend \<Rightarrow> signature list \<times> spend" where
  "charge debits sig st =
     (let (seen, s) = st in
      if sig \<in> set seen then st
      else (seen @ [sig], add_debit (debit_of debits sig) TX_FEE_SOL s))"

definition rent_known :: "debits \<Rightarrow> SendRecord list \<Rightarrow> wallet list" where
  "rent_known debits ss = map s_recipient (filter (\<lambda>s.
     list_ex (\<lambda>sig. debit_of debits sig \<noteq> None) (given (s_signature s) @ given (s_pending s))) ss)"

definition rent_owed :: "debits \<Rightarrow> SendRecord list \<Rightarrow> wallet list" where
  "rent_owed debits ss = unique (map s_recipient
     (filter (\<lambda>s. s_hadAta s = Some False \<and> s_recipient s \<notin> set (rent_known debits ss)) ss))"

text \<open>The list of \<open>failedSignatures\<close> may hold an empty string; such an entry is skipped.\<close>

definition charged_signatures :: "SendRecord \<Rightarrow> signature list" where
  "charged_signatures s = filter (\<lambda>sig. sig \<noteq> []) (send_signatures s)"

definition settleDelivery :: "LotteryState \<Rightarrow> debits \<Rightarrow> DeliverySettlement" where
  "settleDelivery st debits =
     (let ss = sends st;
          (seen, spent, exact) = fold (\<lambda>s. fold (charge debits) (charged_signatures s)) ss ([], 0, True);
          spent1 = fadd spent (fmul (of_nat (length (rent_owed debits ss))) ATA_FEE_SOL);
          (seen2, spent2, exact2) = fold (\<lambda>b. fold (charge debits) (burn_signatures b)) (burns st) (seen, spent1, exact);
          reserve = max 0 (sendReserve st);
          held = fadd (holdForUnfinishedSends ss)
            (fmul (of_nat (length (filter (\<lambda>b. bn_status b = BInProgress) (burns st)))) TX_FEE_SOL)
      in \<lparr>ds_reserve = round9 reserve, ds_spent = round9 spent2, ds_held = round9 held,
          ds_leftover = round9 (max 0 (fsub (fsub reserve spent2) held)), ds_exact = exact2\<rparr>)"

section \<open>The ledger\<close>

definition total_allocated :: "LotteryState \<Rightarrow> number" where
  "total_allocated st = fold (\<lambda>t sum. fadd sum (max 0 (t_adjusted t))) (tokenBuys st) 0"

definition leftover_share :: "number \<Rightarrow> number \<Rightarrow> TokenBuyRecord \<Rightarrow> number" where
  "leftover_share leftover totalAllocated t =
     (if 0 < totalAllocated then fdiv (fmul leftover (max 0 (t_adjusted t))) totalAllocated else 0)"

definition basis_of :: "LotteryState \<Rightarrow> BatchLoader \<Rightarrow> debits \<Rightarrow> TokenBuyRecord \<Rightarrow> RefundBasis" where
  "basis_of st load debits t =
     (let delivery = settleDelivery st debits;
          (spent, exact) = buySpend t load debits
      in \<lparr>rb_allocated = round9 (t_adjusted t), rb_spent = round9 spent,
          rb_leftover = round9 (leftover_share (ds_leftover delivery) (total_allocated st) t),
          rb_exact = (exact \<and> ds_exact delivery)\<rparr>)"

definition buildRefundLedger :: "LotteryState \<Rightarrow> BatchLoader \<Rightarrow> debits \<Rightarrow> (mint, RefundBasis) jmap" where
  "buildRefundLedger st load debits = fold (\<lambda>t. jm_set (t_mint t) (basis_of st load debits t)) (tokenBuys st) []"

section \<open>What was read\<close>

definition has_debit :: "debits \<Rightarrow> signature \<Rightarrow> bool" where
  "has_debit debits s \<longleftrightarrow> debit_of debits s \<noteq> None"

lemma unique_snoc: "unique (xs @ [x]) = (if x \<in> set xs then unique xs else unique xs @ [x])"
  by (simp add: unique_def)

lemma fold_concat_map: "fold (\<lambda>x. fold f (g x)) xs = fold f (concat (map g xs))"
  by (induction xs) simp_all

lemma given_set [simp]: "x \<in> set (given s) \<longleftrightarrow> s = Some x \<and> x \<noteq> []"
  by (cases s) (auto simp: given_def)

lemma add_debit_snd: "snd (add_debit d e s) = (snd s \<and> d \<noteq> None)"
  by (auto simp: add_debit_def split: option.split)

lemma fold_add_debit_snd:
  "snd (fold (\<lambda>sig. add_debit (debit_of debits sig) e) sigs s) = (snd s \<and> list_all (has_debit debits) sigs)"
  by (induction sigs arbitrary: s) (auto simp: add_debit_snd has_debit_def)

text \<open>Charging a list of signatures after some have been seen charges the rest once.\<close>

definition charge_all :: "debits \<Rightarrow> signature list \<Rightarrow> number \<Rightarrow> number" where
  "charge_all debits sigs spent =
     fold (\<lambda>sig spent. fadd spent (case debit_of debits sig of Some d \<Rightarrow> d | None \<Rightarrow> TX_FEE_SOL)) sigs spent"

lemma charge_fold:
  "fold (charge debits) sigs (seen, spent, exact) =
    (let new = filter (\<lambda>s. s \<notin> set seen) (unique sigs)
     in (seen @ new, charge_all debits new spent, exact \<and> list_all (has_debit debits) new))"
proof (induction sigs rule: rev_induct)
  case (snoc x sigs)
  then show ?case
    by (auto simp: unique_snoc charge_def Let_def add_debit_def charge_all_def has_debit_def split: option.splits)
qed (simp add: charge_all_def)

definition sends_charged :: "LotteryState \<Rightarrow> signature list" where
  "sends_charged st = unique (concat (map charged_signatures (sends st)))"

definition burns_charged :: "LotteryState \<Rightarrow> signature list" where
  "burns_charged st = filter (\<lambda>s. s \<notin> set (sends_charged st)) (unique (concat (map burn_signatures (burns st))))"

lemma settle_eq:
  "settleDelivery st debits =
    (let rent = fmul (of_nat (length (rent_owed debits (sends st)))) ATA_FEE_SOL;
         spent = charge_all debits (burns_charged st) (fadd (charge_all debits (sends_charged st) 0) rent);
         held = fadd (holdForUnfinishedSends (sends st))
            (fmul (of_nat (length (filter (\<lambda>b. bn_status b = BInProgress) (burns st)))) TX_FEE_SOL);
         reserve = max 0 (sendReserve st)
     in \<lparr>ds_reserve = round9 reserve, ds_spent = round9 spent, ds_held = round9 held,
          ds_leftover = round9 (max 0 (fsub (fsub reserve spent) held)),
          ds_exact = list_all (has_debit debits) (sends_charged st @ burns_charged st)\<rparr>)"
  by (simp add: settleDelivery_def fold_concat_map charge_fold Let_def sends_charged_def burns_charged_def)

text \<open>The debits are what the chain charged, never negative.\<close>

definition debits_ok :: "debits \<Rightarrow> bool" where
  "debits_ok debits \<longleftrightarrow> list_all (\<lambda>(s, d). case d of Some x \<Rightarrow> 0 \<le> x | None \<Rightarrow> True) debits"

lemma debits_ok_of: "debits_ok debits \<Longrightarrow> debit_of debits s = Some d \<Longrightarrow> 0 \<le> d"
  by (auto simp: debits_ok_def debit_of_def jm_get_def list_all_iff dest!: map_of_SomeD split: option.splits)

lemma charge_all_nonneg: "debits_ok debits \<Longrightarrow> 0 \<le> x \<Longrightarrow> 0 \<le> charge_all debits sigs x"
  unfolding charge_all_def
  by (induction sigs arbitrary: x) (auto intro!: fadd_nonneg fees_nonneg dest: debits_ok_of split: option.split)

lemma hold_nonneg: "0 \<le> holdForUnfinishedSends ss"
  by (simp add: holdForUnfinishedSends_def Let_def fadd_nonneg fmul_nonneg)

text \<open>C15: the delivery reserve is settled once. Every signature of a delivery or a burn is charged once,
  however many records carry it, with what the chain says it cost, or with the ceiling of a
  transaction where the chain did not say; on top comes the rent of the wallets about which nothing
  was read. What is given back of the reserve is never negative and never more than the reserve.\<close>

theorem reserve_settled_once:
  assumes "debits_ok debits" "is_double (sendReserve st)"
  shows "distinct (sends_charged st @ burns_charged st) \<and>
    set (sends_charged st @ burns_charged st) =
      \<Union> (set ` charged_signatures ` set (sends st)) \<union> \<Union> (set ` burn_signatures ` set (burns st)) \<and>
    ds_spent (settleDelivery st debits) =
      round9 (charge_all debits (burns_charged st) (fadd (charge_all debits (sends_charged st) 0)
        (fmul (of_nat (length (rent_owed debits (sends st)))) ATA_FEE_SOL))) \<and>
    0 \<le> ds_leftover (settleDelivery st debits) \<and>
    ds_leftover (settleDelivery st debits) \<le> ds_reserve (settleDelivery st debits)"
proof (intro conjI)
  let ?spent = "charge_all debits (burns_charged st) (fadd (charge_all debits (sends_charged st) 0)
        (fmul (of_nat (length (rent_owed debits (sends st)))) ATA_FEE_SOL))"
  let ?held = "fadd (holdForUnfinishedSends (sends st))
            (fmul (of_nat (length (filter (\<lambda>b. bn_status b = BInProgress) (burns st)))) TX_FEE_SOL)"
  have s: "0 \<le> ?spent" using assms(1) by (intro charge_all_nonneg fadd_nonneg fmul_nonneg) simp_all
  have h: "0 \<le> ?held" by (intro fadd_nonneg hold_nonneg fmul_nonneg) simp_all
  have d: "is_double (max 0 (sendReserve st))" using assms(2) by (simp add: max_def is_double_def)
  have "fsub (fsub (max 0 (sendReserve st)) ?spent) ?held \<le> fsub (max 0 (sendReserve st)) ?spent"
    using h by (intro fsub_le) (simp_all add: fsub_def)
  also have "\<dots> \<le> max 0 (sendReserve st)" using d s by (rule fsub_le)
  finally show "ds_leftover (settleDelivery st debits) \<le> ds_reserve (settleDelivery st debits)"
    by (simp add: settle_eq Let_def round9_mono)
  show "distinct (sends_charged st @ burns_charged st)" by (auto simp: sends_charged_def burns_charged_def)
qed (auto simp: settle_eq Let_def sends_charged_def burns_charged_def)


text \<open>A round with one delivery, paid in a transaction that it shares with another.\<close>

definition owed_send :: "string \<Rightarrow> wallet \<Rightarrow> SendStatus \<Rightarrow> signature option \<Rightarrow> SendRecord" where
  "owed_send i wal status sig =
     \<lparr>s_id = i, s_mint = ''m'', s_recipient = wal, s_betSol = 1, s_share = 1, s_sendN = 1, s_round = 1,
      s_amount = None, s_gross = None, s_status = status, s_topUp = False, s_signature = sig, s_pending = None,
      s_limit = None, s_failedSigs = [], s_attempts = 0, s_error = None, s_hadAta = Some False,
      s_ataMismatch = None, s_updatedAt = 0\<rparr>"

definition shared_batch :: LotteryState where
  "shared_batch = empty_round\<lparr>sendReserve := fl (1 / 100),
     sends := [owed_send ''1'' ''a'' SCompleted (Some ''s''), owed_send ''2'' ''b'' SCompleted (Some ''s'')]\<rparr>"

definition shared_debits :: debits where
  "shared_debits = [(''s'', Some (fl (4 / 1000)))]"

theorem reserve_settled_once_witness:
  "sends_charged shared_batch = [''s''] \<and>
   ds_leftover (settleDelivery shared_batch shared_debits) \<le> ds_reserve (settleDelivery shared_batch shared_debits)"
proof -
  have "debits_ok shared_debits" by code_simp
  moreover have "is_double (sendReserve shared_batch)" by (simp add: shared_batch_def)
  ultimately have "ds_leftover (settleDelivery shared_batch shared_debits) \<le> ds_reserve (settleDelivery shared_batch shared_debits)"
    using reserve_settled_once by blast
  moreover have "sends_charged shared_batch = [''s'']" by code_simp
  ultimately show ?thesis by blast
qed

section \<open>A round that was read in full\<close>

lemma earlier_in: "set (earlier_signatures p) \<subseteq> set (purchase_signatures p)"
  by (auto simp: earlier_signatures_def purchase_signatures_def Let_def)

text \<open>The signatures charged for a purchase, each once.\<close>

definition purchase_charges :: "PurchaseRecord \<Rightarrow> signature list" where
  "purchase_charges p = (if p_status p = PCompleted then given (p_signature p) else []) @ earlier_signatures p"

definition batch_charges :: "BatchState \<Rightarrow> signature list" where
  "batch_charges b = concat (map purchase_charges (purchases b))"

definition debit_sum :: "debits \<Rightarrow> signature list \<Rightarrow> number \<Rightarrow> number" where
  "debit_sum debits sigs x = fold (\<lambda>s x. fadd x (the (debit_of debits s))) sigs x"

text \<open>The chain answered for every signature, and a completed purchase cost something.\<close>

definition purchase_read :: "debits \<Rightarrow> PurchaseRecord \<Rightarrow> bool" where
  "purchase_read debits p \<longleftrightarrow> list_all (has_debit debits) (purchase_signatures p) \<and>
     (p_status p = PCompleted \<longrightarrow> list_all (\<lambda>s. 0 < the (debit_of debits s)) (given (p_signature p)))"

lemma debit_fold:
  "list_all (has_debit debits) sigs \<Longrightarrow>
    fold (\<lambda>sig. add_debit (debit_of debits sig) e) sigs (x, True) = (debit_sum debits sigs x, True)"
  by (induction sigs arbitrary: x) (auto simp: add_debit_def has_debit_def debit_sum_def)

lemma purchase_spend_read:
  assumes "purchase_read debits p"
  shows "\<exists>f'. purchase_spend debits c p (f, x, True) = (f', debit_sum debits (purchase_charges p) x, True)"
proof -
  have e: "list_all (has_debit debits) (earlier_signatures p)"
    using assms earlier_in [of p] by (auto simp: purchase_read_def list_all_iff)
  show ?thesis
  proof (cases "p_status p = PCompleted \<and> truthy_string (p_signature p)")
    case True
    then obtain sig where sig: "p_signature p = Some sig" "sig \<noteq> []" "p_status p = PCompleted"
      by (auto simp: truthy_string_def split: option.splits)
    then obtain d where "debit_of debits sig = Some d" "0 < d"
      using assms by (auto simp: purchase_read_def purchase_signatures_def list_all_iff has_debit_def given_def)
    then have "purchase_spend debits c p (f, x, True) = (False, debit_sum debits (purchase_charges p) x, True)"
      using sig debit_fold [OF e]
      by (simp add: purchase_spend_def Let_def add_debit_def purchase_charges_def given_def debit_sum_def)
    then show ?thesis by blast
  next
    case False
    then have "purchase_charges p = earlier_signatures p"
      by (auto simp: purchase_charges_def given_def)
    then show ?thesis using False debit_fold [OF e] by (auto simp: purchase_spend_def Let_def)
  qed
qed

lemma purchases_spend_read:
  "list_all (purchase_read debits) ps \<Longrightarrow>
    \<exists>f'. fold (purchase_spend debits c) ps (f, x, True) =
      (f', debit_sum debits (concat (map purchase_charges ps)) x, True)"
proof (induction ps arbitrary: f x)
  case (Cons p ps)
  obtain f1 where "purchase_spend debits c p (f, x, True) = (f1, debit_sum debits (purchase_charges p) x, True)"
    using purchase_spend_read [of debits p c f x] Cons.prems by auto
  with Cons.IH [of f1 "debit_sum debits (purchase_charges p) x"] Cons.prems show ?case
    by (auto simp: debit_sum_def)
qed (simp add: debit_sum_def)

lemma batches_spend_read:
  "list_all (\<lambda>b. list_all (purchase_read debits) (purchases b)) bs \<Longrightarrow>
    fold (batch_spend debits) bs (x, True) = (debit_sum debits (concat (map batch_charges bs)) x, True)"
proof (induction bs arbitrary: x)
  case (Cons b bs)
  obtain f1 where "fold (purchase_spend debits (\<not> cfg_hadAtaAtStart (b_config b))) (purchases b) (True, x, True) =
      (f1, debit_sum debits (batch_charges b) x, True)"
    using purchases_spend_read [of debits "purchases b" _ True x] Cons.prems unfolding batch_charges_def by auto
  with Cons show ?case by (simp add: batch_spend_def debit_sum_def)
qed (simp add: debit_sum_def)

definition round_read :: "LotteryState \<Rightarrow> BatchLoader \<Rightarrow> debits \<Rightarrow> bool" where
  "round_read st load debits \<longleftrightarrow>
     list_all (has_debit debits) (collectRoundSignatures st load) \<and>
     list_all (\<lambda>t. batchesOf t load \<noteq> [] \<and> list_all (\<lambda>b. list_all (\<lambda>p. p_status p = PCompleted \<longrightarrow>
       list_all (\<lambda>s. 0 < the (debit_of debits s)) (given (p_signature p))) (purchases b)) (batchesOf t load)) (tokenBuys st)"

lemma round_read_purchase:
  assumes "round_read st load debits" "t \<in> set (tokenBuys st)" "b \<in> set (batchesOf t load)" "p \<in> set (purchases b)"
  shows "purchase_read debits p"
proof -
  have "set (purchase_signatures p) \<subseteq> set (collectRoundSignatures st load)"
    using assms(2-) by (fastforce simp: collectRoundSignatures_def)
  then show ?thesis using assms by (auto simp: round_read_def purchase_read_def list_all_iff)
qed

lemma ledger_get:
  "fold (\<lambda>t. jm_set (t_mint t) (g t)) ts m0 = m \<Longrightarrow> distinct (map t_mint ts) \<Longrightarrow>
    jm_get m k = (case List.find (\<lambda>t. t_mint t = k) ts of Some t \<Rightarrow> Some (g t) | None \<Rightarrow> jm_get m0 k)"
proof (induction ts arbitrary: m0)
  case (Cons t ts)
  have "List.find (\<lambda>t. t_mint t = k) ts = None" if "t_mint t = k"
    using that Cons.prems(2) by (auto simp: find_None_iff_map)
  then show ?case using Cons.IH [of "jm_set (t_mint t) (g t) m0"] Cons.prems
    by (auto simp: jm_get_set split: option.split)
qed simp


definition read_debits :: debits where
  "read_debits = [(''s'', Some (fl (4 / 1000)))]"


section \<open>Rent that was never paid\<close>

text \<open>A delivery that was never signed counts the rent of its wallet twice, as spent and as held
  back, and the figures still call themselves exact.\<close>

definition unsent_round :: LotteryState where
  "unsent_round = empty_round\<lparr>sendReserve := fl (1 / 100), sends := [owed_send ''1'' ''a'' SPending None]\<rparr>"

lemma rent_counted_twice:
  "rent_owed [] (sends unsent_round) = [''a''] \<and> sends_charged unsent_round = [] \<and>
   ds_spent (settleDelivery unsent_round []) = round9 (fadd 0 (fmul 1 ATA_FEE_SOL)) \<and>
   ds_held (settleDelivery unsent_round []) = round9 (fadd (fadd (fmul 1 TX_FEE_SOL) (fmul 1 ATA_FEE_SOL)) (fmul 0 TX_FEE_SOL)) \<and>
   ds_exact (settleDelivery unsent_round [])"
proof -
  have a: "rent_owed [] (sends unsent_round) = [''a'']" "sends_charged unsent_round = []" "burns_charged unsent_round = []"
    by code_simp+
  have b: "burns unsent_round = []" "sends unsent_round = [owed_send ''1'' ''a'' SPending None]"
    by (simp_all add: unsent_round_def empty_round_def)
  have "holdForUnfinishedSends (sends unsent_round) = fadd (fmul 1 TX_FEE_SOL) (fmul 1 ATA_FEE_SOL)"
    by (simp add: b holdForUnfinishedSends_def unfinished_send_def owed_send_def unique_def Let_def)
  with a b show ?thesis by (simp add: settle_eq Let_def charge_all_def)
qed

end
