(* ===== verification/Orchestrator.thy ===== *)
theory Orchestrator
  imports Preparation Settle Refunds Batch
begin

text \<open>
  A round from its first purchase to its close (\<open>buyLoop\<close>, \<open>runBuyAndSend\<close> and \<open>executeLottery\<close> of
  \<open>orchestrator/orchestrator.ts\<close>). Buying and delivering run side by side: the order in which coins
  start, finish and delivery rounds take place is an argument, a list of choices. A batch of purchases
  keeps its own file and touches the state of the round only when it starts and when it is done.
\<close>

section \<open>The outside of a round\<close>

text \<open>What one batch of purchases meets: its node, its two reads before the start, its random numbers.\<close>

record buy_side =
  by_outside :: outside
  by_blockers :: "string + string list"
  by_hasAta :: bool
  by_rnd1 :: "nat \<Rightarrow> number"
  by_rnd2 :: "nat \<Rightarrow> number"
  by_runId :: string
  by_random :: string

text \<open>The batch of a coin by its file; the answers to \<open>getTokenSupply\<close>, \<open>None\<close> where it threw; the
  batch files as they can be read at a step; the settings of the fees.\<close>

record lottery_env =
  le_round :: round_env
  le_buy :: "string \<Rightarrow> buy_side"
  le_supply :: "nat \<Rightarrow> mint \<Rightarrow> (bigint \<times> int) option"
  le_loads :: "nat \<Rightarrow> BatchLoader"
  le_cfg :: settings

type_synonym plan_item = "mint \<times> number"

section \<open>Buying one coin\<close>

definition coin_file :: "mint \<Rightarrow> rworld \<Rightarrow> string" where
  "coin_file mnt w = batchStatePath (lotteryId (lstate (rw_mgr w))) mnt
     ((case getTokenBuy mnt (rw_mgr w) of Some t \<Rightarrow> (case t_attempts t of Some a \<Rightarrow> a | None \<Rightarrow> 0) | None \<Rightarrow> 0) + 1)"

text \<open>The part before the batch; \<open>None\<close> when the coin is skipped.\<close>

definition begin_buy :: "round_env \<Rightarrow> plan_item \<Rightarrow> rworld \<Rightarrow> string option \<times> rworld" where
  "begin_buy env item w =
     (let (mnt, sol) = item in
      if sol \<le> 0
      then (None, r_metric ''tokenSkippedZeroBudget'' 1
             (r_mut env (\<lambda>now. markTokenBuyFailed now mnt ''Adjusted amount <= 0'') w))
      else let file = coin_file mnt w
           in (Some file, r_mut env (\<lambda>now. startTokenBuy now mnt file) w))"

definition run_batch_buy :: "lottery_env \<Rightarrow> number \<Rightarrow> plan_item \<Rightarrow> string \<Rightarrow> string + world" where
  "run_batch_buy le window item file =
     (let side = le_buy le file;
          params = \<lparr>bp_mint = fst item, bp_totalSolAmount = snd item, bp_windowMinutes = Some window,
            bp_retryBufferMinutes = None, bp_startSlippageBps = None, bp_maxSlippageBps = None,
            bp_stateFilePath = Some file\<rparr>
      in case by_blockers side of
          Inl msg \<Rightarrow> Inl msg
        | Inr blockers \<Rightarrow> batchBuy (by_outside side) params blockers (by_hasAta side) (by_rnd1 side) (by_rnd2 side)
            (by_runId side) (by_random side))"

text \<open>The part after the batch.\<close>

definition end_buy :: "round_env \<Rightarrow> mint \<Rightarrow> string + world \<Rightarrow> rworld \<Rightarrow> rworld" where
  "end_buy env mnt result w =
     (case result of
        Inl msg \<Rightarrow> r_mut env (\<lambda>now. markTokenBuyFailed now mnt msg) w
      | Inr b \<Rightarrow>
          let st = bstate (w_mgr b); summary = b_summary st;
              w1 = r_mut env (\<lambda>now. addTokenBuySpent now mnt (totalSolSpent summary)) w
          in if completedPurchases summary = 0
             then r_mut env (\<lambda>now. markTokenBuyFailed now mnt
                    (''No purchases completed ('' @ show_int (abandonedPurchases summary) @ '' abandoned)'')) w1
             else r_mut env (\<lambda>now. markTokenBuyCompleted now mnt (runId st) (bpath (w_mgr b))) w1)"

section \<open>Buying and delivering side by side\<close>

text \<open>Coins still to start, batches that run (coin and file), delivery rounds still to come.\<close>

record phase =
  ph_plan :: "plan_item list"
  ph_buying :: "(plan_item \<times> string) list"
  ph_rounds :: "int list"
  ph_world :: rworld

text \<open>The next coin starts when the semaphore has a place; the batch at a place ends; the next
  delivery round takes place. A choice that is not possible now is no step.\<close>

datatype choice = StartBuy | EndBuy nat | NextRound

definition phase_step ::
  "lottery_env \<Rightarrow> number \<Rightarrow> int \<Rightarrow> int \<Rightarrow> choice \<Rightarrow> phase \<Rightarrow> js_error option \<times> phase" where
  "phase_step le window places rounds c p =
     (let env = le_round le in
      case c of
        StartBuy \<Rightarrow>
          (case ph_plan p of
             [] \<Rightarrow> (None, p)
           | item # rest \<Rightarrow>
               if int (length (ph_buying p)) < places
               then let (file, w) = begin_buy env item (ph_world p)
                    in (None, p\<lparr>ph_plan := rest, ph_world := w,
                          ph_buying := ph_buying p @ (case file of Some f \<Rightarrow> [(item, f)] | None \<Rightarrow> [])\<rparr>)
               else (None, p))
      | EndBuy i \<Rightarrow>
          if i < length (ph_buying p)
          then let (item, file) = ph_buying p ! i
               in (None, p\<lparr>ph_buying := take i (ph_buying p) @ drop (Suc i) (ph_buying p),
                     ph_world := end_buy env (fst item) (run_batch_buy le window item file) (ph_world p)\<rparr>)
          else (None, p)
      | NextRound \<Rightarrow>
          (case ph_rounds p of
             [] \<Rightarrow> (None, p)
           | r # rest \<Rightarrow>
               let (e, w) = one_round env (le_cfg le) (le_loads le) False rounds r (r_tick (ph_world p))
               in (e, p\<lparr>ph_rounds := rest, ph_world := w\<rparr>)))"

text \<open>\<open>Promise.all\<close> rejects as soon as one of the two rejects. The purchases are not stopped by that:
  the batches still running, and the coins still waiting, stay in the phase.\<close>

fun run_choices ::
  "lottery_env \<Rightarrow> number \<Rightarrow> int \<Rightarrow> int \<Rightarrow> choice list \<Rightarrow> phase \<Rightarrow> js_error option \<times> phase" where
  "run_choices le window places rounds [] p = (None, p)"
| "run_choices le window places rounds (c # cs) p =
     (case phase_step le window places rounds c p of
        (Some e, p1) \<Rightarrow> (Some e, p1)
      | (None, p1) \<Rightarrow> run_choices le window places rounds cs p1)"

text \<open>What is left when the choices are used up happens in order: first the rounds, then the coins.\<close>

definition rest_of :: "phase \<Rightarrow> choice list" where
  "rest_of p = replicate (length (ph_rounds p)) NextRound @ replicate (length (ph_buying p)) (EndBuy 0) @
     concat (replicate (length (ph_plan p)) [StartBuy, EndBuy 0])"

definition buy_and_send ::
  "lottery_env \<Rightarrow> number \<Rightarrow> int \<Rightarrow> int \<Rightarrow> choice list \<Rightarrow> plan_item list \<Rightarrow> rworld \<Rightarrow> js_error option \<times> phase" where
  "buy_and_send le window places rounds choices plan w =
     (case run_choices le window places rounds choices \<lparr>ph_plan = plan, ph_buying = [], ph_rounds = [1..rounds], ph_world = w\<rparr> of
        (Some e, p) \<Rightarrow> (Some e, p)
      | (None, p) \<Rightarrow> run_choices le window places rounds (rest_of p) p)"

section \<open>The sweep\<close>

definition SWEEP_DELAYS_MS :: "millis list" where "SWEEP_DELAYS_MS = [0, 30000, 120000]"

definition revivable :: "SendRecord \<Rightarrow> bool" where
  "revivable s \<longleftrightarrow> s_status s = SAbandoned \<and> truthy_string (s_error s) \<and> s_attempts s < MAX_SEND_ATTEMPTS \<and>
     fst (classifyError (plain_error (the (s_error s)))) \<noteq> NonRetryable"

definition revive_one :: "round_env \<Rightarrow> string \<Rightarrow> rworld \<Rightarrow> rworld" where
  "revive_one env i w =
     (if revivable (the_send i w)
      then r_metric ''sweep.resetToPending'' 1 (up_send env i (\<lambda>r. r\<lparr>s_status := SPending\<rparr>) w)
      else w)"

definition revivePendingSends :: "round_env \<Rightarrow> rworld \<Rightarrow> rworld" where
  "revivePendingSends env w = fold (revive_one env) (map s_id (sends (lstate (rw_mgr w)))) w"

definition still_pending :: "rworld \<Rightarrow> bool" where
  "still_pending w \<longleftrightarrow> list_ex (\<lambda>s. s_status s = SPending) (sends (lstate (rw_mgr w)))"

fun sweep_passes :: "lottery_env \<Rightarrow> bool \<Rightarrow> millis list \<Rightarrow> rworld \<Rightarrow> js_error option \<times> rworld" where
  "sweep_passes le first [] w = (None, w)"
| "sweep_passes le first (delay # delays) w =
     (let w1 = (if first then w else revivePendingSends (le_round le) w) in
      if \<not> still_pending w1 then (None, w1)
      else case executeSendRounds (le_round le) (le_cfg le) (le_loads le) True 1 w1 of
          (Some e, w2) \<Rightarrow> (Some e, w2)
        | (None, w2) \<Rightarrow> sweep_passes le False delays w2)"

definition sweep :: "lottery_env \<Rightarrow> rworld \<Rightarrow> js_error option \<times> rworld" where
  "sweep le w =
     (let w1 = revivePendingSends (le_round le) w
      in if still_pending w1 then sweep_passes le True SWEEP_DELAYS_MS w1 else (None, w1))"

section \<open>Supplies\<close>

definition supply_at_start :: "lottery_env \<Rightarrow> mint \<Rightarrow> rworld \<Rightarrow> rworld" where
  "supply_at_start le mnt w =
     (case le_supply le (rw_step w) mnt of
        Some (amount, decimals) \<Rightarrow> r_mut (le_round le)
          (\<lambda>now. updateTokenBuy now mnt (\<lambda>t. t\<lparr>t_supplyAtStart := Some amount, t_decimals := Some decimals\<rparr>)) (r_tick w)
      | None \<Rightarrow> r_tick w)"

definition supply_at_end :: "lottery_env \<Rightarrow> mint \<Rightarrow> rworld \<Rightarrow> rworld" where
  "supply_at_end le mnt w =
     (if \<not> hasBurn (sharesOf (lstate (rw_mgr w)) mnt) then w
      else case le_supply le (rw_step w) mnt of
          Some (amount, _) \<Rightarrow> r_mut (le_round le) (\<lambda>now. updateTokenBuy now mnt (\<lambda>t. t\<lparr>t_supplyAtEnd := Some amount\<rparr>)) (r_tick w)
        | None \<Rightarrow> r_tick w)"

definition round_mints :: "rworld \<Rightarrow> mint list" where
  "round_mints w = map t_mint (tokenBuys (lstate (rw_mgr w)))"

section \<open>The whole run\<close>

text \<open>Phase 2: what broke it off, if anything did, and the purchases still on their way.\<close>

definition phase_two ::
  "lottery_env \<Rightarrow> number \<Rightarrow> int \<Rightarrow> int \<Rightarrow> choice list \<Rightarrow> plan_item list \<Rightarrow> rworld \<Rightarrow> js_error option \<times> phase" where
  "phase_two le window places rounds choices plan w =
     (let env = le_round le in
      case buy_and_send le window places rounds choices plan w of
        (Some e, p) \<Rightarrow> (Some e, p)
      | (None, p) \<Rightarrow>
      (case settleAfterBuying env (le_loads le) (settle_balance env) rounds (ph_world p) of
        (Inl e, w1) \<Rightarrow> (Some e, p\<lparr>ph_world := w1\<rparr>)
      | (Inr settled, w1) \<Rightarrow>
      (case sweep le w1 of
        (Some e, w2) \<Rightarrow> (Some e, p\<lparr>ph_world := w2\<rparr>)
      | (None, w2) \<Rightarrow>
      (case finishBurns env (le_loads le) (sr_burnsWaiting settled) w2 of
        (Inl e, w3) \<Rightarrow> (Some e, p\<lparr>ph_world := w3\<rparr>)
      | (Inr waiting, w3) \<Rightarrow> (None, p\<lparr>ph_world := fold (supply_at_end le) (round_mints w3) w3\<rparr>)))))"

text \<open>Phase 2.9. An error of \<open>readKeeperDebits\<close> is caught: nothing is refunded.\<close>

definition return_unspent :: "lottery_env \<Rightarrow> fworld \<Rightarrow> fworld" where
  "return_unspent le f =
     (let env = le_round le; w = fw_base f; st = lstate (rw_mgr w); load = le_loads le (rw_step w)
      in case readKeeperDebits (re_rpc env (rw_step w)) None (collectRoundSignatures st load) (re_keeper env) of
          Inl e \<Rightarrow> f\<lparr>fw_base := r_tick w\<rparr>
        | Inr debits \<Rightarrow> snd (refundUnspent env (le_cfg le) (buildRefundLedger st load debits) (f\<lparr>fw_base := r_tick w\<rparr>)))"

definition runBuyAndSend ::
  "lottery_env \<Rightarrow> number \<Rightarrow> int \<Rightarrow> int \<Rightarrow> choice list \<Rightarrow> plan_item list \<Rightarrow> fworld \<Rightarrow>
    (js_error + LotterySummary) \<times> phase \<times> fworld" where
  "runBuyAndSend le window places rounds choices plan f =
     (let (phaseError, p) = phase_two le window places rounds choices plan (fw_base f);
          f1 = return_unspent le (f\<lparr>fw_base := ph_world p\<rparr>);
          b = fw_base f1;
          f2 = f1\<lparr>fw_base := b\<lparr>rw_mgr := l_finalize (re_clock (le_round le) (rw_step b)) (rw_mgr b)\<rparr>\<rparr>
      in (case phaseError of Some e \<Rightarrow> Inl e | None \<Rightarrow> Inr (l_summary (lstate (rw_mgr (fw_base f2)))), p, f2))"

definition executeLottery ::
  "lottery_env \<Rightarrow> string \<Rightarrow> TokenEntry list \<Rightarrow> LotteryConfig \<Rightarrow> string option \<Rightarrow> choice list \<Rightarrow>
    (js_error + LotterySummary) \<times> phase \<times> fworld" where
  "executeLottery le i tokens cfg stateFilePath choices =
     (let path = (if truthy_string stateFilePath then the stateFilePath else getDefaultLotteryStatePath i);
          env = le_round le;
          st = prepare_round (re_clock env 0) (\<lambda>mnt wal. re_account env 0 mnt wal) i tokens cfg;
          w0 = \<lparr>rw_mgr = l_create st path, rw_step = 1, rw_signed = [], rw_sent = []\<rparr>;
          w1 = fold (supply_at_start le) (map t_mint (tokenBuys st)) w0
      in runBuyAndSend le (buyWindowMinutes cfg) (buyConcurrency cfg) (sendRounds cfg) choices
           (zip (map te_mint tokens) (map t_adjusted (tokenBuys st))) \<lparr>fw_base = w1, fw_paid = []\<rparr>)"

end
