(* ===== verification/Send_Safety.thy ===== *)
theory Send_Safety
  imports Sends
begin

text \<open>
  A delivery is paid by at most one transaction. \<open>sr i w\<close> is what the round's state says of the
  delivery \<open>i\<close>, less the time stamp; the batches signed so far are in \<open>rw_sent\<close>. The invariant of a
  record: a signed transaction of it that lands is the one it was completed with or the one it still
  carries as pending. Everything that signs a new batch first makes sure there is no pending one left.
\<close>

section \<open>Records without their time stamp\<close>

definition bare :: "SendRecord \<Rightarrow> SendRecord" where
  "bare r = r\<lparr>s_updatedAt := 0\<rparr>"

definition sr :: "string \<Rightarrow> rworld \<Rightarrow> SendRecord option" where
  "sr i w = map_option bare (getSend i (rw_mgr w))"

definition unstamped :: "(SendRecord \<Rightarrow> SendRecord) \<Rightarrow> bool" where
  "unstamped f \<longleftrightarrow> (\<forall>r t. (f r)\<lparr>s_updatedAt := t\<rparr> = f (r\<lparr>s_updatedAt := t\<rparr>)) \<and> (\<forall>r. s_id (f r) = s_id r)"

lemma bare_fields [simp]:
  "s_id (bare r) = s_id r" "s_mint (bare r) = s_mint r" "s_recipient (bare r) = s_recipient r"
  "s_status (bare r) = s_status r" "s_pending (bare r) = s_pending r" "s_limit (bare r) = s_limit r"
  "s_signature (bare r) = s_signature r" "s_attempts (bare r) = s_attempts r" "s_amount (bare r) = s_amount r"
  "s_gross (bare r) = s_gross r" "s_betSol (bare r) = s_betSol r" "s_hadAta (bare r) = s_hadAta r"
  by (simp_all add: bare_def)

lemma sr_up:
  assumes "unstamped f"
  shows "sr j (up_send env i f w) = (if j = i then map_option f (sr i w) else sr j w)"
proof -
  have "bare ((f r)\<lparr>s_updatedAt := t\<rparr>) = f (bare r)" for r t
    using assms by (simp add: unstamped_def bare_def)
  moreover have "\<And>r. s_id (f r) = s_id r" using assms by (simp add: unstamped_def)
  ultimately show ?thesis
    by (simp add: sr_def up_send_def sends.get_sure option.map_comp comp_def)
qed

lemma getSend_metric [simp]: "getSend i (l_incrementMetric k n m) = getSend i m"
  by (simp add: getSend_def)

lemma sr_rest [simp]: "sr i (r_metric k n w) = sr i w" "sr i (r_tick w) = sr i w"
  by (simp_all add: sr_def)

lemma up_sent [simp]: "rw_sent (up_send env i f w) = rw_sent w" "rw_step (up_send env i f w) = rw_step w"
  by (simp_all add: up_send_def)

lemma the_send_sr:
  "sr i w = Some r \<Longrightarrow> s_status (the_send i w) = s_status r \<and> s_pending (the_send i w) = s_pending r \<and>
    s_limit (the_send i w) = s_limit r \<and> s_attempts (the_send i w) = s_attempts r \<and>
    s_recipient (the_send i w) = s_recipient r"
  by (auto simp: sr_def the_send_def)

lemma for_each_simps [simp]:
  "for_each f [] w = w" "for_each f (i # ids) w = for_each f ids (f i w)"
  by (simp_all add: for_each_def)

lemma for_each_sr:
  assumes "\<And>i j w. sr j (g i w) = (if j = i then map_option (F i) (sr i w) else sr j w)"
    and "distinct ids"
  shows "sr j (for_each g ids w) = (if j \<in> set ids then map_option (F j) (sr j w) else sr j w)"
  using assms(2) by (induction ids arbitrary: w) (auto simp: assms(1))

lemma for_each_sent:
  assumes "\<And>i w. rw_sent (g i w) = rw_sent w"
  shows "rw_sent (for_each g ids w) = rw_sent w"
  by (induction ids arbitrary: w) (simp_all add: assms)

section \<open>The invariant\<close>

definition batches :: "string \<Rightarrow> rworld \<Rightarrow> (signature \<times> int option) set" where
  "batches i w = {(s, l). \<exists>ps. (s, l, ps) \<in> set (rw_sent w) \<and> i \<in> fst ` set ps}"

definition rec_ok :: "(signature \<Rightarrow> bool) \<Rightarrow> (signature \<times> int option) set \<Rightarrow> SendRecord \<Rightarrow> bool" where
  "rec_ok landed B r \<longleftrightarrow>
     (\<forall>(s, l) \<in> B. landed s \<longrightarrow> s_pending r = Some s \<or> s_signature r = Some s) \<and>
     (truthy_string (s_pending r) \<longrightarrow> (the (s_pending r), s_limit r) \<in> B \<and> s_signature r = None) \<and>
     (case s_signature r of
        None \<Rightarrow> s_status r \<noteq> SCompleted
      | Some s \<Rightarrow> s_status r \<in> {SCompleted, SAtaMismatch} \<and> landed s \<and> s \<in> fst ` B)"

definition send_inv :: "round_env \<Rightarrow> (signature \<Rightarrow> bool) \<Rightarrow> rworld \<Rightarrow> bool" where
  "send_inv env landed w \<longleftrightarrow>
     (\<forall>i r. sr i w = Some r \<longrightarrow> rec_ok landed (batches i w) r) \<and>
     (\<forall>(s, l, ps) \<in> set (rw_sent w). s \<noteq> [] \<and> (\<exists>n. re_sign env n = Inr (s, l)))"

text \<open>What the chain and the node promise of a signed delivery: the outcome read for it is the truth, a
  confirmed sending landed, and a batch refused as too large never does. Nothing that fails before
  the signature is a \<open>PostSendError\<close>.\<close>

definition reads_plain :: "round_env \<Rightarrow> bool" where
  "reads_plain env \<longleftrightarrow>
     (\<forall>k mnt e. re_inspect env k mnt = Inl e \<longrightarrow> \<not> epost e) \<and> (\<forall>k e. re_epoch env k = Inl e \<longrightarrow> \<not> epost e) \<and>
     (\<forall>k w e. re_hook env k w = Some e \<longrightarrow> \<not> epost e)"

lemma instructions_plain:
  "reads_plain env \<Longrightarrow> recipient_instructions env k report epoch rs = Inl e \<Longrightarrow> \<not> epost e"
proof (induction rs arbitrary: k)
  case (Cons r rs)
  then show ?case
    by (auto simp: transfer_instruction_def reads_plain_def Let_def split: sum.splits if_splits option.splits)
qed simp

lemma build_plain:
  assumes "reads_plain env" "buildBatchSendTransaction env cfg mnt rs w = (Inl e, w')"
  shows "\<not> epost e"
  using assms instructions_plain [OF assms(1)]
  by (auto simp: buildBatchSendTransaction_def Let_def plain_error_def reads_plain_def
      split: if_splits option.splits sum.splits prod.splits)

definition send_laws :: "round_env \<Rightarrow> (signature \<Rightarrow> bool) \<Rightarrow> bool" where
  "send_laws env landed \<longleftrightarrow> node_sends env \<and>
     (\<forall>n sig limit. re_sign env n = Inr (sig, limit) \<longrightarrow> sig \<noteq> [] \<and>
        (\<forall>k. (signatureOutcome limit (re_height env k) (re_status env k sig) = Landed \<longrightarrow> landed sig) \<and>
             (signatureOutcome limit (re_height env k) (re_status env k sig) \<in> {Absent, FailedOnChain} \<longrightarrow> \<not> landed sig) \<and>
             (\<forall>s. sendSignedTransaction env k sig limit = Inr s \<longrightarrow> landed sig) \<and>
             (\<forall>e. sendSignedTransaction env k sig limit = Inl e \<longrightarrow> isBatchTooLargeError e \<longrightarrow> \<not> landed sig))) \<and>
     (\<forall>k e. re_sign env k = Inl e \<longrightarrow> \<not> epost e) \<and>
     reads_plain env"

lemma send_lawD:
  assumes "send_laws env landed" "re_sign env n = Inr (sig, limit)"
  shows "sig \<noteq> []"
    "signatureOutcome limit (re_height env k) (re_status env k sig) = Landed \<Longrightarrow> landed sig"
    "signatureOutcome limit (re_height env k) (re_status env k sig) \<in> {Absent, FailedOnChain} \<Longrightarrow> \<not> landed sig"
    "sendSignedTransaction env k sig limit = Inr s \<Longrightarrow> s = sig \<and> landed sig"
    "sendSignedTransaction env k sig limit = Inl e \<Longrightarrow> isBatchTooLargeError e \<Longrightarrow> \<not> landed sig"
    "sendSignedTransaction env k sig limit = Inl e \<Longrightarrow> epost e \<Longrightarrow> esig e = Some sig \<and> elimit e = limit"
proof -
  have n: "node_sends env" using assms(1) by (simp add: send_laws_def)
  have L: "sig \<noteq> [] \<and>
        (\<forall>k. (signatureOutcome limit (re_height env k) (re_status env k sig) = Landed \<longrightarrow> landed sig) \<and>
             (signatureOutcome limit (re_height env k) (re_status env k sig) \<in> {Absent, FailedOnChain} \<longrightarrow> \<not> landed sig) \<and>
             (\<forall>s. sendSignedTransaction env k sig limit = Inr s \<longrightarrow> landed sig) \<and>
             (\<forall>e. sendSignedTransaction env k sig limit = Inl e \<longrightarrow> isBatchTooLargeError e \<longrightarrow> \<not> landed sig))"
    using assms unfolding send_laws_def by blast
  then show "sig \<noteq> []"
    "signatureOutcome limit (re_height env k) (re_status env k sig) = Landed \<Longrightarrow> landed sig"
    "signatureOutcome limit (re_height env k) (re_status env k sig) \<in> {Absent, FailedOnChain} \<Longrightarrow> \<not> landed sig"
    "sendSignedTransaction env k sig limit = Inr s \<Longrightarrow> s = sig \<and> landed sig"
    "sendSignedTransaction env k sig limit = Inl e \<Longrightarrow> isBatchTooLargeError e \<Longrightarrow> \<not> landed sig"
    "sendSignedTransaction env k sig limit = Inl e \<Longrightarrow> epost e \<Longrightarrow> esig e = Some sig \<and> elimit e = limit"
    using send_signed_signature [OF n] by blast+
qed

text \<open>One record changes, no batch is signed.\<close>

lemma inv_up:
  assumes "send_inv env landed w" "unstamped f"
    and "\<And>r. sr i w = Some r \<Longrightarrow> rec_ok landed (batches i w) r \<Longrightarrow> rec_ok landed (batches i w) (f r)"
  shows "send_inv env landed (up_send env i f w)"
  using assms by (auto simp: send_inv_def sr_up batches_def split: if_splits)

lemma inv_rest:
  "send_inv env landed w \<Longrightarrow> send_inv env landed (r_metric k n w)"
  "send_inv env landed w \<Longrightarrow> send_inv env landed (r_tick w)"
  by (simp_all add: send_inv_def batches_def)

lemma inv_same:
  assumes "send_inv env landed w" "\<And>i. sr i w' = sr i w" "rw_sent w' = rw_sent w"
  shows "send_inv env landed w'"
  using assms by (simp add: send_inv_def batches_def)

section \<open>Looking up a pending signature\<close>

lemma unstamped_update [simp]:
  "unstamped (\<lambda>r. r\<lparr>s_failedSigs := s_failedSigs r @ [x], s_pending := a, s_limit := l\<rparr>)"
  "unstamped (\<lambda>r. r\<lparr>s_pending := a, s_limit := l\<rparr>)"
  "unstamped (\<lambda>r. r\<lparr>s_status := st, s_signature := b, s_pending := a, s_limit := l, s_gross := s_amount r\<rparr>)"
  "unstamped (\<lambda>r. r\<lparr>s_status := st, s_amount := am\<rparr>)"
  "unstamped (\<lambda>r. r\<lparr>s_status := st, s_signature := b, s_pending := a, s_limit := l, s_amount := am, s_gross := g,
     s_attempts := s_attempts r + 1\<rparr>)"
  "unstamped (\<lambda>r. r\<lparr>s_failedSigs := (if q then s_failedSigs r @ [x] else s_failedSigs r), s_pending := a, s_limit := l\<rparr>)"
  "unstamped (\<lambda>r. r\<lparr>s_status := st, s_error := er, s_attempts := s_attempts r + 1\<rparr>)"
  "unstamped (\<lambda>r. r\<lparr>s_status := st, s_error := er, s_attempts := s_attempts r + 1, s_pending := a, s_limit := l\<rparr>)"
  "unstamped (\<lambda>r. r\<lparr>s_status := st, s_ataMismatch := mm, s_error := er\<rparr>)"
  "unstamped (\<lambda>r. r\<lparr>s_status := st\<rparr>)"
  by (simp_all add: unstamped_def)

definition clear_of :: "string \<Rightarrow> rworld \<Rightarrow> bool" where
  "clear_of i w \<longleftrightarrow> (\<forall>r. sr i w = Some r \<longrightarrow> \<not> truthy_string (s_pending r))"

lemma check_other: "checkPendingSend env i w = (v, w') \<Longrightarrow> j \<noteq> i \<Longrightarrow> sr j w' = sr j w"
  by (auto simp: checkPendingSend_def ask_signature_def Let_def sr_up split: if_splits SignatureOutcome.splits)

lemma check_sent: "checkPendingSend env i w = (v, w') \<Longrightarrow> rw_sent w' = rw_sent w"
  by (auto simp: checkPendingSend_def ask_signature_def Let_def split: if_splits SignatureOutcome.splits)

lemma won_ok:
  assumes "rec_ok landed B r" "s_pending r = Some sig" "sig \<noteq> []" "landed sig"
  shows "rec_ok landed B (r\<lparr>s_status := SCompleted, s_signature := Some sig, s_pending := None,
      s_limit := None, s_gross := g\<rparr>)"
proof -
  have "(sig, s_limit r) \<in> B" "\<forall>(s, l) \<in> B. landed s \<longrightarrow> s = sig"
    using assms(1-3) by (auto simp: rec_ok_def truthy_string_def)
  moreover from this(1) have "sig \<in> fst ` B" by force
  ultimately show ?thesis using assms(4) by (auto simp: rec_ok_def)
qed

lemma pending_signed:
  assumes "send_inv env landed w" "sr i w = Some r" "truthy_string (s_pending r)"
  shows "\<exists>n. re_sign env n = Inr (the (s_pending r), s_limit r)"
proof -
  have "(the (s_pending r), s_limit r) \<in> batches i w" using assms by (simp add: send_inv_def rec_ok_def)
  with assms(1) show ?thesis by (auto simp: send_inv_def batches_def)
qed

lemma check_ok:
  assumes laws: "send_laws env landed" and inv: "send_inv env landed w"
    and run: "checkPendingSend env i w = (v, w')" and i: "sr i w = Some r"
  shows "send_inv env landed w' \<and> (v \<noteq> FateUnknown \<longrightarrow> clear_of i w') \<and> (\<exists>r'. sr i w' = Some r' \<and> s_recipient r' = s_recipient r)"
proof (cases "truthy_string (s_pending r)")
  case False
  then show ?thesis using run inv i the_send_sr [OF i] by (simp add: checkPendingSend_def clear_of_def)
next
  case True
  then obtain sig where sig: "s_pending r = Some sig" "sig \<noteq> []" by (auto simp: truthy_string_def split: option.splits)
  have ok: "rec_ok landed (batches i w) r" using inv i by (simp add: send_inv_def)
  obtain n where n: "re_sign env n = Inr (sig, s_limit r)" using pending_signed [OF inv i True] sig by auto
  let ?out = "signatureOutcome (s_limit r) (re_height env (rw_step w)) (re_status env (rw_step w) sig)"
  note law = send_lawD(2,3) [OF laws n, of "rw_step w"]
  have tick: "send_inv env landed (r_tick w)" "sr i (r_tick w) = Some r" using inv i by (simp_all add: inv_rest)
  have gone: "rec_ok landed (batches i w) (f r)" if "\<not> landed sig" "s_status (f r) = s_status r" "s_signature (f r) = s_signature r"
    "s_pending (f r) = None" for f
    using ok that sig by (auto simp: rec_ok_def truthy_string_def split: if_splits)
  note won = won_ok [OF ok sig]
  show ?thesis
  proof (cases ?out)
    case Landed
    have "send_inv env landed (up_send env i (\<lambda>r. r\<lparr>s_status := SCompleted, s_signature := Some sig,
        s_pending := None, s_limit := None, s_gross := s_amount r\<rparr>) (r_tick w))"
      using won law(1) [OF Landed] i by (intro inv_up [OF tick(1)]) (auto simp: batches_def)
    with Landed run sig i the_send_sr [OF i] show ?thesis
      by (auto simp: checkPendingSend_def ask_signature_def truthy_string_def inv_rest sr_up clear_of_def)
  next
    case Absent
    have "send_inv env landed (up_send env i (\<lambda>r. r\<lparr>s_pending := None, s_limit := None\<rparr>) (r_tick w))"
      using gone [of "\<lambda>r. r\<lparr>s_pending := None, s_limit := None\<rparr>"] law(2) Absent i
      by (intro inv_up [OF tick(1)]) (auto simp: batches_def)
    with Absent run sig i the_send_sr [OF i] show ?thesis
      by (auto simp: checkPendingSend_def ask_signature_def truthy_string_def sr_up clear_of_def)
  next
    case FailedOnChain
    have "send_inv env landed (up_send env i (\<lambda>r. r\<lparr>s_failedSigs := s_failedSigs r @ [sig], s_pending := None, s_limit := None\<rparr>) (r_tick w))"
      using gone [of "\<lambda>r. r\<lparr>s_failedSigs := s_failedSigs r @ [sig], s_pending := None, s_limit := None\<rparr>"] law(2) FailedOnChain i
      by (intro inv_up [OF tick(1)]) (auto simp: batches_def)
    with FailedOnChain run sig i the_send_sr [OF i] show ?thesis
      by (auto simp: checkPendingSend_def ask_signature_def truthy_string_def sr_up clear_of_def)
  next
    case UnknownYet
    with run sig i the_send_sr [OF i] tick show ?thesis
      by (auto simp: checkPendingSend_def ask_signature_def truthy_string_def inv_rest)
  qed
qed

section \<open>One attempt at a batch\<close>

text \<open>A record that may go into a batch, and one whose transaction has just been signed.\<close>

definition ready :: "rworld \<Rightarrow> string \<Rightarrow> bool" where
  "ready w i \<longleftrightarrow> (\<exists>r. sr i w = Some r \<and> s_signature r = None \<and> \<not> truthy_string (s_pending r))"

definition carries :: "signature \<Rightarrow> int option \<Rightarrow> rworld \<Rightarrow> string \<Rightarrow> bool" where
  "carries sig limit w i \<longleftrightarrow> (sig, limit) \<in> batches i w \<and>
     (\<exists>r. sr i w = Some r \<and> s_signature r = None \<and> s_pending r = Some sig \<and> s_limit r = limit)"

definition untouched :: "string list \<Rightarrow> rworld \<Rightarrow> rworld \<Rightarrow> bool" where
  "untouched ids w w' \<longleftrightarrow> (\<forall>j. j \<notin> set ids \<longrightarrow> sr j w' = sr j w \<and> batches j w' = batches j w)"

lemma untouched_trans: "untouched ids a b \<Longrightarrow> untouched ids b c \<Longrightarrow> untouched ids a c"
  by (simp add: untouched_def)

lemma untouched_refl: "untouched ids w w"
  by (simp add: untouched_def)

lemma ready_not_landed:
  "send_inv env landed w \<Longrightarrow> ready w i \<Longrightarrow> (s, l) \<in> batches i w \<Longrightarrow> \<not> landed s"
  unfolding send_inv_def ready_def rec_ok_def batches_def truthy_string_def by fastforce

lemma ready_rec_ok:
  "send_inv env landed w \<Longrightarrow> ready w i \<Longrightarrow> s_signature r = None \<Longrightarrow> s_status r \<noteq> SCompleted \<Longrightarrow> \<not> truthy_string (s_pending r) \<Longrightarrow>
    rec_ok landed (batches i w) r"
  using ready_not_landed [of env landed w i] by (auto simp: rec_ok_def)

lemma for_each_up:
  assumes "\<And>i. unstamped (f i)" "distinct ids"
  shows "sr j (for_each (\<lambda>i. up_send env i (f i)) ids w) = (if j \<in> set ids then map_option (f j) (sr j w) else sr j w)"
  by (rule for_each_sr) (simp_all add: sr_up assms)

lemma for_each_up_sent [simp]: "rw_sent (for_each (\<lambda>i. up_send env i (f i)) ids w) = rw_sent w"
  by (rule for_each_sent) simp

lemma batches_sent: "rw_sent w' = rw_sent w \<Longrightarrow> batches i w' = batches i w"
  by (simp add: batches_def)

lemma mark_ok:
  assumes "send_inv env landed w" "distinct ids" "list_all (ready w) ids"
  shows "send_inv env landed (mark_batch env amounts ids w) \<and> list_all (ready (mark_batch env amounts ids w)) ids \<and>
    untouched ids w (mark_batch env amounts ids w)"
proof -
  let ?w = "mark_batch env amounts ids w"
  have s: "sr j ?w = (if j \<in> set ids then map_option (\<lambda>r. r\<lparr>s_status := SInProgress, s_amount := jm_get amounts j\<rparr>) (sr j w)
      else sr j w)" for j
    unfolding mark_batch_def by (rule for_each_up [OF _ assms(2)]) simp
  have sent: "rw_sent ?w = rw_sent w" by (simp add: mark_batch_def)
  have "rec_ok landed (batches i w) (r\<lparr>s_status := SInProgress, s_amount := a\<rparr>)"
    if "sr i w = Some r" "i \<in> set ids" for i r a
    using that assms(3) by (intro ready_rec_ok [OF assms(1)]) (auto simp: list_all_iff ready_def)
  then have "send_inv env landed ?w"
    using assms(1) by (auto simp: send_inv_def s sent batches_sent [OF sent] split: if_splits)
  then show ?thesis
    using assms(3) by (fastforce simp: list_all_iff ready_def untouched_def s batches_sent [OF sent])
qed

lemma sr_step [simp]: "sr i (w\<lparr>rw_step := k\<rparr>) = sr i w" "rw_sent (w\<lparr>rw_step := k\<rparr>) = rw_sent w"
  by (simp_all add: sr_def)

lemma signed_ok:
  assumes inv: "send_inv env landed w" and ids: "distinct ids" "list_all (ready w) ids"
    and sign: "re_sign env n = Inr (sig, limit)" "sig \<noteq> []"
  shows "send_inv env landed (on_signed env amounts ids sig limit w) \<and>
    list_all (carries sig limit (on_signed env amounts ids sig limit w)) ids \<and>
    untouched ids w (on_signed env amounts ids sig limit w)"
proof -
  let ?w = "on_signed env amounts ids sig limit w"
  let ?v = "w\<lparr>rw_sent := rw_sent w @ [(sig, limit, map (\<lambda>i. (i, get_or0 amounts i)) ids)]\<rparr>"
  have "sr j ?v = sr j w" for j by (simp add: sr_def)
  then have s: "sr j ?w = (if j \<in> set ids then map_option (\<lambda>r. r\<lparr>s_pending := Some sig, s_limit := limit\<rparr>) (sr j w)
      else sr j w)" for j
    unfolding on_signed_def by (subst for_each_up [OF _ ids(1)]) simp_all
  have sent: "rw_sent ?w = rw_sent w @ [(sig, limit, map (\<lambda>i. (i, get_or0 amounts i)) ids)]"
    by (simp add: on_signed_def)
  have b: "batches j ?w = (if j \<in> set ids then insert (sig, limit) (batches j w) else batches j w)" for j
    by (auto simp: batches_def sent image_iff)
  have "rec_ok landed (insert (sig, limit) (batches i w)) (r\<lparr>s_pending := Some sig, s_limit := limit\<rparr>)"
    if "sr i w = Some r" "i \<in> set ids" for i r
  proof -
    have "s_signature r = None" "\<not> truthy_string (s_pending r)" using that ids(2) by (auto simp: list_all_iff ready_def)
    moreover have "\<not> landed s" if "(s, l) \<in> batches i w" for s l
      using ready_not_landed [OF inv _ that] \<open>i \<in> set ids\<close> ids(2) by (simp add: list_all_iff)
    moreover have "rec_ok landed (batches i w) r" using inv that(1) by (simp add: send_inv_def)
    ultimately show ?thesis by (auto simp: rec_ok_def)
  qed
  then have "send_inv env landed ?w"
    using inv sign by (auto simp: send_inv_def s b sent split: if_splits)
  then show ?thesis
    using ids(2) by (fastforce simp: list_all_iff ready_def carries_def untouched_def s b)
qed

lemma complete_ok:
  assumes "send_inv env landed w" "distinct (map fst parts)" "list_all (carries sig limit w) (map fst parts)" "landed sig"
  shows "send_inv env landed (complete_batch env amounts sweep sig parts w) \<and>
    untouched (map fst parts) w (complete_batch env amounts sweep sig parts w)"
proof -
  let ?f = "\<lambda>i arrived r. r\<lparr>s_status := SCompleted, s_signature := Some sig,
            s_pending := None, s_limit := None, s_amount := Some arrived, s_gross := jm_get amounts i,
            s_attempts := s_attempts r + 1\<rparr>"
  have "send_inv env landed (fold (\<lambda>(i, arrived). up_send env i (?f i arrived)) parts w) \<and>
    untouched (map fst parts) w (fold (\<lambda>(i, arrived). up_send env i (?f i arrived)) parts w)"
    using assms(1,2,3)
  proof (induction parts arbitrary: w)
    case (Cons p parts)
    obtain i a where p: "p = (i, a)" by (cases p)
    let ?w = "up_send env i (?f i a) w"
    have c: "carries sig limit w i" using Cons.prems(3) by (simp add: p)
    have "rec_ok landed (batches i w) (?f i a r)" if r: "sr i w = Some r" "rec_ok landed (batches i w) r" for r
      using c r assms(4) by (auto simp: carries_def rec_ok_def truthy_string_def split: if_splits intro: rev_image_eqI)
    then have inv: "send_inv env landed ?w" by (intro inv_up [OF Cons.prems(1)]) simp_all
    have s: "sr j ?w = (if j = i then map_option (?f i a) (sr i w) else sr j w)" for j by (simp add: sr_up)
    have b: "batches j ?w = batches j w" for j by (simp add: batches_def)
    have "list_all (carries sig limit ?w) (map fst parts)"
      using Cons.prems(2,3) by (auto simp: list_all_iff carries_def s b p image_iff)
    from Cons.IH [OF inv _ this] Cons.prems(2) show ?case
      by (auto simp: p untouched_def s b)
  qed (simp add: untouched_refl)
  then show ?thesis by (auto simp: complete_batch_def Let_def inv_rest untouched_def batches_def)
qed

lemma try_batch_ok:
  assumes laws: "send_laws env landed" and inv: "send_inv env landed w"
    and ids: "distinct ids" "list_all (ready w) ids"
    and run: "try_batch env cfg mnt amounts sweep ids w = (x, w')"
  shows "send_inv env landed w' \<and> untouched ids w w' \<and>
    (\<forall>e. x = Some e \<longrightarrow> (list_all (ready w') ids \<and> \<not> epost e) \<or>
       (\<exists>n k sig limit. re_sign env n = Inr (sig, limit) \<and> sendSignedTransaction env k sig limit = Inl e \<and>
          list_all (carries sig limit w') ids))"
proof -
  let ?w1 = "mark_batch env amounts ids w"
  let ?rs = "map (\<lambda>i. (s_recipient (the_send i w), get_or0 amounts i)) ids"
  note mark = mark_ok [OF inv ids, of amounts]
  obtain y w2 where b: "buildBatchSendTransaction env cfg mnt ?rs ?w1 = (y, w2)" by fastforce
  have w2: "w2 = ?w1\<lparr>rw_step := rw_step ?w1 + 5 + length ids\<rparr>" using build_world [OF b] by simp
  have e2: "sr j w2 = sr j ?w1" "batches j w2 = batches j ?w1" "rw_sent w2 = rw_sent ?w1" for j
    by (simp_all add: w2 batches_def)
  then have i2: "send_inv env landed w2" "list_all (ready w2) ids" "untouched ids w w2"
    using mark by (auto intro: inv_same simp: list_all_iff ready_def untouched_def)
  show ?thesis
  proof (cases y)
    case (Inl e)
    then have "\<not> epost e" using laws b build_plain unfolding send_laws_def by blast
    then show ?thesis using run b Inl i2 by (auto simp: try_batch_def Let_def)
  next
    case (Inr result)
    show ?thesis
    proof (cases "re_sign env (rw_step w2)")
      case (Inl e)
      then have "\<not> epost e" using laws by (simp add: send_laws_def)
      moreover have "x = Some e" "w' = r_tick w2"
        using run b \<open>y = Inr result\<close> Inl by (auto simp: try_batch_def sendTransaction_def Let_def)
      ultimately show ?thesis
        using i2 by (auto simp: list_all_iff inv_rest ready_def untouched_def batches_def)
    next
      case signed: (Inr sl)
      obtain sig limit where sl: "sl = (sig, limit)" by (cases sl)
      note sign = signed [unfolded sl]
      let ?w3 = "on_signed env amounts ids sig limit (r_tick w2)"
      have t: "send_inv env landed (r_tick w2)" "list_all (ready (r_tick w2)) ids"
        using i2 by (auto simp: list_all_iff inv_rest ready_def)
      note s = signed_ok [OF t(1) ids(1) t(2) sign send_lawD(1) [OF laws sign], of amounts]
      have u: "untouched ids w (r_tick ?w3)"
        using s i2(3) by (auto simp: untouched_def batches_def)
      have c: "send_inv env landed (r_tick ?w3)" "list_all (carries sig limit (r_tick ?w3)) ids"
        using s by (auto simp: list_all_iff inv_rest carries_def batches_def)
      show ?thesis
      proof (cases "sendSignedTransaction env (rw_step ?w3) sig limit")
        case (Inl e)
        then have "x = Some e" "w' = r_tick ?w3"
          using run b \<open>y = Inr result\<close> sign by (auto simp: try_batch_def sendTransaction_def Let_def)
        then show ?thesis using c u sign Inl by blast
      next
        case (Inr s')
        have l: "length (bs_delivered result) = length ids"
          using b \<open>y = Inr result\<close>
          by (auto simp: buildBatchSendTransaction_def Let_def split: if_splits option.splits sum.splits prod.splits)
        have law: "s' = sig" "landed sig" using send_lawD(4) [OF laws sign Inr] by simp_all
        let ?parts = "zip ids (bs_delivered result)"
        have parts: "map fst ?parts = ids" using l by simp
        have "x = None" "w' = complete_batch env amounts sweep sig ?parts (r_tick ?w3)"
          using run b \<open>y = Inr result\<close> sign Inr law by (auto simp: try_batch_def sendTransaction_def Let_def)
        then show ?thesis
          using complete_ok [OF c(1), of ?parts sig limit amounts sweep] c(2) ids(1) law u
          by (auto simp: parts intro: untouched_trans)
      qed
    qed
  qed
qed

section \<open>After a failed attempt\<close>

lemma carries_only:
  assumes "send_inv env landed w" "carries sig limit w i" "(s, l) \<in> batches i w" "landed s"
  shows "s = sig"
  using assms unfolding send_inv_def carries_def rec_ok_def by fastforce

lemma rec_ok_status:
  assumes "rec_ok landed B r" "s_signature r = None" "s_signature r' = None" "s_status r' \<noteq> SCompleted"
    "s_pending r' = s_pending r" "s_limit r' = s_limit r"
  shows "rec_ok landed B r'"
  using assms by (simp add: rec_ok_def)

lemma drop_ok:
  assumes inv: "send_inv env landed w" and ids: "distinct ids"
    and state: "list_all (ready w) ids \<or> (list_all (carries sig limit w) ids \<and> \<not> landed sig)"
  shows "send_inv env landed (drop_tried env e ids w) \<and> list_all (ready (drop_tried env e ids w)) ids \<and>
    untouched ids w (drop_tried env e ids w)"
proof -
  let ?w = "drop_tried env e ids w"
  let ?t = "if epost e then esig e else None"
  have s: "sr j ?w = (if j \<in> set ids then map_option (\<lambda>r. r\<lparr>
      s_failedSigs := (if truthy_string ?t then s_failedSigs r @ [the ?t] else s_failedSigs r),
      s_pending := None, s_limit := None\<rparr>) (sr j w) else sr j w)" for j
    unfolding drop_tried_def Let_def by (simp add: for_each_up [OF _ ids])
  have b: "batches j ?w = batches j w" for j by (rule batches_sent) (simp add: drop_tried_def Let_def)
  have none: "\<not> landed x" if "(x, l) \<in> batches i w" "i \<in> set ids" for i x l
    using state
  proof
    assume "list_all (ready w) ids"
    then show ?thesis using ready_not_landed [OF inv _ that(1)] that(2) by (simp add: list_all_iff)
  next
    assume "list_all (carries sig limit w) ids \<and> \<not> landed sig"
    then show ?thesis using carries_only [OF inv _ that(1)] that(2) by (auto simp: list_all_iff)
  qed
  have st: "\<exists>r. sr i w = Some r \<and> s_signature r = None" if "i \<in> set ids" for i
    using state that by (auto simp: list_all_iff ready_def carries_def)
  have clr: "rec_ok landed (batches i w) r'"
    if "sr i w = Some r" "i \<in> set ids" "s_status r' = s_status r" "s_signature r' = s_signature r" "s_pending r' = None" for i r r'
  proof -
    have "rec_ok landed (batches i w) r" using inv that(1) by (simp add: send_inv_def)
    then show ?thesis using st [OF that(2)] that none [OF _ that(2)] by (auto simp: rec_ok_def truthy_string_def)
  qed
  have sent: "rw_sent ?w = rw_sent w" by (simp add: drop_tried_def Let_def)
  have "rec_ok landed (batches i ?w) r'" if "sr i ?w = Some r'" for i r'
  proof (cases "i \<in> set ids")
    case True
    with that obtain r where "sr i w = Some r" "s_status r' = s_status r" "s_signature r' = s_signature r" "s_pending r' = None" by (auto simp: s)
    then show ?thesis using clr True by (simp add: b)
  next
    case False
    then show ?thesis using that inv by (simp add: s b send_inv_def)
  qed
  then have "send_inv env landed ?w" using inv by (simp add: send_inv_def sent)
  moreover have "ready ?w i" if "i \<in> set ids" for i
    using st [OF that] that
    by (cases "truthy_string (if epost e then esig e else None)") (auto simp: ready_def s)
  then have "list_all (ready ?w) ids" by (simp add: list_all_iff)
  ultimately show ?thesis by (simp add: untouched_def s b)
qed

lemma fail_ok:
  assumes inv: "send_inv env landed w" and ids: "distinct ids" "ids \<noteq> []"
    and state: "(list_all (ready w) ids \<and> \<not> epost e) \<or>
      (list_all (carries sig limit w) ids \<and> sig \<noteq> [] \<and> (epost e \<longrightarrow> esig e = Some sig \<and> elimit e = limit))"
  shows "send_inv env landed (fail_batch env sweep e ids w) \<and> untouched ids w (fail_batch env sweep e ids w)"
proof -
  let ?w = "fail_batch env sweep e ids w"
  let ?named = "epost e \<and> truthy_string (esig e)"
  let ?p = "if ?named then esig e else s_pending (the_send (hd ids) w)"
  let ?l = "if ?named then elimit e else s_limit (the_send (hd ids) w)"
  let ?give_up = "\<lambda>r. r\<lparr>s_status := SAbandoned, s_error := Some (emsg e), s_attempts := s_attempts r + 1\<rparr>"
  let ?F = "\<lambda>r. if MAX_SEND_ATTEMPTS \<le> s_attempts r + 1
     then r\<lparr>s_status := SAbandoned, s_error := Some (emsg e), s_attempts := s_attempts r + 1, s_pending := ?p, s_limit := ?l\<rparr>
     else r\<lparr>s_status := SPending, s_error := Some (emsg e), s_attempts := s_attempts r + 1, s_pending := ?p, s_limit := ?l\<rparr>"
  have hd: "hd ids \<in> set ids" using ids(2) by simp
  have st: "\<exists>r. sr i w = Some r \<and> s_signature r = None" if "i \<in> set ids" for i
    using state that by (auto simp: list_all_iff ready_def carries_def)
  obtain F where s: "\<And>j. sr j ?w = (if j \<in> set ids then map_option F (sr j w) else sr j w)"
    and F: "F = ?give_up \<or> F = ?F" and sent: "rw_sent ?w = rw_sent w"
  proof (cases "error_class_of e = NonRetryable")
    case True
    let ?g = "\<lambda>i w. r_metric ''send.nonRetryableAbandon'' 1 (up_send env i ?give_up w)"
    have "sr j ?w = (if j \<in> set ids then map_option ?give_up (sr j w) else sr j w)" for j
      using for_each_sr [of ?g "\<lambda>_. ?give_up", OF _ ids(1), of j w] True by (simp add: fail_batch_def sr_up)
    moreover have "rw_sent ?w = rw_sent w" using True by (simp add: fail_batch_def for_each_sent)
    ultimately show ?thesis by (intro that [of ?give_up]) simp_all
  next
    case False
    let ?g = "\<lambda>i w. if MAX_SEND_ATTEMPTS \<le> s_attempts (the_send i w) + 1
                 then r_metric ''send.maxAttemptsAbandon'' 1 (up_send env i (\<lambda>r. r\<lparr>s_status := SAbandoned,
                        s_error := Some (emsg e), s_attempts := s_attempts r + 1, s_pending := ?p, s_limit := ?l\<rparr>) w)
                 else r_metric ''send.retryableToPending'' 1 (up_send env i (\<lambda>r. r\<lparr>s_status := SPending,
                        s_error := Some (emsg e), s_attempts := s_attempts r + 1, s_pending := ?p, s_limit := ?l\<rparr>) w)"
    have g: "sr j (?g i v) = (if j = i then map_option ?F (sr i v) else sr j v)" for i j v
      using the_send_sr [of i v] by (cases "sr i v") (auto simp: sr_up)
    have e: "?w = (let w1 = for_each ?g ids w in if sweep then r_metric ''sweep.sendFailed'' (int (length ids)) w1 else w1)"
      using False by (simp add: fail_batch_def Let_def)
    have "sr j ?w = (if j \<in> set ids then map_option ?F (sr j w) else sr j w)" for j
      using for_each_sr [of ?g "\<lambda>_. ?F", OF g ids(1), of j w] by (simp add: e Let_def)
    moreover have "rw_sent (for_each ?g ids w) = rw_sent w" by (rule for_each_sent) simp
    then have "rw_sent ?w = rw_sent w" by (simp add: e Let_def)
    ultimately show ?thesis by (intro that [of ?F]) simp_all
  qed
  have b: "batches j ?w = batches j w" for j by (rule batches_sent) (rule sent)
  have "rec_ok landed (batches i w) (F r)" if i: "i \<in> set ids" "sr i w = Some r" for i r
  proof -
    have ok: "rec_ok landed (batches i w) r" "s_signature r = None"
      using inv i st [OF i(1)] by (auto simp: send_inv_def)
    from F show ?thesis
    proof
      assume "F = ?give_up"
      then show ?thesis using ok by (auto intro: rec_ok_status)
    next
      assume F: "F = ?F"
      from state show ?thesis
      proof
        assume r: "list_all (ready w) ids \<and> \<not> epost e"
        then have "ready w i" "ready w (hd ids)" using i hd by (auto simp: list_all_iff)
        then have "\<not> truthy_string ?p" using r the_send_sr by (auto simp: ready_def)
        then show ?thesis using \<open>ready w i\<close> inv ok(2) by (auto simp: F intro!: ready_rec_ok)
      next
        assume c: "list_all (carries sig limit w) ids \<and> sig \<noteq> [] \<and> (epost e \<longrightarrow> esig e = Some sig \<and> elimit e = limit)"
        then have "carries sig limit w i" "carries sig limit w (hd ids)" using i hd by (auto simp: list_all_iff)
        moreover from this c have "?p = Some sig" "?l = limit"
          using the_send_sr by (auto simp: carries_def truthy_string_def)
        ultimately show ?thesis using ok i by (auto simp: F carries_def intro!: rec_ok_status [OF ok])
      qed
    qed
  qed
  then have "send_inv env landed ?w" using inv by (auto simp: send_inv_def s b sent split: if_splits)
  then show ?thesis by (simp add: untouched_def s b)
qed

lemma untouched_mono: "untouched ids w w' \<Longrightarrow> set ids \<subseteq> set entries \<Longrightarrow> untouched entries w w'"
  by (auto simp: untouched_def)

lemma ready_untouched: "untouched ids w w' \<Longrightarrow> i \<notin> set ids \<Longrightarrow> ready w' i = ready w i"
  by (simp add: untouched_def ready_def)

lemma sendBatch_ok:
  assumes laws: "send_laws env landed"
  shows "send_inv env landed w \<Longrightarrow> distinct entries \<Longrightarrow> (\<And>i. i \<in> set entries \<Longrightarrow> i \<notin> set skip \<Longrightarrow> ready w i) \<Longrightarrow>
    send_inv env landed (sendBatch env cfg mnt amounts sweep skip entries w) \<and>
    untouched entries w (sendBatch env cfg mnt amounts sweep skip entries w)"
  using laws
proof (induction env cfg mnt amounts sweep skip entries w rule: sendBatch.induct)
  case (1 env cfg mnt amounts sweep skip entries w)
  note inv = "1.prems"(1) and laws = "1.prems"(4)
  let ?ids = "filter (\<lambda>i. i \<notin> set skip) entries"
  let ?r = "sendBatch env cfg mnt amounts sweep skip entries w"
  have ids: "distinct ?ids" "list_all (ready w) ?ids" "set ?ids \<subseteq> set entries"
    using "1.prems"(2,3) by (auto simp: list_all_iff)
  show ?case
  proof (cases "?ids = []")
    case True
    then show ?thesis using inv by (subst sendBatch.simps) (simp add: sendBatch.simps untouched_refl)
  next
    case ne: False
    obtain x w1 where t: "try_batch env cfg mnt amounts sweep ?ids w = (x, w1)" by fastforce
    note T = try_batch_ok [OF laws inv ids(1,2) t]
    show ?thesis
    proof (cases x)
      case None
      then have "?r = w1" using ne t by (subst sendBatch.simps) simp
      then show ?thesis using T untouched_mono [OF _ ids(3)] by simp
    next
      case (Some e)
      from T Some obtain n k sig limit where
        state: "(list_all (ready w1) ?ids \<and> \<not> epost e) \<or>
          (re_sign env n = Inr (sig, limit) \<and> sendSignedTransaction env k sig limit = Inl e \<and>
            list_all (carries sig limit w1) ?ids)"
        by blast
      have i1: "send_inv env landed w1" "untouched ?ids w w1" using T by simp_all
      show ?thesis
      proof (cases "isBatchTooLargeError e \<and> 1 < length ?ids")
        case True
        define mid where "mid = (length ?ids + 1) div 2"
        define w2 where "w2 = drop_tried env e ?ids w1"
        define w3 where "w3 = sendBatch env cfg mnt amounts sweep skip (take mid ?ids) w2"
        have d: "send_inv env landed w2" "list_all (ready w2) ?ids" "untouched ?ids w1 w2"
        proof -
          have "list_all (ready w1) ?ids \<or> (list_all (carries sig limit w1) ?ids \<and> \<not> landed sig)"
            using state send_lawD(5) [OF laws, of n sig limit k e] True by auto
          from drop_ok [OF i1(1) ids(1) this, of e]
          show "send_inv env landed w2" "list_all (ready w2) ?ids" "untouched ?ids w1 w2"
            by (simp_all only: w2_def)
        qed
        have in_ids: "i \<in> set ?ids" if "i \<in> set (take mid ?ids) \<union> set (drop mid ?ids)" for i
          using that by (meson UnE in_set_dropD in_set_takeD)
        have split: "set (take mid ?ids) \<inter> set (drop mid ?ids) = {}"
          using ids(1) by (metis append_take_drop_id distinct_append)
        have left: "send_inv env landed w3 \<and> untouched (take mid ?ids) w2 w3"
          unfolding w3_def
        proof (rule "1.IH"(1) [OF refl ne t [symmetric] Some True mid_def, folded w2_def])
          show "ready w2 i" if "i \<in> set (take mid ?ids)" for i
            using d(2) in_ids [of i] that by (simp add: list_all_iff)
        qed (use d(1) ids(1) laws in simp_all)
        have ready3: "ready w3 i" if "i \<in> set (drop mid ?ids)" for i
        proof -
          have "ready w3 i = ready w2 i" using left split that by (intro ready_untouched [of "take mid ?ids"]) auto
          then show ?thesis using d(2) in_ids [of i] that by (auto simp: list_all_iff)
        qed
        have right: "send_inv env landed (sendBatch env cfg mnt amounts sweep skip (drop mid ?ids) w3) \<and>
            untouched (drop mid ?ids) w3 (sendBatch env cfg mnt amounts sweep skip (drop mid ?ids) w3)"
        proof (rule "1.IH"(2) [OF refl ne t [symmetric] Some True mid_def w3_def [unfolded w2_def]])
          show "ready w3 i" if "i \<in> set (drop mid ?ids)" for i using that by (rule ready3)
        qed (use left ids(1) laws in simp_all)
        have "?r = sendBatch env cfg mnt amounts sweep skip (drop mid ?ids) w3"
          using ne t Some True by (subst sendBatch.simps) (simp add: mid_def w2_def w3_def Let_def)
        moreover have u3: "untouched ?ids w2 w3"
          by (rule untouched_mono [OF conjunct2 [OF left]]) (auto dest: in_set_takeD)
        moreover have u4: "untouched ?ids w3 (sendBatch env cfg mnt amounts sweep skip (drop mid ?ids) w3)"
          by (rule untouched_mono [OF conjunct2 [OF right]]) (auto dest: in_set_dropD)
        have "untouched entries w (sendBatch env cfg mnt amounts sweep skip (drop mid ?ids) w3)"
          by (rule untouched_mono [OF untouched_trans [OF i1(2) untouched_trans [OF d(3) untouched_trans [OF u3 u4]]] ids(3)])
        ultimately show ?thesis using conjunct1 [OF right] by (simp only:)
      next
        case False
        then have r: "?r = fail_batch env sweep e ?ids w1"
          using ne t Some by (subst sendBatch.simps) (auto simp: Let_def)
        have "send_inv env landed (fail_batch env sweep e ?ids w1) \<and> untouched ?ids w1 (fail_batch env sweep e ?ids w1)"
        proof (rule fail_ok [OF i1(1) ids(1) ne])
          show "(list_all (ready w1) ?ids \<and> \<not> epost e) \<or>
            (list_all (carries sig limit w1) ?ids \<and> sig \<noteq> [] \<and> (epost e \<longrightarrow> esig e = Some sig \<and> elimit e = limit))"
            using state send_lawD(1) [OF laws, of n sig limit] send_lawD(6) [OF laws, of n sig limit k e] by auto
        qed
        then have "untouched entries w (fail_batch env sweep e ?ids w1)" "send_inv env landed (fail_batch env sweep e ?ids w1)"
          using untouched_mono [OF untouched_trans [OF i1(2)] ids(3)] by blast+
        then show ?thesis by (simp only: r)
      qed
    qed
  qed
qed

section \<open>A node that keeps the laws\<close>

lemma a_node_send_laws:
  assumes "\<And>k s. c k s = Inr None \<or> (\<exists>e. c k s = Inl e \<and> \<not> epost e \<and>
      \<not> isBatchTooLargeError (PostSendError (''Transaction send/confirm failed: '' @ emsg e) (Some s) (Some 100)))"
  shows "send_laws (a_node\<lparr>re_confirm := c\<rparr>) (\<lambda>_. True)"
proof -
  let ?env = "a_node\<lparr>re_confirm := c\<rparr>"
  have raw: "re_raw ?env k s = Inr s" "re_raw a_node k s = Inr s" "re_confirm ?env k s = c k s" for k s
    by (simp_all add: a_node_def)
  have "\<not> epost e" if "c k s = Inl e" for k s e using assms [of k s] that by auto
  then have "node_sends ?env" by (simp add: node_sends_def raw)
  moreover have "sig \<noteq> [] \<and>
      (\<forall>k. (signatureOutcome limit (re_height ?env k) (re_status ?env k sig) = Landed \<longrightarrow> True) \<and>
           (signatureOutcome limit (re_height ?env k) (re_status ?env k sig) \<in> {Absent, FailedOnChain} \<longrightarrow> \<not> True) \<and>
           (\<forall>s. sendSignedTransaction ?env k sig limit = Inr s \<longrightarrow> True) \<and>
           (\<forall>e. sendSignedTransaction ?env k sig limit = Inl e \<longrightarrow> isBatchTooLargeError e \<longrightarrow> \<not> True))"
    if "re_sign ?env n = Inr (sig, limit)" for n sig limit
  proof -
    have s: "sig \<noteq> []" "limit = Some 100" using that by (auto simp: a_node_def)
    have "signatureOutcome (Some 100) (re_height ?env k) (re_status ?env k sig) = UnknownYet" for k
      by (simp add: a_node_def signatureOutcome_def EXPIRY_MARGIN_BLOCKS_def)
    moreover have "\<not> isBatchTooLargeError e" if "sendSignedTransaction ?env k sig (Some 100) = Inl e" for k e
      using assms [of k sig] that by (auto simp: sendSignedTransaction_def raw)
    ultimately show ?thesis using s by simp
  qed
  moreover have "re_sign ?env k \<noteq> Inl e" "reads_plain ?env" for k e by (simp_all add: a_node_def reads_plain_def)
  ultimately show ?thesis unfolding send_laws_def by blast
qed

end
