(* ===== verification/Send_Frame.thy ===== *)
theory Send_Frame
  imports Sends Burn_Safety
begin

text \<open>
  What delivering leaves alone. \<open>fixed s\<close> is the part of a delivery that was decided when it was
  planned; \<open>leaves w w'\<close> says that nothing but the changing part of the deliveries, the metrics and
  the signed batches differs. Every step of a coin's delivery leaves the rest alone, so a delivery
  round is an outside event for the burns (\<open>aside\<close> of \<open>Burn_Safety\<close>).
\<close>

section \<open>The fixed part\<close>

definition fixed :: "SendRecord \<Rightarrow> _" where
  "fixed s = ((s_id s, s_mint s, s_recipient s, s_betSol s), (s_share s, s_sendN s, s_round s, s_topUp s, s_hadAta s))"

definition leaves :: "rworld \<Rightarrow> rworld \<Rightarrow> bool" where
  "leaves w w' \<longleftrightarrow>
     map fixed (sends (lstate (rw_mgr w'))) = map fixed (sends (lstate (rw_mgr w))) \<and>
     tokenBuys (lstate (rw_mgr w')) = tokenBuys (lstate (rw_mgr w)) \<and>
     burns (lstate (rw_mgr w')) = burns (lstate (rw_mgr w)) \<and>
     purchaseTokens (lstate (rw_mgr w')) = purchaseTokens (lstate (rw_mgr w)) \<and>
     refunds (lstate (rw_mgr w')) = refunds (lstate (rw_mgr w)) \<and>
     rw_signed w' = rw_signed w \<and> rw_step w \<le> rw_step w'"

lemma leaves_refl [simp]: "leaves w w"
  by (simp add: leaves_def)

lemma leaves_trans: "leaves a b \<Longrightarrow> leaves b c \<Longrightarrow> leaves a c"
  by (simp add: leaves_def)

lemma leaves_plain [simp]:
  "leaves w (r_tick w)" "leaves w (r_metric k n w)" "leaves w (w\<lparr>rw_sent := x\<rparr>)" "leaves w (w\<lparr>rw_step := rw_step w + j\<rparr>)"
  by (simp_all add: leaves_def)

lemmas leaves_tick = leaves_trans [OF leaves_plain(1)]
lemmas leaves_metric = leaves_trans [OF _ leaves_plain(2)]

lemma leaves_up: "(\<And>r. fixed (f r) = fixed r) \<Longrightarrow> leaves w (up_send env i f w)"
proof -
  assume f: "\<And>r. fixed (f r) = fixed r"
  have "fixed (r\<lparr>s_updatedAt := now\<rparr>) = fixed r" for r now by (simp add: fixed_def)
  with f show ?thesis
    by (auto simp: leaves_def up_send_def updateSend_def map_upd_first split: option.split)
qed

lemmas leaves_up_after = leaves_trans [OF _ leaves_up]

lemma fixed_update [simp]:
  "fixed (r\<lparr>s_status := st\<rparr>) = fixed r" "fixed (r\<lparr>s_amount := am\<rparr>) = fixed r"
  "fixed (r\<lparr>s_gross := am\<rparr>) = fixed r" "fixed (r\<lparr>s_signature := sg\<rparr>) = fixed r"
  "fixed (r\<lparr>s_pending := sg\<rparr>) = fixed r" "fixed (r\<lparr>s_limit := l\<rparr>) = fixed r"
  "fixed (r\<lparr>s_failedSigs := fs\<rparr>) = fixed r" "fixed (r\<lparr>s_attempts := a\<rparr>) = fixed r"
  "fixed (r\<lparr>s_error := e\<rparr>) = fixed r" "fixed (r\<lparr>s_ataMismatch := m\<rparr>) = fixed r"
  by (simp_all add: fixed_def)

lemma leaves_each: "(\<And>i w. leaves w (f i w)) \<Longrightarrow> leaves w (for_each f ids w)"
  unfolding for_each_def by (induction ids arbitrary: w) (auto intro: leaves_trans)

lemma leaves_fold: "(\<And>x w. leaves w (f x w)) \<Longrightarrow> leaves w (fold f xs w)"
  by (induction xs arbitrary: w) (auto intro: leaves_trans)

section \<open>The steps of a coin\<close>

lemma leaves_check: "checkPendingSend env i w = (v, w') \<Longrightarrow> leaves w w'"
  by (auto simp: checkPendingSend_def ask_signature_def Let_def
      intro!: leaves_metric leaves_up_after leaves_plain(1) split: if_splits SignatureOutcome.splits)

lemma leaves_check_all: "check_all env ids skip w = (skip', w') \<Longrightarrow> leaves w w'"
  by (induction env ids skip w rule: check_all.induct)
    (auto simp: Let_def split: prod.splits intro: leaves_trans dest: leaves_check)

lemma leaves_balance: "getTokenBalance env mnt w = (b, w') \<Longrightarrow> leaves w w'"
  by (auto simp: getTokenBalance_def split: option.splits intro: leaves_tick)

lemma leaves_mark: "leaves w (mark_batch env amounts ids w)"
  unfolding mark_batch_def by (intro leaves_each leaves_up) simp

lemma leaves_signed: "leaves w (on_signed env amounts ids sig limit w)"
  unfolding on_signed_def by (rule leaves_trans [OF leaves_plain(3) leaves_each]) (rule leaves_up, simp)

lemma leaves_complete: "leaves w (complete_batch env amounts sweep sig parts w)"
proof -
  have "leaves w (fold (\<lambda>(i, arrived). up_send env i (\<lambda>r. r\<lparr>s_status := SCompleted, s_signature := Some sig,
            s_pending := None, s_limit := None, s_amount := Some arrived, s_gross := jm_get amounts i,
            s_attempts := s_attempts r + 1\<rparr>)) parts w)"
    by (rule leaves_fold) (auto intro!: leaves_up)
  then show ?thesis by (auto simp: complete_batch_def Let_def intro: leaves_metric)
qed

lemma leaves_drop: "leaves w (drop_tried env e ids w)"
  unfolding drop_tried_def Let_def by (intro leaves_metric leaves_each leaves_up) simp

lemma leaves_fail: "leaves w (fail_batch env sweep e ids w)"
  unfolding fail_batch_def Let_def by (auto intro!: leaves_metric leaves_each leaves_up)

lemma leaves_send:
  assumes "\<And>s l w. leaves w (f s l w)" "sendTransaction env f w = (x, w')"
  shows "leaves w w'"
  using assms(2) by (auto simp: sendTransaction_def Let_def split: sum.splits prod.splits
      intro!: leaves_trans [OF leaves_plain(1) leaves_trans [OF assms(1) leaves_plain(1)]])

lemma leaves_try:
  assumes "try_batch env cfg mnt amounts sweep ids w = (x, w')"
  shows "leaves w w'"
proof -
  let ?rs = "map (\<lambda>i. (s_recipient (the_send i w), get_or0 amounts i)) ids"
  obtain y w2 where b: "buildBatchSendTransaction env cfg mnt ?rs (mark_batch env amounts ids w) = (y, w2)" by fastforce
  have "w2 = (mark_batch env amounts ids w)\<lparr>rw_step := rw_step (mark_batch env amounts ids w) + (5 + length ?rs)\<rparr>"
    using build_world [OF b] by simp
  then have l2: "leaves w w2" using leaves_trans [OF leaves_mark leaves_plain(4)] by metis
  show ?thesis
  proof (cases y)
    case (Inl e)
    then show ?thesis using assms b l2 by (simp add: try_batch_def Let_def)
  next
    case (Inr r)
    obtain z w3 where s: "sendTransaction env (on_signed env amounts ids) w2 = (z, w3)" by fastforce
    have "leaves w w3" using leaves_trans [OF l2 leaves_send [OF leaves_signed s]] .
    then show ?thesis using assms b Inr s leaves_complete leaves_trans
      by (auto simp: try_batch_def Let_def split: sum.splits)
  qed
qed

lemma leaves_batch: "leaves w (sendBatch env cfg mnt amounts sweep skip entries w)"
proof (induction env cfg mnt amounts sweep skip entries w rule: sendBatch.induct)
  case (1 env cfg mnt amounts sweep skip entries w)
  let ?ids = "filter (\<lambda>i. i \<notin> set skip) entries"
  obtain x w1 where t: "try_batch env cfg mnt amounts sweep ?ids w = (x, w1)" by fastforce
  note l1 = leaves_try [OF t]
  show ?case
  proof (cases "?ids = [] \<or> x = None \<or> \<not> (isBatchTooLargeError (the x) \<and> 1 < length ?ids)")
    case True
    then show ?thesis using t l1 leaves_trans [OF l1 leaves_fail] by (subst sendBatch.simps) (auto simp: Let_def split: option.split)
  next
    case False
    then obtain e where x: "x = Some e" "?ids \<noteq> []" and big: "isBatchTooLargeError e \<and> 1 < length ?ids" by auto
    define mid where "mid = (length ?ids + 1) div 2"
    define w2 where "w2 = sendBatch env cfg mnt amounts sweep skip (take mid ?ids) (drop_tried env e ?ids w1)"
    have "leaves (drop_tried env e ?ids w1) w2"
      unfolding w2_def by (rule "1.IH"(1) [OF refl x(2) t [symmetric] x(1) big mid_def])
    moreover have "leaves w2 (sendBatch env cfg mnt amounts sweep skip (drop mid ?ids) w2)"
      by (rule "1.IH"(2) [OF refl x(2) t [symmetric] x(1) big mid_def w2_def])
    ultimately have "leaves w (sendBatch env cfg mnt amounts sweep skip (drop mid ?ids) w2)"
      using leaves_trans [OF l1 leaves_trans [OF leaves_drop]] leaves_trans by blast
    then show ?thesis using t x big by (subst sendBatch.simps) (simp add: mid_def w2_def Let_def)
  qed
qed

lemma leaves_rule: "rule_for_wallet env mnt lastRound recipient recs w = (x, w') \<Longrightarrow> leaves w w'"
  by (auto simp: rule_for_wallet_def Let_def split: if_splits option.splits
      intro!: leaves_metric leaves_each leaves_up leaves_trans [OF leaves_plain(1) leaves_each])

lemma leaves_allow: "allow_wallets env mnt lastRound unsure groups allowed w = (x, w') \<Longrightarrow> leaves w w'"
  by (induction env mnt lastRound unsure groups allowed w rule: allow_wallets.induct)
    (auto split: if_splits sum.splits prod.splits intro: leaves_trans dest: leaves_rule)

lemma leaves_satisfy: "leaves w (satisfy_rest env amounts ids w)"
  unfolding satisfy_rest_def by (rule leaves_each) (auto intro!: leaves_metric leaves_up)

lemma leaves_deliver:
  assumes "deliver_coin env cfg loads sweep lastRound mnt hb ids w = (x, w')"
  shows "leaves w w'"
proof -
  obtain skip w1 where c: "check_all env ids [] (r_tick w) = (skip, w1)" by fastforce
  define unsure where "unsure = map (\<lambda>i. s_recipient (the_send i w1)) (filter (\<lambda>i. i \<in> set skip) ids)"
  define groups where "groups = group_by (\<lambda>i. s_recipient (the_send i w1)) ids"
  obtain y w2 where a: "allow_wallets env mnt lastRound unsure groups [] w1 = (y, w2)" by fastforce
  obtain balance w3 where b: "getTokenBalance env mnt w2 = (balance, w3)" by fastforce
  have l2: "leaves w w2"
    by (rule leaves_tick [OF leaves_trans [OF leaves_check_all [OF c] leaves_allow [OF a]]])
  note l3 = leaves_trans [OF l2 leaves_balance [OF b]]
  have l4: "leaves w (fold (sendBatch env cfg mnt amounts sweep skip) ps (satisfy_rest env amounts' ids' w3))"
    for amounts ps amounts' ids'
    by (rule leaves_trans [OF l3 leaves_trans [OF leaves_satisfy leaves_fold]]) (rule leaves_batch)
  show ?thesis
    using assms c a b l2 l3 l4
    by (auto simp: deliver_coin_def Let_def unsure_def groups_def leaves_metric split: if_splits sum.splits)
qed

section \<open>A delivery is aside of the burns\<close>

lemma add_send_fixed: "fixed s = fixed s' \<Longrightarrow> add_send mnt m s = add_send mnt m s'"
  by (simp add: add_send_def fixed_def Let_def)

lemma foldl_fixed:
  "map fixed ss = map fixed ss' \<Longrightarrow> foldl (add_send mnt) m ss = foldl (add_send mnt) m ss'"
proof (induction ss arbitrary: ss' m)
  case (Cons s ss)
  then obtain t ts where "ss' = t # ts" "fixed s = fixed t" "map fixed ss = map fixed ts" by (cases ss') auto
  with Cons.IH [of ts "add_send mnt m s"] add_send_fixed [of s t mnt m] show ?case by simp
qed simp

lemma leaves_shares:
  assumes "leaves w w'"
  shows "sharesOf (lstate (rw_mgr w')) M = sharesOf (lstate (rw_mgr w)) M"
proof -
  have "map fixed (sends (lstate (rw_mgr w'))) = map fixed (sends (lstate (rw_mgr w)))"
    and b: "tokenBuys (lstate (rw_mgr w')) = tokenBuys (lstate (rw_mgr w))"
    using assms unfolding leaves_def by blast+
  note f = foldl_fixed [OF this(1)]
  show ?thesis by (simp only: sharesOf_def b f)
qed

lemma leaves_aside:
  assumes "leaves w w'" "getTokenBuy M (rw_mgr w) \<noteq> None"
  shows "aside M load w load w'"
proof -
  have eqs: "tokenBuys (lstate (rw_mgr w')) = tokenBuys (lstate (rw_mgr w))" "bl w' = bl w"
    "purchaseTokens (lstate (rw_mgr w')) = purchaseTokens (lstate (rw_mgr w))" "rw_signed w' = rw_signed w"
    using assms(1) unfolding leaves_def by blast+
  have buy: "getTokenBuy M (rw_mgr w') = getTokenBuy M (rw_mgr w)" by (simp only: getTokenBuy_def eqs)
  have "tokensBought (lstate (rw_mgr w')) M load = tokensBought (lstate (rw_mgr w)) M load"
    by (simp only: tokensBought_def eqs)
  then show ?thesis
    using assms(2) by (simp add: aside_def buy burned_of_def eqs leaves_shares [OF assms(1)])
qed

end
