(* ===== verification/Top_Ups.thy ===== *)
theory Top_Ups
  imports Settle Send_Frame
begin

text \<open>
  What the settlement of a coin promises: who gets a top-up and who does not, and that settling again
  adds nothing for a wallet that has one in the queue.
\<close>

section \<open>The deliveries given up\<close>

definition settled_rel :: "SendRecord \<Rightarrow> SendRecord \<Rightarrow> bool" where
  "settled_rel s s' \<longleftrightarrow> s' = s \<or> (s_status s = SAbandoned \<and> s_status s' = SCompleted \<and> fixed s' = fixed s)"

lemma settled_rel_refl [simp]: "settled_rel s s"
  by (simp add: settled_rel_def)

lemma settled_rel_trans: "settled_rel a b \<Longrightarrow> settled_rel b c \<Longrightarrow> settled_rel a c"
  by (auto simp: settled_rel_def)

lemma fixed_stamp [simp]: "fixed (r\<lparr>s_updatedAt := now\<rparr>) = fixed r"
  by (simp add: fixed_def)

abbreviation all_sends :: "rworld \<Rightarrow> SendRecord list" where
  "all_sends w \<equiv> sends (lstate (rw_mgr w))"

lemma check_abandoned_list:
  assumes "check_abandoned env i (u, w) = (u', w')"
  shows "list_all2 settled_rel (all_sends w) (all_sends w')"
proof (cases "getSend i (rw_mgr w)")
  case None
  then have "all_sends w' = all_sends w"
    using assms by (auto simp: check_abandoned_def Let_def ask_signature_def up_send_def updateSend_def
        split: if_splits SignatureOutcome.splits)
  then show ?thesis by (simp add: list_all2_same)
next
  case (Some r)
  then have f: "List.find (\<lambda>s. s_id s = i) (all_sends w) = Some r" by (simp add: getSend_def)
  show ?thesis
  proof (cases "all_sends w' = all_sends w")
    case False
    then have "s_status r = SAbandoned" "all_sends w' = upd_first (\<lambda>s. s_id s = i) (\<lambda>s.
        s\<lparr>s_status := SCompleted, s_signature := s_pending r, s_pending := None, s_limit := None,
          s_gross := s_amount r, s_updatedAt := re_clock env (rw_step w + 1)\<rparr>) (all_sends w)"
      using assms Some by (auto simp: check_abandoned_def Let_def ask_signature_def up_send_def updateSend_def
          the_send_def split: if_splits SignatureOutcome.splits)
    then show ?thesis using upd_first_all2 [OF f] by (simp add: settled_rel_def fixed_def)
  qed (simp add: list_all2_same)
qed

lemma leaves_abandoned: "check_abandoned env i (u, w) = (u', w') \<Longrightarrow> leaves w w'"
  by (auto simp: check_abandoned_def Let_def ask_signature_def split: if_splits SignatureOutcome.splits
      intro!: leaves_metric leaves_up_after leaves_plain(1))

lemma abandoned_fold:
  "fold (check_abandoned env) ids (u, w) = (u', w') \<Longrightarrow>
    list_all2 settled_rel (all_sends w) (all_sends w') \<and> leaves w w' \<and> set u \<subseteq> set u'"
proof (induction ids arbitrary: u w)
  case (Cons i ids)
  obtain u1 w1 where c: "check_abandoned env i (u, w) = (u1, w1)" by fastforce
  have "set u \<subseteq> set u1" using c by (auto simp: check_abandoned_def Let_def ask_signature_def split: if_splits)
  moreover have "list_all2 settled_rel (all_sends w1) (all_sends w') \<and> leaves w1 w' \<and> set u1 \<subseteq> set u'"
    using Cons c by simp
  ultimately show ?case
    using check_abandoned_list [OF c] leaves_abandoned [OF c]
    by (auto intro: leaves_trans list_all2_trans [OF settled_rel_trans])
qed (simp add: list_all2_same)

section \<open>Who is added\<close>

lemma map_top_ups: "map s_recipient (add_top_ups wants mnt ss n now wals c) = filter wants wals"
  by (induction wants mnt ss n now wals c rule: add_top_ups.induct) (simp_all add: top_up_record_def)

lemma top_up_fields:
  "a \<in> set (add_top_ups wants mnt ss n now wals c) \<Longrightarrow>
    s_mint a = mnt \<and> s_status a = SPending \<and> s_pending a = None \<and> s_signature a = None \<and> wants (s_recipient a)"
  by (induction wants mnt ss n now wals c rule: add_top_ups.induct)
    (auto simp: top_up_record_def split: if_splits)

lemma top_up_ids:
  "a \<in> set (add_top_ups wants mnt ss n now wals c) \<Longrightarrow>
    \<exists>k. c < k \<and> k \<le> c + int (length (add_top_ups wants mnt ss n now wals c)) \<and> s_id a = topup_id k"
proof (induction wants mnt ss n now wals c rule: add_top_ups.induct)
  case (2 wants mnt ss n now wal wals c)
  show ?case
  proof (cases "wants wal")
    case True
    let ?more = "add_top_ups wants mnt ss n now wals (c + 1)"
    from 2(3) True consider "s_id a = topup_id (c + 1)" | "a \<in> set ?more" by (auto simp: top_up_record_def)
    then show ?thesis
    proof cases
      case 1
      with True show ?thesis by (intro exI [of _ "c + 1"]) simp
    next
      case 2
      then obtain k where "c + 1 < k" "k \<le> c + 1 + int (length ?more)" "s_id a = topup_id k"
        using "2.IH"(1) [OF True] by blast
      with True show ?thesis by (intro exI [of _ k]) simp
    qed
  qed (use 2 in simp)
qed simp

lemma topup_id_inj: "0 \<le> j \<Longrightarrow> 0 \<le> k \<Longrightarrow> topup_id j = topup_id k \<Longrightarrow> j = k"
  unfolding topup_id_def by (metis append_same_eq bigint_of_show_nat same_append_eq)

lemma top_up_ids_distinct: "0 \<le> c \<Longrightarrow> distinct (map s_id (add_top_ups wants mnt ss n now wals c))"
proof (induction wants mnt ss n now wals c rule: add_top_ups.induct)
  case (2 wants mnt ss n now wal wals c)
  have "topup_id (c + 1) \<noteq> s_id a" if "a \<in> set (add_top_ups wants mnt ss n now wals (c + 1))" for a
  proof -
    from top_up_ids [OF that] obtain k where "c + 1 < k" "s_id a = topup_id k" by blast
    then show ?thesis using topup_id_inj [of "c + 1" k] 2(3) by auto
  qed
  then show ?case using 2 by (auto simp: top_up_record_def)
qed simp

lemma sent_map_sum:
  "get_or0 (sent_map exact ss) wal =
    sum_list (map (\<lambda>s. if exact then sentFromKeeper s else the (s_amount s))
      (filter (\<lambda>s. delivered s \<and> s_recipient s = wal) ss))"
proof -
  let ?v = "\<lambda>s. if exact then sentFromKeeper s else the (s_amount s)"
  have "get_or0 (foldl (\<lambda>m s. if delivered s then jm_add (s_recipient s) (?v s) m else m) m ss) wal =
      get_or0 m wal + sum_list (map ?v (filter (\<lambda>s. delivered s \<and> s_recipient s = wal) ss))" for m
    by (induction ss arbitrary: m) (auto simp: get_or0_def jm_add_def jm_get_set split: option.split)
  from this [of "[]"] show ?thesis by (simp add: sent_map_def get_or0_def jm_get_def)
qed

section \<open>The promise\<close>

lemma check_other_record:
  assumes "check_abandoned env j (u, w) = (u', w')" "i \<noteq> j"
  shows "getSend i (rw_mgr w') = getSend i (rw_mgr w)"
proof -
  have m: "getSend i (l_incrementMetric k n m) = getSend i m" for k n m by (simp add: getSend_def)
  have "getSend i (rw_mgr (up_send env j f v)) = getSend i (rw_mgr v)" if "\<And>r. s_id (f r) = s_id r" for f v
    using assms(2) that by (simp add: up_send_def sends.get_sure)
  then show ?thesis using assms(1)
    by (auto simp: check_abandoned_def Let_def ask_signature_def m split: if_splits)
qed

lemma abandoned_asked:
  "fold (check_abandoned env) ids (u, w) = (u', w') \<Longrightarrow> i \<in> set ids \<Longrightarrow> getSend i (rw_mgr w) = Some r \<Longrightarrow>
    s_status r = SAbandoned \<Longrightarrow> truthy_string (s_pending r) \<Longrightarrow>
    s_recipient r \<in> set u' \<or>
    (\<exists>k. signatureOutcome (s_limit r) (re_height env k) (re_status env k (the (s_pending r))) \<noteq> UnknownYet)"
proof (induction ids arbitrary: u w)
  case (Cons j ids)
  obtain u1 w1 where c: "check_abandoned env j (u, w) = (u1, w1)" by fastforce
  have f: "fold (check_abandoned env) ids (u1, w1) = (u', w')" using Cons.prems(1) c by simp
  show ?case
  proof (cases "i = j")
    case True
    with c Cons.prems have "s_recipient r \<in> set u1 \<or>
        signatureOutcome (s_limit r) (re_height env (rw_step w)) (re_status env (rw_step w) (the (s_pending r))) \<noteq> UnknownYet"
      by (auto simp: check_abandoned_def Let_def ask_signature_def the_send_def split: if_splits)
    then show ?thesis using abandoned_fold [OF f] by blast
  next
    case False
    then show ?thesis using Cons.IH [OF f] Cons.prems check_other_record [OF c False] by simp
  qed
qed simp

definition may_land :: "round_env \<Rightarrow> SendRecord \<Rightarrow> bool" where
  "may_land env s \<longleftrightarrow> s_status s = SAbandoned \<and> truthy_string (s_pending s) \<and>
     (\<forall>k. signatureOutcome (s_limit s) (re_height env k) (re_status env k (the (s_pending s))) = UnknownYet)"

definition received :: "SendRecord list \<Rightarrow> wallet \<Rightarrow> bigint" where
  "received ss wal = sum_list (map sentFromKeeper (filter (\<lambda>s. delivered s \<and> s_recipient s = wal) ss))"

lemma getSend_own:
  assumes "distinct (map s_id (all_sends w))" "s \<in> set (all_sends w)"
  shows "getSend (s_id s) (rw_mgr w) = Some s"
proof (cases "getSend (s_id s) (rw_mgr w)")
  case None
  then show ?thesis using assms(2) by (auto simp: getSend_def find_None_iff)
next
  case (Some r)
  then have "r \<in> set (all_sends w)" "s_id r = s_id s" by (auto simp: getSend_def elim: find_SomeE)
  with assms have "r = s" by (simp add: distinct_map inj_on_def)
  with Some show ?thesis by simp
qed

lemma top_ups_cases:
  assumes "topUpsFor env loads tb n mnt True w = (k, w')"
  obtains (none) w1 where "k = 0" "rw_mgr w' = rw_mgr w1" "list_all2 settled_rel (all_sends w) (all_sends w1)" "leaves w w1" "rw_sent w' = rw_sent w1"
  | (some) u w1 bought spentSol added where
    "fold (check_abandoned env) (map s_id (coin_sends mnt w)) ([], w) = (u, w1)"
    "bought = bt_known (tokensBought (lstate (rw_mgr w1)) mnt (loads (rw_step w1)))" "0 < bought"
    "added = add_top_ups (\<lambda>wal. wal \<notin> set (busy_wallets (coin_sends mnt w1) u) \<and>
        worth_sending (sol_per_raw spentSol bought) (deliveryOwed bought wal (sharesOf (lstate (rw_mgr w1)) mnt) -
          received (coin_sends mnt w1) wal)) mnt (coin_sends mnt w1) n (re_clock env (rw_step w1))
        (unique (map s_recipient (coin_sends mnt w1))) (int (length (all_sends w1)))"
    "spentSol = (case getTokenBuy mnt (rw_mgr w1) of Some t \<Rightarrow> (case t_spentSol t of Some x \<Rightarrow> x | None \<Rightarrow> 0) | None \<Rightarrow> 0)"
    "k = int (length added)" "w' = (r_tick w1)\<lparr>rw_mgr := addSends added (rw_mgr w1)\<rparr>"
proof -
  obtain u w1 where f: "fold (check_abandoned env) (map s_id (coin_sends mnt w)) ([], w) = (u, w1)" by fastforce
  have r: "get_or0 (sent_map True ss) wal = received ss wal" for ss wal
    by (simp add: sent_map_sum received_def)
  let ?bought = "bt_known (tokensBought (lstate (rw_mgr w1)) mnt (loads (rw_step w1)))"
  consider "coin_sends mnt w = []" | "coin_sends mnt w \<noteq> []" "totalStake (sharesOf (lstate (rw_mgr w1)) mnt) = 0 \<or> ?bought \<le> 0"
    | "coin_sends mnt w \<noteq> []" "totalStake (sharesOf (lstate (rw_mgr w1)) mnt) \<noteq> 0" "0 < ?bought"
    by fastforce
  then show ?thesis
  proof cases
    case 1
    then show ?thesis using assms none [of w] by (simp add: topUpsFor_def list_all2_same)
  next
    case 2
    then have "k = 0 \<and> w' = w1"
      using assms f by (cases "totalStake (sharesOf (lstate (rw_mgr w1)) mnt) = 0") (auto simp: topUpsFor_def Let_def coin_pot_def)
    then show ?thesis using none [of w1] abandoned_fold [OF f] by simp
  next
    case 3
    then show ?thesis using assms some [OF f refl] f
      by (simp add: topUpsFor_def Let_def coin_pot_def r top_up_target_def)
  qed
qed

lemma addSends_list [simp]: "sends (lstate (addSends ss m)) = sends (lstate m) @ ss"
  by (simp add: addSends_def)

lemma coin_sends_in: "s \<in> set (coin_sends mnt w) \<longleftrightarrow> s \<in> set (all_sends w) \<and> s_mint s = mnt"
  by (auto simp: coin_sends_def)

definition new_sends :: "rworld \<Rightarrow> rworld \<Rightarrow> SendRecord list" where
  "new_sends w w' = drop (length (all_sends w)) (all_sends w')"

definition old_sends :: "rworld \<Rightarrow> rworld \<Rightarrow> SendRecord list" where
  "old_sends w w' = take (length (all_sends w)) (all_sends w')"

definition bought_at :: "(nat \<Rightarrow> BatchLoader) \<Rightarrow> nat \<Rightarrow> mint \<Rightarrow> rworld \<Rightarrow> bigint" where
  "bought_at loads j mnt w = bt_known (tokensBought (lstate (rw_mgr w)) mnt (loads j))"

lemma leaves_bought: "leaves w w' \<Longrightarrow> tokensBought (lstate (rw_mgr w')) mnt load = tokensBought (lstate (rw_mgr w)) mnt load"
  unfolding leaves_def tokensBought_def by (elim conjE) (simp only:)

lemma list_all2_in: "list_all2 R xs ys \<Longrightarrow> x \<in> set xs \<Longrightarrow> \<exists>y \<in> set ys. R x y"
  by (auto simp: list_all2_conv_all_nth in_set_conv_nth) (metis nth_mem)

lemma busy_iff: "wal \<in> set (busy_wallets ss u) \<longleftrightarrow> wal \<in> set u \<or>
    (\<exists>s \<in> set ss. s_recipient s = wal \<and> (s_status s = SPending \<or> s_status s = SInProgress))"
  by (auto simp: busy_wallets_def)

lemma top_ups_world:
  assumes run: "topUpsFor env loads tb n mnt True w = (k, w')"
  shows "list_all2 settled_rel (all_sends w) (old_sends w w') \<and> all_sends w' = old_sends w w' @ new_sends w w' \<and>
    k = int (length (new_sends w w'))"
  using assms
proof (cases rule: top_ups_cases)
  case (none w1)
  then have "length (all_sends w') = length (all_sends w)" by (simp add: list_all2_lengthD)
  with none show ?thesis by (simp add: old_sends_def new_sends_def)
next
  case (some u w1 bought spentSol added)
  have l: "list_all2 settled_rel (all_sends w) (all_sends w1)" using abandoned_fold [OF some(1)] by blast
  then have "length (all_sends w1) = length (all_sends w)" by (simp add: list_all2_lengthD)
  then have "new_sends w w' = added" "old_sends w w' = all_sends w1"
    using some(7) by (simp_all add: old_sends_def new_sends_def)
  then show ?thesis using l some(6,7) by simp
qed

lemma new_sends_cases:
  assumes run: "topUpsFor env loads tb n mnt True w = (k, w')"
  obtains (none) "new_sends w w' = []"
  | (some) u j spentSol where
    "fold (check_abandoned env) (map s_id (coin_sends mnt w)) ([], w) = (u, j)" "0 < bought_at loads (rw_step j) mnt w"
    "new_sends w w' = add_top_ups (\<lambda>wal. wal \<notin> set (busy_wallets (filter (\<lambda>s. s_mint s = mnt) (old_sends w w')) u) \<and>
        worth_sending (sol_per_raw spentSol (bought_at loads (rw_step j) mnt w))
          (deliveryOwed (bought_at loads (rw_step j) mnt w) wal (sharesOf (lstate (rw_mgr w)) mnt) -
            received (filter (\<lambda>s. s_mint s = mnt) (old_sends w w')) wal))
        mnt (filter (\<lambda>s. s_mint s = mnt) (old_sends w w')) n (re_clock env (rw_step j))
        (unique (map s_recipient (filter (\<lambda>s. s_mint s = mnt) (old_sends w w')))) (int (length (all_sends w)))"
    "spentSol = (case getTokenBuy mnt (rw_mgr j) of Some t \<Rightarrow> (case t_spentSol t of Some x \<Rightarrow> x | None \<Rightarrow> 0) | None \<Rightarrow> 0)"
  using run
proof (cases rule: top_ups_cases)
  case (none w1)
  then have "length (all_sends w') = length (all_sends w)" by (simp add: list_all2_lengthD)
  then show ?thesis using that(1) by (simp add: new_sends_def)
next
  case (some u w1 bought spentSol added)
  have l: "list_all2 settled_rel (all_sends w) (all_sends w1)" "leaves w w1" using abandoned_fold [OF some(1)] by blast+
  then have len: "length (all_sends w1) = length (all_sends w)" by (simp add: list_all2_lengthD)
  then have o: "new_sends w w' = added" "old_sends w w' = all_sends w1"
    using some(7) by (simp_all add: old_sends_def new_sends_def)
  have b: "bought = bought_at loads (rw_step w1) mnt w" using some(2) leaves_bought [OF l(2)] by (simp add: bought_at_def)
  show ?thesis
    by (rule that(2) [OF some(1) _ _ some(5)])
      (use some(3,4) in \<open>simp_all add: o b [symmetric] coin_sends_def len leaves_shares [OF l(2)]\<close>)
qed

lemma new_sends_pending:
  assumes "topUpsFor env loads tb n mnt True w = (k, w')" "a \<in> set (new_sends w w')"
  shows "s_mint a = mnt \<and> s_status a = SPending \<and> s_pending a = None \<and> s_signature a = None"
  using assms(1)
proof (cases rule: new_sends_cases)
  case none
  then show ?thesis using assms(2) by simp
next
  case (some u j spentSol)
  from top_up_fields [OF assms(2) [unfolded some(3)]] show ?thesis by blast
qed


text \<open>A wallet that was sent 7 of the 15 tokens it is owed.\<close>

definition short_round :: rworld where
  "short_round = \<lparr>rw_mgr = addSends [\<lparr>s_id = ''send_1'', s_mint = ''m'', s_recipient = ''a'', s_betSol = 1,
       s_share = 1, s_sendN = 1, s_round = 1, s_amount = Some 7, s_gross = Some 7, s_status = SCompleted, s_topUp = False,
       s_signature = Some ''q'', s_pending = None, s_limit = None, s_failedSigs = [], s_attempts = 1, s_error = None,
       s_hadAta = None, s_ataMismatch = None, s_updatedAt = 0\<rparr>] coin_read,
     rw_step = 0, rw_signed = [], rw_sent = []\<rparr>"

definition settled_round :: rworld where
  "settled_round = snd (topUpsFor a_node (\<lambda>_. a_load) (settle_balance a_node) 10 ''m'' True short_round)"

lemma settled_new: "map (\<lambda>s. (s_id s, s_recipient s)) (new_sends short_round settled_round) = [(''send_topup_2'', ''a'')]"
  by code_simp

lemma short_ids: "distinct (map s_id (all_sends short_round))" by code_simp


text \<open>C17: settling again, whatever the node answers then, queues nothing for a wallet that still has the
  top-up of the settlement before.\<close>

theorem top_ups_once:
  assumes "topUpsFor env loads tb n mnt True w = (k, w')" "topUpsFor env' loads' tb' n' mnt True w' = (k', w'')"
  shows "set (map s_recipient (new_sends w w')) \<inter> set (map s_recipient (new_sends w' w'')) = {}"
proof -
  have False if a: "a \<in> set (new_sends w w')" and b: "b \<in> set (new_sends w' w'')" and r: "s_recipient a = s_recipient b" for a b
  proof -
    have "s_mint a = mnt \<and> s_status a = SPending"
      using new_sends_pending [OF assms(1) a] by simp
    moreover have "a \<in> set (all_sends w')" using a by (simp only: new_sends_def in_set_dropD)
    from list_all2_in [OF conjunct1 [OF top_ups_world [OF assms(2)]] this]
    obtain a' where "a' \<in> set (old_sends w' w'')" "settled_rel a a'" by blast
    ultimately have "a \<in> set (old_sends w' w'')" "s_mint a = mnt" "s_status a = SPending" by (auto simp: settled_rel_def)
    moreover obtain u where "s_recipient b \<notin> set (busy_wallets (filter (\<lambda>s. s_mint s = mnt) (old_sends w' w'')) u)"
      using assms(2)
    proof (cases rule: new_sends_cases)
      case none
      then show ?thesis using b by simp
    next
      case (some u j spentSol)
      from top_up_fields [OF b [unfolded some(3)]] show ?thesis by (intro that [of u]) blast
    qed
    ultimately show False using r by (auto simp: busy_iff)
  qed
  then show ?thesis by auto
qed

theorem top_ups_once_witness:
  "map s_recipient (new_sends short_round settled_round) = [''a''] \<and>
   ''a'' \<notin> set (map s_recipient (new_sends settled_round
     (snd (topUpsFor a_node (\<lambda>_. a_load) (settle_balance a_node) 10 ''m'' True settled_round))))"
proof -
  have "map s_recipient (new_sends short_round settled_round) = map snd (map (\<lambda>s. (s_id s, s_recipient s)) (new_sends short_round settled_round))"
    by simp
  then have n: "map s_recipient (new_sends short_round settled_round) = [''a'']" by (simp only: settled_new) simp
  let ?run = "topUpsFor a_node (\<lambda>_. a_load) (settle_balance a_node) 10 ''m'' True"
  have "?run short_round = (fst (?run short_round), settled_round)" "?run settled_round = (fst (?run settled_round), snd (?run settled_round))"
    by (simp_all add: settled_round_def)
  from top_ups_once [OF this] n show ?thesis by auto
qed

end
