(* ===== verification/Send_History.thy ===== *)
theory Send_History
  imports Send_Safety Top_Ups
begin

text \<open>
  From one batch to the whole history of a round's deliveries. \<open>Send_Safety\<close> shows that a batch and the
  check of a pending signature keep the invariant of the deliveries; here the same is shown for a
  coin, a round and a run of \<open>executeSendRounds\<close>, then for any sequence of runs, crashes and planning.
\<close>

section \<open>The checks before a batch\<close>

definition send_ids :: "rworld \<Rightarrow> string list" where
  "send_ids w = map s_id (sends (lstate (rw_mgr w)))"

lemma leaves_ids: "leaves w w' \<Longrightarrow> send_ids w' = send_ids w"
proof -
  assume "leaves w w'"
  then have "map fixed (sends (lstate (rw_mgr w'))) = map fixed (sends (lstate (rw_mgr w)))"
    unfolding leaves_def by blast
  from arg_cong [OF this, of "map (fst \<circ> fst)"] show ?thesis by (simp add: send_ids_def fixed_def comp_def)
qed

lemma sr_known: "(\<exists>r. sr i w = Some r) \<longleftrightarrow> i \<in> set (send_ids w)"
proof -
  have "(\<exists>r. getSend i (rw_mgr w) = Some r) \<longleftrightarrow> i \<in> set (send_ids w)"
    using find_None_iff [of "\<lambda>s. s_id s = i" "sends (lstate (rw_mgr w))"]
    by (cases "getSend i (rw_mgr w)") (auto simp: getSend_def send_ids_def)
  then show ?thesis by (auto simp: sr_def)
qed

lemma check_all_ok:
  assumes laws: "send_laws env landed"
  shows "check_all env ids skip w = (skip', w') \<Longrightarrow> send_inv env landed w \<Longrightarrow> distinct ids \<Longrightarrow>
    set ids \<subseteq> set (send_ids w) \<Longrightarrow>
    send_inv env landed w' \<and> set skip \<subseteq> set skip' \<and> (\<forall>i \<in> set ids. i \<notin> set skip' \<longrightarrow> clear_of i w') \<and>
    (\<forall>j. j \<notin> set ids \<longrightarrow> sr j w' = sr j w)"
  using laws
proof (induction env ids skip w rule: check_all.induct)
  case (2 env i ids skip w)
  obtain v w1 where c: "checkPendingSend env i w = (v, w1)" by fastforce
  let ?skip = "if v = FateUnknown then skip @ [i] else skip"
  obtain r where r: "sr i w = Some r" using "2.prems"(4) sr_known [of i w] by auto
  note ok = check_ok [OF "2.prems"(5,2) c r]
  have ids1: "send_ids w1 = send_ids w" using leaves_ids [OF leaves_check [OF c]] .
  have run: "check_all env ids ?skip w1 = (skip', w')" using "2.prems"(1) c by simp
  have IH: "send_inv env landed w' \<and> set ?skip \<subseteq> set skip' \<and> (\<forall>i \<in> set ids. i \<notin> set skip' \<longrightarrow> clear_of i w') \<and>
      (\<forall>j. j \<notin> set ids \<longrightarrow> sr j w' = sr j w1)"
    by (rule "2.IH" [OF c [symmetric] refl run]) (use ok "2.prems" ids1 in auto)
  then have "clear_of i w'" if "i \<notin> set skip'"
    using that ok "2.prems"(3) by (auto simp: clear_of_def split: if_splits)
  moreover have "sr j w' = sr j w" if "j \<notin> set (i # ids)" for j
    using IH check_other [OF c, of j] that by simp
  ultimately show ?case using IH by (auto split: if_splits)
qed simp

text \<open>Only batches of a round's own deliveries are signed.\<close>

definition far :: "string set \<Rightarrow> rworld \<Rightarrow> rworld \<Rightarrow> bool" where
  "far known w w' \<longleftrightarrow> (\<forall>j. j \<notin> known \<longrightarrow> batches j w' = batches j w)"

lemma far_trans: "far known a b \<Longrightarrow> far known b c \<Longrightarrow> far known a c"
  by (simp add: far_def)

lemma far_sent: "rw_sent w' = rw_sent w \<Longrightarrow> far known w w'"
  by (simp add: far_def batches_def)

lemma far_untouched: "untouched ids w w' \<Longrightarrow> set ids \<subseteq> known \<Longrightarrow> far known w w'"
  by (auto simp: far_def untouched_def)

lemma check_all_sent: "check_all env ids skip w = (skip', w') \<Longrightarrow> rw_sent w' = rw_sent w"
  by (induction env ids skip w rule: check_all.induct) (auto simp: Let_def split: prod.splits dest: check_sent)

section \<open>Steps that change the standing only\<close>

text \<open>Such a step leaves every delivery its signatures.\<close>

definition calm :: "rworld \<Rightarrow> rworld \<Rightarrow> bool" where
  "calm w w' \<longleftrightarrow> rw_sent w' = rw_sent w \<and>
     (\<forall>j. map_option (\<lambda>r. (s_pending r, s_limit r, s_signature r)) (sr j w') =
          map_option (\<lambda>r. (s_pending r, s_limit r, s_signature r)) (sr j w))"

lemma calm_refl [simp]: "calm w w"
  by (simp add: calm_def)

lemma calm_trans: "calm a b \<Longrightarrow> calm b c \<Longrightarrow> calm a c"
  by (simp add: calm_def)

lemma calm_plain [simp]: "calm w (r_metric k n w)" "calm w (r_tick w)"
  by (simp_all add: calm_def)

lemma calm_clear: "calm w w' \<Longrightarrow> clear_of i w' = clear_of i w"
  unfolding calm_def clear_of_def by (cases "sr i w"; cases "sr i w'") (auto dest!: spec [of _ i])

lemma calm_unsigned: "calm w w' \<Longrightarrow> sr i w = Some r \<Longrightarrow> s_signature r = None \<Longrightarrow>
    \<exists>r'. sr i w' = Some r' \<and> s_signature r' = None"
  unfolding calm_def by (cases "sr i w'") (auto dest!: spec [of _ i])

lemma calm_up:
  assumes "unstamped f" "\<And>r. s_pending (f r) = s_pending r \<and> s_limit (f r) = s_limit r \<and> s_signature (f r) = s_signature r"
  shows "calm w (up_send env i f w)"
  using assms by (simp add: calm_def sr_up option.map_comp comp_def)

lemma mismatch_ok:
  assumes "send_inv env landed w"
  shows "send_inv env landed (for_each (\<lambda>i. up_send env i (\<lambda>r. r\<lparr>s_status := SAtaMismatch, s_ataMismatch := m,
      s_error := e\<rparr>)) ids w) \<and>
    calm w (for_each (\<lambda>i. up_send env i (\<lambda>r. r\<lparr>s_status := SAtaMismatch, s_ataMismatch := m, s_error := e\<rparr>)) ids w)"
  using assms
proof (induction ids arbitrary: w)
  case (Cons i ids)
  let ?w = "up_send env i (\<lambda>r. r\<lparr>s_status := SAtaMismatch, s_ataMismatch := m, s_error := e\<rparr>) w"
  have "send_inv env landed ?w"
    by (rule inv_up [OF Cons.prems]) (auto simp: rec_ok_def split: option.splits)
  moreover have "calm w ?w" by (rule calm_up) simp_all
  ultimately show ?case using Cons.IH [of ?w] calm_trans by (simp add: for_each_def)
qed (simp add: for_each_def)

lemma rule_ok:
  assumes "rule_for_wallet env mnt lastRound recipient recs w = (x, w')" "send_inv env landed w"
  shows "send_inv env landed w' \<and> calm w w'"
proof -
  have t: "send_inv env landed (r_tick w)" using assms(2) by (rule inv_rest)
  note m = mismatch_ok [OF assms(2)] mismatch_ok [OF t]
  show ?thesis
    using assms m calm_trans [OF calm_plain(2)] calm_trans [OF _ calm_plain(1)] t
    by (auto simp: rule_for_wallet_def Let_def inv_rest split: if_splits option.splits)
qed

lemma allow_ok:
  "allow_wallets env mnt lastRound unsure groups allowed w = (x, w') \<Longrightarrow> send_inv env landed w \<Longrightarrow>
    send_inv env landed w' \<and> calm w w'"
proof (induction env mnt lastRound unsure groups allowed w rule: allow_wallets.induct)
  case (2 env mnt lastRound unsure recipient recSends rest allowed w)
  show ?case
  proof (cases "recipient \<in> set unsure")
    case True
    then show ?thesis using 2 by simp
  next
    case False
    obtain y w1 where r: "rule_for_wallet env mnt lastRound recipient recSends w = (y, w1)" by fastforce
    note ok = rule_ok [OF r "2.prems"(2)]
    show ?thesis
    proof (cases y)
      case (Inl e)
      then show ?thesis using "2.prems" False r ok by simp
    next
      case (Inr ids)
      then show ?thesis using "2.IH"(2) [OF False r [symmetric] Inr] "2.prems"(1) False r ok calm_trans by fastforce
    qed
  qed
qed simp

lemma satisfy_ok:
  assumes "send_inv env landed w" "\<And>i. i \<in> set ids \<Longrightarrow> \<exists>r. sr i w = Some r \<and> s_signature r = None"
  shows "send_inv env landed (satisfy_rest env amounts ids w) \<and> calm w (satisfy_rest env amounts ids w)"
  using assms unfolding satisfy_rest_def
proof (induction ids arbitrary: w)
  case (Cons i ids)
  let ?up = "up_send env i (\<lambda>r. r\<lparr>s_status := SSatisfied\<rparr>) w"
  let ?w = "if jm_get amounts i = None then r_metric ''send.satisfied'' 1 ?up else w"
  obtain r where r: "sr i w = Some r" "s_signature r = None" using Cons.prems(2) by force
  have "send_inv env landed ?up"
    using r by (intro inv_up [OF Cons.prems(1)]) (auto simp: rec_ok_def)
  then have i: "send_inv env landed ?w" using Cons.prems(1) by (simp add: inv_rest)
  have "calm w ?up" by (rule calm_up) simp_all
  then have q: "calm w ?w" using calm_trans [OF _ calm_plain(1)] by simp
  have "\<exists>r. sr j ?w = Some r \<and> s_signature r = None" if j: "j \<in> set ids" for j
  proof -
    obtain s where "sr j w = Some s" "s_signature s = None" using Cons.prems(2) [of j] j by auto
    then show ?thesis by (rule calm_unsigned [OF q])
  qed
  from Cons.IH [OF i this] q show ?case
    by (simp only: for_each_simps) (blast intro: calm_trans)
qed simp

section \<open>One coin\<close>

lemma batches_ok:
  assumes laws: "send_laws env landed"
  shows "send_inv env landed w \<Longrightarrow> distinct (concat ps) \<Longrightarrow>
    (\<And>i. i \<in> set (concat ps) \<Longrightarrow> i \<notin> set skip \<Longrightarrow> ready w i) \<Longrightarrow>
    send_inv env landed (fold (sendBatch env cfg mnt amounts sweep skip) ps w) \<and>
    far (set (concat ps)) w (fold (sendBatch env cfg mnt amounts sweep skip) ps w)"
proof (induction ps arbitrary: w)
  case (Cons p ps)
  let ?w = "sendBatch env cfg mnt amounts sweep skip p w"
  have ok: "send_inv env landed ?w \<and> untouched p w ?w"
    by (rule sendBatch_ok [OF laws Cons.prems(1)]) (use Cons.prems(2,3) in auto)
  have "ready ?w i" if "i \<in> set (concat ps)" "i \<notin> set skip" for i
    using ready_untouched [OF conjunct2 [OF ok], of i] Cons.prems(2,3) that by auto
  from Cons.IH [OF conjunct1 [OF ok] _ this] Cons.prems(2)
  have "send_inv env landed (fold (sendBatch env cfg mnt amounts sweep skip) ps ?w) \<and>
      far (set (concat ps)) ?w (fold (sendBatch env cfg mnt amounts sweep skip) ps ?w)" by simp
  moreover have "far (set (concat (p # ps))) w ?w" using ok by (intro far_untouched [of p]) auto
  ultimately show ?case by (auto simp: far_def)
qed (simp add: far_def)

lemma deliver_ok:
  assumes laws: "send_laws env landed" and inv: "send_inv env landed w"
    and ids: "distinct ids" "set ids \<subseteq> set (send_ids w)"
    and run: "deliver_coin env cfg loads sweep lastRound mnt hb ids w = (x, w')"
  shows "send_inv env landed w' \<and> far (set ids) w w'"
proof -
  have t: "send_inv env landed (r_tick w)" using inv by (rule inv_rest)
  have "send_ids (r_tick w) = send_ids w" by (simp add: send_ids_def)
  with ids have ids': "distinct ids" "set ids \<subseteq> set (send_ids (r_tick w))" by simp_all
  obtain skip w1 where c: "check_all env ids [] (r_tick w) = (skip, w1)" by fastforce
  note C = check_all_ok [OF laws c t ids']
  define unsure where "unsure = map (\<lambda>i. s_recipient (the_send i w1)) (filter (\<lambda>i. i \<in> set skip) ids)"
  define groups where "groups = group_by (\<lambda>i. s_recipient (the_send i w1)) ids"
  obtain y w2 where a: "allow_wallets env mnt lastRound unsure groups [] w1 = (y, w2)" by fastforce
  have A: "send_inv env landed w2" "calm w1 w2" using allow_ok [OF a, of landed] C by simp_all
  have s2: "rw_sent w2 = rw_sent w" using check_all_sent [OF c] A(2) by (simp add: calm_def)
  obtain balance w3 where b: "getTokenBalance env mnt w2 = (balance, w3)" by fastforce
  then have q3: "calm w2 w3" and i3: "send_inv env landed w3"
    using A(1) by (auto simp: getTokenBalance_def inv_rest intro: calm_trans calm_plain split: option.splits)
  have ids3: "send_ids w3 = send_ids w"
    using leaves_ids [OF leaves_balance [OF b]] leaves_ids [OF leaves_allow [OF a]]
      leaves_ids [OF leaves_check_all [OF c]] by (simp add: send_ids_def)
  have s3: "rw_sent w3 = rw_sent w" using q3 s2 by (simp add: calm_def)
  have go: "send_inv env landed (fold (sendBatch env cfg mnt amounts sweep skip)
      (portions 5 (filter (\<lambda>i. jm_get amounts i \<noteq> None) allowed)) (satisfy_rest env amounts allowed w3)) \<and>
    far (set ids) w (fold (sendBatch env cfg mnt amounts sweep skip)
      (portions 5 (filter (\<lambda>i. jm_get amounts i \<noteq> None) allowed)) (satisfy_rest env amounts allowed w3))"
    if allowed: "allowed = filter (\<lambda>i. s_status (the_send i w3) = SPending \<and> i \<in> set ok) ids" for amounts allowed ok
  proof -
    have unsigned: "\<exists>r. sr i w3 = Some r \<and> s_signature r = None" if "i \<in> set allowed" for i
    proof -
      have "i \<in> set (send_ids w3)" using that ids(2) ids3 allowed by auto
      then obtain r where r: "sr i w3 = Some r" using sr_known by blast
      have "s_status (the_send i w3) = SPending" using that allowed by simp
      with r have "s_status r = SPending" using the_send_sr [OF r] by simp
      moreover have "rec_ok landed (batches i w3) r" using i3 r by (simp add: send_inv_def)
      ultimately have "s_signature r = None" by (auto simp: rec_ok_def split: option.splits)
      with r show ?thesis by blast
    qed
    note S = satisfy_ok [OF i3 unsigned, of allowed amounts]
    let ?w4 = "satisfy_rest env amounts allowed w3"
    have S': "send_inv env landed ?w4" "calm w3 ?w4" using S by simp_all
    have "send_inv env landed (fold (sendBatch env cfg mnt amounts sweep skip)
        (portions 5 (filter (\<lambda>i. jm_get amounts i \<noteq> None) allowed)) ?w4) \<and>
      far (set (concat (portions 5 (filter (\<lambda>i. jm_get amounts i \<noteq> None) allowed)))) ?w4
        (fold (sendBatch env cfg mnt amounts sweep skip) (portions 5 (filter (\<lambda>i. jm_get amounts i \<noteq> None) allowed)) ?w4)"
    proof (rule batches_ok [OF laws S'(1)])
      show "distinct (concat (portions 5 (filter (\<lambda>i. jm_get amounts i \<noteq> None) allowed)))"
        using ids(1) allowed by simp
    next
      fix i
      assume "i \<in> set (concat (portions 5 (filter (\<lambda>i. jm_get amounts i \<noteq> None) allowed)))" "i \<notin> set skip"
      then have i: "i \<in> set allowed" "i \<in> set ids" "i \<notin> set skip" using allowed by auto
      have "clear_of i w1" using C i by blast
      then have "clear_of i ?w4" using calm_clear [OF A(2)] calm_clear [OF q3] calm_clear [OF S'(2)] by simp
      moreover obtain r where "sr i w3 = Some r" "s_signature r = None" using unsigned [OF i(1)] by blast
      then obtain r' where "sr i ?w4 = Some r'" "s_signature r' = None" using calm_unsigned [OF S'(2)] by blast
      ultimately show "ready ?w4 i" by (simp add: ready_def clear_of_def)
    qed
    moreover have "far (set ids) w ?w4" using S'(2) s3 by (intro far_sent) (simp add: calm_def)
    ultimately show ?thesis using allowed by (auto simp: far_def)
  qed
  have f: "far (set ids) w w" "far (set ids) w (r_tick w)" "far (set ids) w w2" "far (set ids) w (r_metric k n w3)" for k n
    using s2 s3 by (simp_all add: far_sent)
  show ?thesis
    using run c a b inv t i3 A(1) go [OF refl] f
    by (auto simp: deliver_coin_def Let_def unsure_def groups_def inv_rest split: if_splits sum.splits)
qed

section \<open>Burning and reading leave the deliveries alone\<close>

definition sends_kept :: "rworld \<Rightarrow> rworld \<Rightarrow> bool" where
  "sends_kept w w' \<longleftrightarrow> sends (lstate (rw_mgr w')) = sends (lstate (rw_mgr w)) \<and> rw_sent w' = rw_sent w"

lemma sends_kept_trans: "sends_kept a b \<Longrightarrow> sends_kept b c \<Longrightarrow> sends_kept a c"
  by (simp add: sends_kept_def)

lemma kept_inv: "sends_kept w w' \<Longrightarrow> send_inv env landed w \<Longrightarrow> send_inv env landed w'"
  by (rule inv_same) (simp_all add: sends_kept_def sr_def getSend_def)

lemma kept_ids: "sends_kept w w' \<Longrightarrow> send_ids w' = send_ids w"
  by (simp add: sends_kept_def send_ids_def)

lemma kept_refl [simp]: "sends_kept w w"
  by (simp add: sends_kept_def)

lemma kept_from [simp]:
  "sends_kept (r_tick w) w' \<longleftrightarrow> sends_kept w w'"
  "sends_kept (r_mut env (\<lambda>now. updateBurn now i f) w) w' \<longleftrightarrow> sends_kept w w'"
  "sends_kept (r_mut env (\<lambda>now. addBurned now mnt raw) w) w' \<longleftrightarrow> sends_kept w w'"
  by (auto simp: sends_kept_def updateBurn_def addBurned_def updateTokenBuy_def split: option.split)

lemma kept_to [simp]:
  "sends_kept w (r_tick w') \<longleftrightarrow> sends_kept w w'"
  "sends_kept w (r_mut env (\<lambda>now. updateBurn now i f) w') \<longleftrightarrow> sends_kept w w'"
  "sends_kept w (r_mut env (\<lambda>now. addBurned now mnt raw) w') \<longleftrightarrow> sends_kept w w'"
  "sends_kept w (r_mut env (\<lambda>now. updateTokenBuy now mnt (g now)) w') \<longleftrightarrow> sends_kept w w'"
  by (auto simp: sends_kept_def updateBurn_def addBurned_def updateTokenBuy_def split: option.split)

lemma settle_open_sends: "sends_kept w (snd (settle_open env mnt bs w))"
proof (induction env mnt bs w rule: settle_open.induct)
  case (2 env mnt b bs w)
  then show ?case
    by (auto simp: Let_def ask_signature_def)
qed simp

lemma prepare_sends: "sends_kept w (snd (burn_prepare env load mnt w))"
proof -
  obtain clear w1 where s: "settlePending env mnt w = (clear, w1)" by fastforce
  then have "sends_kept w w1" using settle_open_sends by (metis settlePending_def snd_conv)
  then show ?thesis
    by (auto simp: burn_prepare_def s Let_def sends_kept_def addBurn_def split: option.splits sum.splits)
qed

lemma burn_send_sends: "sends_kept w (snd (burn_send env mnt final bn w))"
  by (simp add: burn_send_def Let_def split: sum.split)

lemma burn_sends: "sends_kept w (snd (burnDueFor env load mnt final w))"
proof -
  obtain x w1 where p: "burn_prepare env load mnt w = (x, w1)" by fastforce
  then have "sends_kept w w1" using prepare_sends [of w env load mnt] by simp
  then show ?thesis
    by (cases x) (auto simp: burnDueFor_def p intro: sends_kept_trans burn_send_sends)
qed

lemma refresh_sends:
  "refreshPurchaseTokens rpcBatch bs keeper mints load now m = Inr m' \<Longrightarrow> sends (lstate m') = sends (lstate m)"
  by (auto simp: refreshPurchaseTokens_def recordPurchaseTokens_def Let_def split: if_splits sum.splits)

section \<open>Rounds\<close>

lemma group_by_get:
  "jm_get (group_by key ids) k = (let xs = filter (\<lambda>i. key i = k) ids in if xs = [] then None else Some xs)"
proof -
  have "jm_get (foldl (\<lambda>m i. jm_set (key i) ((case jm_get m (key i) of Some xs \<Rightarrow> xs | None \<Rightarrow> []) @ [i]) m) m ids) k =
      (let xs = filter (\<lambda>i. key i = k) ids in if xs = [] then jm_get m k
       else Some ((case jm_get m k of Some ys \<Rightarrow> ys | None \<Rightarrow> []) @ xs))" for m
  proof (induction ids arbitrary: m)
    case (Cons i ids)
    then show ?case by (cases "key i = k") (auto simp: jm_get_set Let_def split: option.split)
  qed (simp add: Let_def)
  from this [of "[]"] show ?thesis by (simp add: group_by_def Let_def jm_get_def)
qed

lemma visit_ok:
  assumes laws: "send_laws env landed" and inv: "send_inv env landed w"
    and ids: "distinct ids" "set ids \<subseteq> set (send_ids w)"
    and run: "visit_coin env cfg loads sweep lastRound mnt hb ids w = (x, w')"
  shows "send_inv env landed w' \<and> send_ids w' = send_ids w \<and> far (set (send_ids w)) w w'"
proof -
  define w1 where "w1 = (if hb \<and> \<not> (case getTokenBuy mnt (rw_mgr w) of Some t \<Rightarrow> t_burnBlocked t \<noteq> None | None \<Rightarrow> False)
    then snd (burnDueFor env (loads (rw_step w)) mnt False w) else w)"
  have k: "sends_kept w w1" by (simp add: w1_def burn_sends)
  have d: "deliver_coin env cfg loads sweep lastRound mnt hb ids w1 = (x, w')"
    using run by (simp add: visit_coin_def w1_def)
  have ids': "set ids \<subseteq> set (send_ids w1)" using ids(2) kept_ids [OF k] by simp
  have "far (set (send_ids w)) w w1" using k by (intro far_sent) (simp add: sends_kept_def)
  then show ?thesis
    using deliver_ok [OF laws kept_inv [OF k inv] ids(1) ids' d] leaves_ids [OF leaves_deliver [OF d]] kept_ids [OF k] ids(2)
    by (auto simp: far_def)
qed

lemma visits_ok:
  assumes laws: "send_laws env landed"
    and groups: "\<And>mnt ids. jm_get byMint mnt = Some ids \<Longrightarrow> distinct ids \<and> set ids \<subseteq> known"
  shows "visit_coins env cfg loads sweep lastRound exact byMint mints w = (x, w') \<Longrightarrow> send_inv env landed w \<Longrightarrow>
    known \<subseteq> set (send_ids w) \<Longrightarrow>
    send_inv env landed w' \<and> send_ids w' = send_ids w \<and> far (set (send_ids w)) w w'"
proof (induction mints arbitrary: w)
  case (Cons mnt mints)
  define ids where "ids = (case jm_get byMint mnt of Some ids \<Rightarrow> ids | None \<Rightarrow> [])"
  have ids: "distinct ids" "set ids \<subseteq> set (send_ids w)"
    using groups [of mnt] Cons.prems(3) by (cases "jm_get byMint mnt"; force simp: ids_def)+
  obtain y w1 where v: "visit_coin env cfg loads sweep lastRound mnt (mnt \<in> set exact) ids w = (y, w1)" by fastforce
  note ok = visit_ok [OF laws Cons.prems(2) ids v]
  show ?case
  proof (cases y)
    case None
    then have "visit_coins env cfg loads sweep lastRound exact byMint mints w1 = (x, w')"
      using Cons.prems(1) v by (simp add: ids_def)
    from Cons.IH [OF this] ok Cons.prems(3) show ?thesis using far_trans by auto
  next
    case (Some e)
    then show ?thesis using Cons.prems(1) v ok by (simp add: ids_def)
  qed
qed (simp add: far_def)

lemma round_ok:
  assumes laws: "send_laws env landed" and inv: "send_inv env landed w" and d: "distinct (send_ids w)"
    and run: "one_round env cfg loads sweep n r w = (x, w')"
  shows "send_inv env landed w' \<and> send_ids w' = send_ids w \<and> far (set (send_ids w)) w w'"
proof -
  define st where "st = lstate (rw_mgr w)"
  define due where "due = filter (\<lambda>s. s_status s = SPending \<and> (sweep \<or> s_round s \<le> r)) (sends st)"
  define exact where "exact = mintsWithBurners st"
  define refreshed where "refreshed = (if 0 < length exact
            then refreshPurchaseTokens (re_rpc env (rw_step w)) None (re_keeper env) exact (loads (rw_step w))
                   (re_clock env (rw_step w)) (rw_mgr w)
            else Inr (rw_mgr w))"
  have t: "send_inv env landed (r_tick w)" "send_ids (r_tick w) = send_ids w" "far (set (send_ids w)) w (r_tick w)"
    using inv by (simp_all add: inv_rest send_ids_def far_sent)
  note run = run [unfolded one_round_def Let_def, folded st_def, folded due_def exact_def, folded refreshed_def]
  show ?thesis
  proof (cases refreshed)
    case (Inl e)
    then show ?thesis using run t by simp
  next
    case (Inr m)
    let ?w1 = "(r_tick w)\<lparr>rw_mgr := m\<rparr>"
    have "sends (lstate m) = sends (lstate (rw_mgr w))"
      using Inr by (auto simp: refreshed_def split: if_splits dest: refresh_sends)
    then have k: "sends_kept w ?w1" by (simp add: sends_kept_def)
    note i1 = kept_inv [OF k inv] and d1 = kept_ids [OF k]
    have f1: "far (set (send_ids w)) w ?w1" by (rule far_sent) simp
    let ?by = "group_by (\<lambda>i. s_mint (the_send i ?w1)) (map s_id due)"
    have due: "distinct (map s_id due)" "set (map s_id due) \<subseteq> set (send_ids ?w1)"
      using d d1 by (auto simp: due_def send_ids_def st_def intro: distinct_map_filter)
    have g: "distinct ids \<and> set ids \<subseteq> set (map s_id due)" if "jm_get ?by mnt = Some ids" for mnt ids
      using that due(1) by (auto simp: group_by_get Let_def split: if_splits)
    show ?thesis
    proof (cases "due = [] \<and> exact = []")
      case True
      then show ?thesis using run Inr i1 d1 f1 by simp
    next
      case False
      then have "visit_coins env cfg loads sweep (n \<le> r) exact ?by (unique (exact @ jm_keys ?by)) ?w1 = (x, w')"
        using run by (simp add: Inr if_not_P [OF False])
      from visits_ok [OF laws g this i1 due(2)] show ?thesis using far_trans [OF f1] by (auto simp: d1)
    qed
  qed
qed

lemma rounds_ok:
  assumes laws: "send_laws env landed"
  shows "rounds_from env cfg loads sweep n rs w = (x, w') \<Longrightarrow> send_inv env landed w \<Longrightarrow> distinct (send_ids w) \<Longrightarrow>
    send_inv env landed w' \<and> send_ids w' = send_ids w \<and> far (set (send_ids w)) w w'"
proof (induction rs arbitrary: w)
  case (Cons r rs)
  obtain y w1 where o: "one_round env cfg loads sweep n r (r_tick w) = (y, w1)" by fastforce
  have t: "send_inv env landed (r_tick w)" "send_ids (r_tick w) = send_ids w" "far (set (send_ids w)) w (r_tick w)"
    using Cons.prems(2) by (simp_all add: inv_rest send_ids_def far_sent)
  have ok: "send_inv env landed w1 \<and> send_ids w1 = send_ids w \<and> far (set (send_ids w)) w w1"
    using round_ok [OF laws t(1) _ o] Cons.prems(3) t(2) far_trans [OF t(3)] by auto
  show ?case
  proof (cases y)
    case None
    then have "rounds_from env cfg loads sweep n rs w1 = (x, w')" using Cons.prems(1) o by simp
    from Cons.IH [OF this] ok Cons.prems(3) far_trans show ?thesis by auto
  qed (use Cons.prems(1) o ok in simp)
qed (simp add: far_def)

section \<open>Settlement\<close>

text \<open>The identifiers of a round: each once, the numbers of the top-ups not above the number of
  deliveries, and nothing signed for an identifier that is not there.\<close>

definition ids_ok :: "rworld \<Rightarrow> bool" where
  "ids_ok w \<longleftrightarrow> distinct (send_ids w) \<and>
     (\<forall>k. 0 \<le> k \<and> topup_id k \<in> set (send_ids w) \<longrightarrow> k \<le> int (length (send_ids w))) \<and>
     (\<forall>i. i \<notin> set (send_ids w) \<longrightarrow> batches i w = {})"

lemma ids_ok_far: "ids_ok w \<Longrightarrow> send_ids w' = send_ids w \<Longrightarrow> far (set (send_ids w)) w w' \<Longrightarrow> ids_ok w'"
  by (simp add: ids_ok_def far_def)

definition good :: "round_env \<Rightarrow> (signature \<Rightarrow> bool) \<Rightarrow> rworld \<Rightarrow> bool" where
  "good env landed w \<longleftrightarrow> send_inv env landed w \<and> ids_ok w"

lemma good_kept: "sends_kept w w' \<Longrightarrow> good env landed w \<Longrightarrow> good env landed w'"
  unfolding good_def using kept_inv kept_ids ids_ok_far [OF _ kept_ids far_sent]
  by (metis sends_kept_def)

lemma good_leaves: "send_inv env landed w' \<Longrightarrow> leaves w w' \<Longrightarrow> rw_sent w' = rw_sent w \<Longrightarrow> good env landed w \<Longrightarrow> good env landed w'"
  unfolding good_def using leaves_ids ids_ok_far [OF _ leaves_ids far_sent] by blast

lemma abandoned_ok:
  assumes laws: "send_laws env landed" and inv: "send_inv env landed w"
    and run: "check_abandoned env i (u, w) = (u', w')"
  shows "send_inv env landed w' \<and> rw_sent w' = rw_sent w"
proof (cases "getSend i (rw_mgr w)")
  case None
  have n: "sr i (r_tick w) = None" using None by (simp add: sr_def)
  have "send_inv env landed (up_send env i (\<lambda>q. q\<lparr>s_status := SCompleted, s_signature := a, s_pending := None,
      s_limit := None, s_gross := g\<rparr>) (r_tick w))" for a g
    by (rule inv_up [OF inv_rest(2) [OF inv]]) (use n in \<open>simp_all add: unstamped_def\<close>)
  then show ?thesis using run inv
    by (auto simp: check_abandoned_def Let_def ask_signature_def inv_rest split: if_splits)
next
  case (Some r)
  then have i: "sr i w = Some (bare r)" "the_send i w = r" by (simp_all add: sr_def the_send_def)
  have t: "send_inv env landed (r_tick w)" using inv by (rule inv_rest)
  show ?thesis
  proof (cases "s_status r = SAbandoned \<and> truthy_string (s_pending r)")
    case False
    then show ?thesis using run inv i by (simp add: check_abandoned_def)
  next
    case True
    then obtain sig where sig: "s_pending r = Some sig" "sig \<noteq> []" by (auto simp: truthy_string_def split: option.splits)
    obtain n where n: "re_sign env n = Inr (sig, s_limit r)" using pending_signed [OF inv i(1)] True sig by auto
    let ?w = "up_send env i (\<lambda>q. q\<lparr>s_status := SCompleted, s_signature := Some sig, s_pending := None,
        s_limit := None, s_gross := s_amount r\<rparr>) (r_tick w)"
    have won: "send_inv env landed ?w"
      if l: "signatureOutcome (s_limit r) (re_height env (rw_step w)) (re_status env (rw_step w) sig) = Landed"
    proof (rule inv_up [OF t])
      fix q
      assume q: "sr i (r_tick w) = Some q" "rec_ok landed (batches i (r_tick w)) q"
      then have "s_pending q = Some sig" using i(1) sig(1) by auto
      then show "rec_ok landed (batches i (r_tick w)) (q\<lparr>s_status := SCompleted, s_signature := Some sig,
          s_pending := None, s_limit := None, s_gross := s_amount r\<rparr>)"
        by (rule won_ok [OF q(2) _ sig(2) send_lawD(2) [OF laws n l]])
    qed (simp add: unstamped_def)
    then show ?thesis using run True i(2) sig(1) t
      by (auto simp: check_abandoned_def Let_def ask_signature_def inv_rest split: if_splits)
  qed
qed

lemma abandoned_all_ok:
  assumes laws: "send_laws env landed"
  shows "fold (check_abandoned env) ids (u, w) = (u', w') \<Longrightarrow> good env landed w \<Longrightarrow> good env landed w'"
proof (induction ids arbitrary: u w)
  case (Cons i ids)
  obtain u1 w1 where c: "check_abandoned env i (u, w) = (u1, w1)" by fastforce
  have "send_inv env landed w" using Cons.prems(2) by (simp add: good_def)
  then have a: "send_inv env landed w1" "rw_sent w1 = rw_sent w" using abandoned_ok [OF laws _ c] by blast+
  have "good env landed w1" by (rule good_leaves [OF a(1) leaves_abandoned [OF c] a(2) Cons.prems(2)])
  then show ?case using Cons c by simp
qed simp

lemma find_known: "find P xs = Some x \<Longrightarrow> find P (xs @ ys) = Some x"
  by (induction xs) auto

lemma addSends_good:
  assumes g: "good env landed w" and a: "\<And>a. a \<in> set added \<Longrightarrow> s_pending a = None \<and> s_signature a = None \<and> s_status a = SPending"
    and ids: "distinct (map s_id added)" "\<And>a. a \<in> set added \<Longrightarrow>
      \<exists>k. int (length (send_ids w)) < k \<and> k \<le> int (length (send_ids w)) + int (length added) \<and> s_id a = topup_id k"
  shows "good env landed ((r_tick w)\<lparr>rw_mgr := addSends added (rw_mgr w)\<rparr>)"
proof -
  let ?w = "(r_tick w)\<lparr>rw_mgr := addSends added (rw_mgr w)\<rparr>"
  have b: "batches i ?w = batches i w" for i by (rule batches_sent) simp
  have i: "send_ids ?w = send_ids w @ map s_id added" by (simp add: send_ids_def)
  have fresh: "s_id a \<notin> set (send_ids w)" if "a \<in> set added" for a
  proof
    assume "s_id a \<in> set (send_ids w)"
    moreover from ids(2) [OF that] obtain k where k: "int (length (send_ids w)) < k" "s_id a = topup_id k" by blast
    moreover have "0 \<le> k" using k(1) by linarith
    ultimately have "k \<le> int (length (send_ids w))" using g by (metis good_def ids_ok_def)
    with k(1) show False by linarith
  qed
  have "rec_ok landed (batches j ?w) r" if r: "sr j ?w = Some r" for j r
  proof (cases "j \<in> set (send_ids w)")
    case True
    then obtain q where q: "getSend j (rw_mgr w) = Some q" using sr_known [of j w] by (auto simp: sr_def)
    then have "getSend j (rw_mgr ?w) = Some q" by (auto simp: getSend_def intro: find_known)
    then have "sr j w = Some r" using r q by (simp add: sr_def)
    then show ?thesis using g by (simp add: b good_def send_inv_def)
  next
    case False
    then have none: "batches j ?w = {}" using g by (simp add: b good_def ids_ok_def)
    obtain q where q: "getSend j (rw_mgr ?w) = Some q" "r = bare q" using r by (auto simp: sr_def)
    then have "q \<in> set (all_sends w) \<or> q \<in> set added" "s_id q = j" by (auto simp: getSend_def elim!: find_SomeE)
    then have "q \<in> set added" using False by (auto simp: send_ids_def)
    then show ?thesis using a q(2) none by (simp add: rec_ok_def)
  qed
  then have "send_inv env landed ?w" using g by (simp add: good_def send_inv_def)
  moreover have "ids_ok ?w"
  proof -
    have "k \<le> int (length (send_ids w) + length added)" if k: "0 \<le> k" "topup_id k \<in> set (send_ids w @ map s_id added)" for k
    proof (cases "topup_id k \<in> set (send_ids w)")
      case True
      then show ?thesis using g k(1) by (fastforce simp: good_def ids_ok_def)
    next
      case False
      then obtain x where "x \<in> set added" "s_id x = topup_id k" using k(2) by auto
      with ids(2) [of x] obtain j where j: "int (length (send_ids w)) < j" "j \<le> int (length (send_ids w)) + int (length added)"
        "topup_id k = topup_id j" by metis
      then have "k = j" using topup_id_inj [OF k(1) _ j(3)] by linarith
      then show ?thesis using j(2) by simp
    qed
    moreover have "distinct (send_ids w @ map s_id added)" using g ids(1) fresh by (auto simp: good_def ids_ok_def)
    ultimately show ?thesis using g by (auto simp: ids_ok_def i b good_def)
  qed
  ultimately show ?thesis by (simp add: good_def)
qed

lemma pot_kept: "coin_pot loads (settle_balance env) mnt exact dlv w = (p, w') \<Longrightarrow> sends_kept w w'"
  by (auto simp: coin_pot_def settle_balance_def getTokenBalance_def Let_def sends_kept_def split: if_splits option.splits)

lemma top_up_ok:
  assumes laws: "send_laws env landed" and g: "good env landed w"
    and run: "topUpsFor env loads (settle_balance env) n mnt exact w = (k, w')"
  shows "good env landed w'"
proof -
  obtain u w1 where f: "fold (check_abandoned env) (map s_id (coin_sends mnt w)) ([], w) = (u, w1)" by fastforce
  obtain p w2 where c: "coin_pot loads (settle_balance env) mnt exact (sent_map exact (coin_sends mnt w1)) w1 = (p, w2)"
    by fastforce
  have g1: "good env landed w1" using abandoned_all_ok [OF laws f g] .
  have g2: "good env landed w2" using good_kept [OF pot_kept [OF c] g1] .
  have l: "int (length (all_sends w2)) = int (length (send_ids w2))" by (simp add: send_ids_def)
  have "good env landed ((r_tick w2)\<lparr>rw_mgr := addSends (add_top_ups wants mnt ss n now wals
      (int (length (all_sends w2)))) (rw_mgr w2)\<rparr>)" for wants ss now wals
    unfolding l by (rule addSends_good [OF g2]) (auto dest: top_up_fields top_up_ids simp: top_up_ids_distinct)
  then show ?thesis
    using run f c g g1 g2 by (auto simp: topUpsFor_def Let_def split: if_splits option.splits)
qed

lemma top_ups_ok:
  assumes laws: "send_laws env landed"
  shows "top_ups env loads (settle_balance env) n exact mints k w = (k', w') \<Longrightarrow> good env landed w \<Longrightarrow> good env landed w'"
proof (induction mints arbitrary: k w)
  case (Cons mnt mints)
  obtain a w1 where t: "topUpsFor env loads (settle_balance env) n mnt (mnt \<in> set exact) w = (a, w1)" by fastforce
  with Cons top_up_ok [OF laws Cons.prems(2) t] show ?case by simp
qed simp

lemma refresh_kept_sends: "refresh env loads mints w = (x, w') \<Longrightarrow> sends_kept w w'"
  by (auto simp: refresh_def sends_kept_def split: sum.splits dest: refresh_sends)

lemma read_kept: "read_last env loads exact ds w = (x, w') \<Longrightarrow> sends_kept w w'"
proof (induction ds arbitrary: w)
  case (Cons d ds)
  then show ?case
    by (auto simp: Let_def split: if_splits prod.splits option.splits dest!: refresh_kept_sends
        intro: sends_kept_trans)
qed simp

lemma burn_last_kept: "fold (burn_last env loads) mints (b, w) = (b', w') \<Longrightarrow> sends_kept w w'"
proof (induction mints arbitrary: b w)
  case (Cons mnt mints)
  obtain b1 w1 where s: "burn_last env loads mnt (b, w) = (b1, w1)" by fastforce
  have "sends_kept w w1"
    using s burn_sends [of w env "loads (rw_step w)" mnt True]
    by (auto simp: burn_last_def Let_def split: if_splits prod.splits option.splits)
  then show ?case using Cons.IH [of b1 w1] Cons.prems s sends_kept_trans by simp
qed simp

lemma settle_ok:
  assumes laws: "send_laws env landed" and g: "good env landed w"
    and run: "settleAfterBuying env loads (settle_balance env) n w = (x, w')"
  shows "good env landed w'"
proof -
  let ?mints = "map t_mint (tokenBuys (lstate (rw_mgr w)))"
  let ?exact = "filter (\<lambda>m. hasBurn (sharesOf (lstate (rw_mgr w)) m)) ?mints"
  obtain e w1 where r: "read_last env loads ?exact READ_RETRY_DELAYS_MS w = (e, w1)" by fastforce
  obtain b w2 where l: "fold (burn_last env loads) ?exact (filter (unread_of loads w1) ?exact, w1) = (b, w2)" by fastforce
  obtain k w3 where t: "top_ups env loads (settle_balance env) n ?exact ?mints 0 w2 = (k, w3)" by fastforce
  have g1: "good env landed w1" using good_kept [OF read_kept [OF r] g] .
  have "good env landed w3" using top_ups_ok [OF laws t good_kept [OF burn_last_kept [OF l] g1]] .
  then show ?thesis using run r l t g1 by (simp add: settleAfterBuying_def Let_def split: option.splits)
qed

section \<open>The history of the deliveries\<close>

text \<open>Between runs, whatever happens leaves the signatures of a delivery alone and does not call it
  completed; a new delivery starts with none. The process may die after a batch was signed and
  written, before anything is known of it.\<close>

definition standing :: "SendRecord option \<Rightarrow> SendRecord option \<Rightarrow> bool" where
  "standing before after \<longleftrightarrow>
     (case after of
        None \<Rightarrow> before = None
      | Some r' \<Rightarrow>
          (case before of
             None \<Rightarrow> s_signature r' = None \<and> \<not> truthy_string (s_pending r') \<and> s_status r' \<noteq> SCompleted
           | Some r \<Rightarrow> s_signature r' = s_signature r \<and> s_pending r' = s_pending r \<and> s_limit r' = s_limit r \<and>
               (s_status r' = s_status r \<or> s_signature r = None \<and> s_status r' \<noteq> SCompleted)))"

inductive send_step :: "round_env \<Rightarrow> rworld \<Rightarrow> rworld \<Rightarrow> bool" for env where
  run: "send_step env w (snd (executeSendRounds env cfg loads sweep n w))"
| one: "send_step env w (snd (one_round env cfg loads sweep n r w))"
| settle: "send_step env w (snd (settleAfterBuying env loads (settle_balance env) n w))"
| death: "distinct ids \<Longrightarrow> list_all (ready w) ids \<Longrightarrow> re_sign env n = Inr (sig, limit) \<Longrightarrow>
    send_step env w (on_signed env amounts ids sig limit (mark_batch env amounts ids w))"
| other: "rw_sent w' = rw_sent w \<Longrightarrow> ids_ok w' \<Longrightarrow> (\<And>i. standing (sr i w) (sr i w')) \<Longrightarrow> send_step env w w'"

lemma send_step_ok:
  assumes laws: "send_laws env landed"
  shows "send_step env w w' \<Longrightarrow> good env landed w \<Longrightarrow> good env landed w'"
proof (induction rule: send_step.induct)
  case (run w cfg loads sweep n)
  obtain x w' where r: "rounds_from env cfg loads sweep n [1..n] w = (x, w')" by fastforce
  have i: "ids_ok w" using run by (simp add: good_def)
  have a: "send_inv env landed w'" "send_ids w' = send_ids w" "far (set (send_ids w)) w w'"
    using rounds_ok [OF laws r] run by (auto simp: good_def ids_ok_def)
  show ?case using r a(1) ids_ok_far [OF i a(2,3)] by (simp add: executeSendRounds_def good_def)
next
  case (one w cfg loads sweep n r)
  obtain x w' where o: "one_round env cfg loads sweep n r w = (x, w')" by fastforce
  have i: "ids_ok w" "send_inv env landed w" "distinct (send_ids w)" using one by (simp_all add: good_def ids_ok_def)
  have a: "send_inv env landed w'" "send_ids w' = send_ids w" "far (set (send_ids w)) w w'"
    using round_ok [OF laws i(2,3) o] by auto
  show ?case using o a(1) ids_ok_far [OF i(1) a(2,3)] by (simp add: good_def)
next
  case (settle w loads n)
  obtain x w' where s: "settleAfterBuying env loads (settle_balance env) n w = (x, w')" by fastforce
  with settle_ok [OF laws settle s] show ?case by simp
next
  case (death ids w n sig limit amounts)
  let ?v = "mark_batch env amounts ids w"
  let ?w = "on_signed env amounts ids sig limit ?v"
  have inv: "send_inv env landed w" using death(4) by (simp add: good_def)
  note mark = mark_ok [OF inv death(1,2), of amounts]
  have s: "send_inv env landed ?w" "untouched ids ?v ?w"
    using signed_ok [OF conjunct1 [OF mark] death(1) _ death(3) send_lawD(1) [OF laws death(3)], of amounts] mark by simp_all
  have "send_ids ?w = send_ids w"
    using leaves_ids [OF leaves_trans [OF leaves_mark leaves_signed]] .
  moreover have "ids_ok w" using death(4) by (simp add: good_def)
  moreover have "set ids \<subseteq> set (send_ids w)"
    using death(2) sr_known by (fastforce simp: list_all_iff ready_def)
  then have "far (set (send_ids w)) w ?w"
    using mark s(2) by (intro far_untouched [of ids]) (auto intro: untouched_trans)
  ultimately have "ids_ok ?w" by (metis ids_ok_far)
  then show ?case using s(1) by (simp add: good_def)
next
  case (other w' w)
  have b: "batches i w' = batches i w" for i by (rule batches_sent) (rule other(1))
  have "rec_ok landed (batches i w') r'" if r': "sr i w' = Some r'" for i r'
  proof (cases "sr i w")
    case None
    then have "batches i w = {}" using other(4) sr_known [of i w] by (auto simp: good_def ids_ok_def)
    then show ?thesis using other(3) [of i] r' None by (auto simp: b standing_def rec_ok_def)
  next
    case (Some r)
    then have "rec_ok landed (batches i w) r" using other(4) by (simp add: good_def send_inv_def)
    then show ?thesis using other(3) [of i] r' Some by (auto simp: b standing_def rec_ok_def split: option.splits)
  qed
  then show ?case using other by (simp add: good_def send_inv_def)
qed

text \<open>What the invariant says of one delivery.\<close>

lemma good_pays_once:
  assumes g: "good env landed w" and i: "getSend i (rw_mgr w) = Some r"
  shows "(\<forall>s l s' l'. (s, l) \<in> batches i w \<and> (s', l') \<in> batches i w \<and> landed s \<and> landed s' \<longrightarrow> s = s') \<and>
    (s_status r = SCompleted \<longrightarrow> (\<exists>s l. s_signature r = Some s \<and> (s, l) \<in> batches i w \<and> landed s))"
proof -
  have inv: "send_inv env landed w" using g by (simp add: good_def)
  have "sr i w = Some (bare r)" using i by (simp add: sr_def)
  with inv have ok: "rec_ok landed (batches i w) (bare r)" by (simp add: send_inv_def)
  have named: "s \<noteq> []" if "(s, l) \<in> batches i w" for s l
    using inv that by (auto simp: send_inv_def batches_def)
  have held: "s_pending r = Some s \<or> s_signature r = Some s" if "(s, l) \<in> batches i w" "landed s" for s l
    using ok that by (auto simp: rec_ok_def)
  have "s_pending r = Some x \<Longrightarrow> x \<noteq> [] \<Longrightarrow> s_signature r = None" for x
    using ok by (simp add: rec_ok_def)
  then have "s = s'" if "(s, l) \<in> batches i w" "(s', l') \<in> batches i w" "landed s" "landed s'" for s l s' l'
    using held [OF that(1,3)] held [OF that(2,4)] named [OF that(1)] named [OF that(2)] by (auto split: if_splits)
  moreover have "\<exists>s l. s_signature r = Some s \<and> (s, l) \<in> batches i w \<and> landed s" if "s_status r = SCompleted"
    using ok that by (auto simp: rec_ok_def split: option.splits)
  ultimately show ?thesis by blast
qed

text \<open>C2: no delivery is paid twice, and one that is called completed was paid. Start from a round whose
  deliveries have not been signed and follow any history of it: single delivery rounds, whole runs and
  sweeps, settlements, crashes right after a batch was signed and written, and planning of new deliveries. Then of all transactions
  ever signed for a delivery at most one lands, and a delivery recorded as completed carries the
  signature of one that did.\<close>

theorem one_payment:
  assumes laws: "send_laws env landed"
    and start: "rw_sent w0 = []" "ids_ok w0" "\<And>i r. sr i w0 = Some r \<Longrightarrow>
      s_signature r = None \<and> \<not> truthy_string (s_pending r) \<and> s_status r \<noteq> SCompleted"
    and history: "(send_step env)\<^sup>*\<^sup>* w0 w"
    and i: "getSend i (rw_mgr w) = Some r"
  shows "(\<forall>s l s' l'. (s, l) \<in> batches i w \<and> (s', l') \<in> batches i w \<and> landed s \<and> landed s' \<longrightarrow> s = s') \<and>
    (s_status r = SCompleted \<longrightarrow> (\<exists>s l. s_signature r = Some s \<and> (s, l) \<in> batches i w \<and> landed s))"
proof -
  have begin_ok: "good env landed w0"
    using start by (auto simp: good_def send_inv_def rec_ok_def batches_def)
  have "good env landed w"
    using history begin_ok
  proof (induction rule: rtranclp_induct)
    case (step y z)
    then show ?case using send_step_ok [OF laws] by blast
  qed
  then show ?thesis using i by (rule good_pays_once)
qed

text \<open>A node on which a batch that is sent lands: two deliveries of a coin go out in one run.\<close>

definition two_sends :: rworld where
  "two_sends = \<lparr>rw_mgr = addSends [(a_send ''1'' ''a'' 1 SPending None), (a_send ''2'' ''a'' 1 SPending None)] coin_read,
     rw_step = 0, rw_signed = [], rw_sent = []\<rparr>"

definition after_sends :: rworld where
  "after_sends = snd (executeSendRounds a_node (\<lambda>_. None) (\<lambda>_. a_load) False 1 two_sends)"

lemma a_node_same: "a_node\<lparr>re_confirm := \<lambda>_ _. Inr None\<rparr> = a_node"
  by (simp add: a_node_def)

lemma after_sends_list:
  "map (\<lambda>s. (s_id s, s_status s, s_signature s)) (sends (lstate (rw_mgr after_sends))) =
    [(''1'', SCompleted, Some (replicate 19 CHR ''x'')), (''2'', SCompleted, Some (replicate 19 CHR ''x''))]"
  by code_simp

theorem one_payment_witness:
  "s_status (the_send ''1'' after_sends) = SCompleted \<and>
   (\<exists>s l. s_signature (the_send ''1'' after_sends) = Some s \<and> (s, l) \<in> batches ''1'' after_sends)"
proof -
  have "(send_step a_node)\<^sup>*\<^sup>* two_sends after_sends"
    unfolding after_sends_def by (intro r_into_rtranclp send_step.run)
  moreover have "rw_sent two_sends = []" by code_simp
  moreover have "send_ids two_sends = [''1'', ''2'']" by code_simp
  then have "ids_ok two_sends" using \<open>rw_sent two_sends = []\<close> by (auto simp: ids_ok_def batches_def topup_id_def)
  moreover have "s_signature r = None \<and> \<not> truthy_string (s_pending r) \<and> s_status r \<noteq> SCompleted"
    if "sr i two_sends = Some r" for i r
  proof -
    have "list_all (\<lambda>r. s_signature r = None \<and> \<not> truthy_string (s_pending r) \<and> s_status r \<noteq> SCompleted)
        (sends (lstate (rw_mgr two_sends)))" by code_simp
    then show ?thesis using that by (simp only: sr_def getSend_def list_all_iff) (auto dest!: find_in)
  qed
  moreover have "send_laws a_node (\<lambda>_. True)"
    using a_node_send_laws [of "\<lambda>_ _. Inr None"] by (simp add: a_node_same)
  moreover obtain r where "getSend ''1'' (rw_mgr after_sends) = Some r" "s_status r = SCompleted"
    using after_sends_list by (auto simp: getSend_def Cons_eq_map_conv)
  ultimately show ?thesis
    using one_payment [of a_node "\<lambda>_. True" two_sends after_sends "''1''" r] by (simp add: the_send_def)
qed

section \<open>What an abandoned delivery can cost\<close>

text \<open>The waiting for one confirmation times out after the third attempt at a delivery; the transaction
  lands all the same. \<open>executeSendRounds\<close> asks only for pending deliveries what became of their
  signature, so the tokens of the abandoned one do not count as delivered.\<close>

definition slow_node :: round_env where
  "slow_node = a_node\<lparr>re_confirm := (\<lambda>_ sig. if length sig = 18 then Inl (plain_error ''block height exceeded'') else Inr None)\<rparr>"

definition third_attempt :: rworld where
  "third_attempt = \<lparr>rw_mgr = addSends [(a_send ''1'' ''a'' 1 SPending None)\<lparr>s_attempts := 2\<rparr>,
       (a_send ''2'' ''a'' 1 SPending None)\<lparr>s_round := 2\<rparr>] coin_read,
     rw_step = 0, rw_signed = [], rw_sent = []\<rparr>"

definition after_abandoned :: rworld where
  "after_abandoned = snd (executeSendRounds slow_node (\<lambda>_. None) (\<lambda>_. a_load) False 2 third_attempt)"


end
