(* ===== verification/Round_Safety.thy ===== *)
theory Round_Safety
  imports Orchestrator Send_History
begin

text \<open>
  The whole run of a round. Whatever the order in which coins start, batches end and delivery rounds
  take place, whatever breaks off, the run keeps the invariant of the deliveries, so the promise that
  no delivery is paid twice holds for \<open>executeLottery\<close> itself. What a run that breaks off does with
  purchases still on their way is the other result.
\<close>

section \<open>The invariant through a run\<close>

lemma mut_kept:
  assumes "\<And>now m m'. f now m = Inr m' \<Longrightarrow> sends (lstate m') = sends (lstate m)"
  shows "sends_kept w (r_mut env f w)"
  using assms by (auto simp: sends_kept_def sure_def split: sum.split)

lemma buy_update_sends: "updateTokenBuy now mnt f m = Inr m' \<Longrightarrow> sends (lstate m') = sends (lstate m)"
  by (auto simp: updateTokenBuy_def split: option.splits)

lemma buy_ops_sends:
  "markTokenBuyFailed now mnt msg m = Inr m' \<Longrightarrow> sends (lstate m') = sends (lstate m)"
  "markTokenBuyCompleted now mnt rid file m = Inr m' \<Longrightarrow> sends (lstate m') = sends (lstate m)"
  "startTokenBuy now mnt file m = Inr m' \<Longrightarrow> sends (lstate m') = sends (lstate m)"
  "addTokenBuySpent now mnt x m = Inr m' \<Longrightarrow> sends (lstate m') = sends (lstate m)"
  by (auto simp: markTokenBuyFailed_def markTokenBuyCompleted_def startTokenBuy_def addTokenBuySpent_def Let_def
      dest: buy_update_sends split: option.splits)

lemma metric_kept: "sends_kept w (r_metric k n w)"
  by (simp add: sends_kept_def)

lemma begin_kept: "begin_buy env item w = (x, w') \<Longrightarrow> sends_kept w w'"
  by (auto simp: begin_buy_def Let_def split: if_splits prod.splits
      intro!: sends_kept_trans [OF _ metric_kept] mut_kept dest: buy_ops_sends)

lemma end_kept: "sends_kept w (end_buy env mnt result w)"
  by (auto simp: end_buy_def Let_def split: sum.split
      intro!: mut_kept sends_kept_trans [of w "r_mut env (\<lambda>now. addTokenBuySpent now mnt (totalSolSpent (b_summary (bstate (w_mgr _))))) w"]
      dest: buy_ops_sends)

lemma phase_step_good:
  assumes laws: "send_laws (le_round le) landed" and g: "good (le_round le) landed (ph_world p)"
    and step: "phase_step le window places rounds c p = (x, p')"
  shows "good (le_round le) landed (ph_world p')"
proof (cases c)
  case StartBuy
  then show ?thesis using step g
    by (auto simp: phase_step_def Let_def split: list.splits if_splits prod.splits intro: good_kept [OF begin_kept])
next
  case (EndBuy i)
  then show ?thesis using step g
    by (auto simp: phase_step_def Let_def split: if_splits prod.splits intro: good_kept [OF end_kept])
next
  case NextRound
  show ?thesis
  proof (cases "ph_rounds p")
    case Nil
    then show ?thesis using step g NextRound by (simp add: phase_step_def)
  next
    case (Cons r rest)
    have t: "good (le_round le) landed (r_tick (ph_world p))" by (rule good_kept [OF _ g]) (simp add: sends_kept_def)
    have "ph_world p' = snd (one_round (le_round le) (le_cfg le) (le_loads le) False rounds r (r_tick (ph_world p)))"
      using step NextRound Cons by (auto simp: phase_step_def split: prod.splits)
    then show ?thesis using send_step_ok [OF laws send_step.one t] by simp
  qed
qed

lemma choices_good:
  assumes laws: "send_laws (le_round le) landed"
  shows "run_choices le window places rounds cs p = (x, p') \<Longrightarrow> good (le_round le) landed (ph_world p) \<Longrightarrow>
    good (le_round le) landed (ph_world p')"
proof (induction cs arbitrary: p)
  case (Cons c cs)
  obtain y p1 where s: "phase_step le window places rounds c p = (y, p1)" by fastforce
  have g: "good (le_round le) landed (ph_world p1)" by (rule phase_step_good [OF laws Cons.prems(2) s])
  show ?case
  proof (cases y)
    case None
    then have "run_choices le window places rounds cs p1 = (x, p')" using Cons.prems(1) s by simp
    from Cons.IH [OF this g] show ?thesis .
  qed (use Cons.prems(1) s g in simp)
qed simp

lemma buy_and_send_good:
  assumes laws: "send_laws (le_round le) landed" and g: "good (le_round le) landed w"
    and run: "buy_and_send le window places rounds choices plan w = (x, p)"
  shows "good (le_round le) landed (ph_world p)"
proof -
  let ?p0 = "\<lparr>ph_plan = plan, ph_buying = [], ph_rounds = [1..rounds], ph_world = w\<rparr>"
  obtain y p1 where s: "run_choices le window places rounds choices ?p0 = (y, p1)" by fastforce
  have g1: "good (le_round le) landed (ph_world p1)" by (rule choices_good [OF laws s]) (simp add: g)
  show ?thesis
  proof (cases y)
    case None
    then have "run_choices le window places rounds (rest_of p1) p1 = (x, p)" using run s by (simp add: buy_and_send_def)
    from choices_good [OF laws this g1] show ?thesis .
  qed (use run s g1 in \<open>simp add: buy_and_send_def\<close>)
qed

section \<open>The sweep, the last burns, the refunds\<close>

lemma revive_good:
  assumes g: "good env landed w"
  shows "good env landed (revive_one env i w)"
proof (cases "revivable (the_send i w)")
  case True
  let ?w = "up_send env i (\<lambda>r. r\<lparr>s_status := SPending\<rparr>) w"
  have "send_inv env landed ?w"
  proof (rule inv_up)
    fix r
    assume r: "sr i w = Some r" "rec_ok landed (batches i w) r"
    then have "s_status r = SAbandoned" using True by (auto simp: sr_def the_send_def revivable_def)
    then have "s_signature r = None" using r(2) by (auto simp: rec_ok_def split: option.splits)
    then show "rec_ok landed (batches i w) (r\<lparr>s_status := SPending\<rparr>)" by (intro rec_ok_status [OF r(2)]) simp_all
  qed (use g in \<open>simp_all add: good_def unstamped_def\<close>)
  moreover have "leaves w ?w" by (rule leaves_up) (simp add: fixed_def)
  moreover have "rw_sent ?w = rw_sent w" by (simp add: up_sent)
  ultimately have "good env landed ?w" using good_leaves g by blast
  then show ?thesis using True good_kept [OF metric_kept] by (simp add: revive_one_def)
qed (use g in \<open>simp add: revive_one_def\<close>)

lemma revive_all_good: "good env landed w \<Longrightarrow> good env landed (revivePendingSends env w)"
proof -
  have "good env landed w \<Longrightarrow> good env landed (fold (revive_one env) ids w)" for ids w
    by (induction ids arbitrary: w) (simp_all add: revive_good)
  then show "good env landed w \<Longrightarrow> ?thesis" by (simp add: revivePendingSends_def)
qed

lemma sweep_passes_good:
  assumes laws: "send_laws (le_round le) landed"
  shows "sweep_passes le first ds w = (x, w') \<Longrightarrow> good (le_round le) landed w \<Longrightarrow> good (le_round le) landed w'"
proof (induction ds arbitrary: first w)
  case (Cons d ds)
  let ?w1 = "if first then w else revivePendingSends (le_round le) w"
  obtain y w2 where e: "executeSendRounds (le_round le) (le_cfg le) (le_loads le) True 1 ?w1 = (y, w2)" by fastforce
  have g1: "good (le_round le) landed ?w1" using Cons.prems(2) revive_all_good by simp
  have g2: "good (le_round le) landed w2" using send_step_ok [OF laws send_step.run g1] e by (metis snd_conv)
  show ?case
  proof (cases "still_pending ?w1")
    case False
    then have "w' = ?w1" using Cons.prems(1) by (simp add: Let_def)
    with g1 show ?thesis by simp
  next
    case True
    then have "(case y of Some e \<Rightarrow> (Some e, w2) | None \<Rightarrow> sweep_passes le False ds w2) = (x, w')"
      using Cons.prems(1) e by (simp add: Let_def split: option.splits)
    then show ?thesis using Cons.IH [OF _ g2] g2 by (cases y) auto
  qed
qed simp

lemma sweep_good:
  assumes "send_laws (le_round le) landed" "good (le_round le) landed w" "sweep le w = (x, w')"
  shows "good (le_round le) landed w'"
  using assms sweep_passes_good [OF assms(1)] revive_all_good by (auto simp: sweep_def Let_def split: if_splits)

lemma finish_pass_kept: "finish_pass env loads mints still w = (x, w') \<Longrightarrow> sends_kept w w'"
proof (induction mints arbitrary: still w)
  case (Cons mnt mints)
  obtain result w1 where b: "burnDueFor env (loads (rw_step w)) mnt True w = (result, w1)" by fastforce
  have "sends_kept w w1" using burn_sends [of w env "loads (rw_step w)" mnt True] b by simp
  with Cons.IH Cons.prems b show ?case by (auto simp: Let_def intro: sends_kept_trans)
qed simp

lemma finish_kept: "finish_loop env loads ds mints w = (x, w') \<Longrightarrow> sends_kept w w'"
proof (induction ds arbitrary: mints w)
  case (Cons d ds)
  obtain e w1 where r: "refresh env loads mints w = (e, w1)" by fastforce
  obtain still w2 where f: "finish_pass env loads mints [] w1 = (still, w2)" by fastforce
  have k: "sends_kept w w1" by (rule refresh_kept_sends [OF r])
  show ?case
  proof (cases "mints = [] \<or> e \<noteq> None")
    case True
    then show ?thesis using Cons.prems r k by (auto split: if_splits)
  next
    case False
    then have "finish_loop env loads ds still w2 = (x, w')" using Cons.prems r f by (auto split: option.splits)
    from Cons.IH [OF this] k finish_pass_kept [OF f] show ?thesis by (blast intro: sends_kept_trans)
  qed
qed simp

lemma supply_kept: "sends_kept w (supply_at_end le mnt w)" "sends_kept w (supply_at_start le mnt w)"
  by (auto simp: supply_at_end_def supply_at_start_def sends_kept_def sure_def
      dest: buy_update_sends split: option.split sum.split)

lemma fold_kept:
  assumes "\<And>x w. sends_kept w (f x w)"
  shows "sends_kept w (fold f xs w)"
proof (induction xs arbitrary: w)
  case (Cons x xs)
  then show ?case using sends_kept_trans [OF assms [of w x]] by simp
qed simp


lemma finalize_kept: "sends_kept w (w\<lparr>rw_mgr := l_finalize now (rw_mgr w)\<rparr>)"
  by (simp add: sends_kept_def l_finalize_def)

definition base_kept :: "fworld \<Rightarrow> fworld \<Rightarrow> bool" where
  "base_kept f f' \<longleftrightarrow> sends_kept (fw_base f) (fw_base f')"

lemma base_kept_trans: "base_kept a b \<Longrightarrow> base_kept b c \<Longrightarrow> base_kept a c"
  by (auto simp: base_kept_def intro: sends_kept_trans)

lemma up_refund_kept [simp]: "base_kept f (up_refund env g i f)"
  by (auto simp: base_kept_def up_refund_def updateRefund_def intro!: mut_kept split: option.splits)

lemma up_refunds_kept: "base_kept f (fold (up_refund env g) js f)"
proof (induction js arbitrary: f)
  case (Cons i js)
  show ?case using base_kept_trans [OF up_refund_kept Cons.IH] by simp
qed (simp add: base_kept_def)

lemma check_signature_kept: "checkSignature env sig f = (x, f') \<Longrightarrow> base_kept f f'"
  by (auto simp: checkSignature_def ask_signature_def base_kept_def)

lemma settle_known_kept: "settle_known env js rdy f = (x, f') \<Longrightarrow> base_kept f f'"
proof (induction js arbitrary: rdy f)
  case (Cons i js)
  obtain l f1 where c: "checkSignature env (the (r_pending (the_refund i f))) f = (l, f1)" by fastforce
  have k: "base_kept f f1" by (rule check_signature_kept [OF c])
  show ?case
  proof (cases "truthy_string (r_pending (the_refund i f))")
    case True
    then consider (a) "l = Some True" | (b) "l = Some False" | (n) "l = None" by auto
    then show ?thesis
    proof cases
      case a
      from Cons.prems True c a
      have "settle_known env js rdy (up_refund env (\<lambda>q. q\<lparr>r_status := RCompleted,
          r_signature := r_pending (the_refund i f), r_pending := None\<rparr>) i f1) = (x, f')"
        by (simp add: Let_def)
      from Cons.IH [OF this] show ?thesis using base_kept_trans [OF k base_kept_trans [OF up_refund_kept]] by blast
    qed (use Cons True c in \<open>auto simp: Let_def intro: base_kept_trans [OF k]\<close>)
  qed (use Cons in \<open>simp add: Let_def\<close>)
qed (simp add: base_kept_def)

lemma send_refunds_kept: "send_refunds env tx rdy f = (x, f') \<Longrightarrow> base_kept f f'"
  by (auto simp: send_refunds_def sendTransaction_def base_kept_def Let_def split: sum.splits prod.splits)

lemma chunk_kept: "base_kept f (sendChunk env cfg chunk f)"
proof -
  obtain rdy f1 where s: "settle_known env chunk [] f = (rdy, f1)" by fastforce
  let ?f2 = "f1\<lparr>fw_base := r_tick (fw_base f1)\<rparr>"
  let ?tx = "refund_transaction (budgetInstructions cfg PathRefund (refundComputeUnits (of_nat (length rdy)))
    (re_price env (rw_step (fw_base f1))) None None) rdy ?f2"
  let ?f3 = "fold (up_refund env (\<lambda>r. r\<lparr>r_status := RInProgress, r_attempts := r_attempts r + 1\<rparr>)) rdy ?f2"
  obtain y f4 where d: "send_refunds env ?tx rdy ?f3 = (y, f4)" by fastforce
  have k1: "base_kept f f1" by (rule settle_known_kept [OF s])
  have t: "base_kept f1 ?f2" by (simp add: base_kept_def)
  have k: "base_kept f f4"
    by (rule base_kept_trans [OF k1 base_kept_trans [OF t base_kept_trans [OF up_refunds_kept send_refunds_kept [OF d]]]])
  have e: "sendChunk env cfg chunk f = (case y of
      Inr sig \<Rightarrow> fold (up_refund env (\<lambda>r. r\<lparr>r_status := RCompleted, r_signature := Some sig, r_pending := None\<rparr>)) rdy f4
    | Inl e \<Rightarrow> fold (up_refund env (\<lambda>r. r\<lparr>r_status := (if extractSignature e \<noteq> None then RInProgress else RFailed),
        r_pending := extractSignature e, r_error := Some (emsg e)\<rparr>)) rdy f4)" if "length rdy \<noteq> 0"
    unfolding sendChunk_def Let_def s prod.case d using that by simp
  show ?thesis
  proof (cases "length rdy = 0")
    case False
    show ?thesis unfolding e [OF False] using base_kept_trans [OF k up_refunds_kept] by (simp split: sum.split)
  qed (use s k1 in \<open>simp add: sendChunk_def Let_def\<close>)
qed

lemma chunks_kept: "base_kept f (fold (sendChunk env cfg) cs f)"
proof (induction cs arbitrary: f)
  case (Cons c cs)
  show ?case using base_kept_trans [OF chunk_kept Cons.IH] by simp
qed (simp add: base_kept_def)

lemma set_refunds_sends: "sends (lstate (setRefunds rs m)) = sends (lstate m)"
  by (simp add: setRefunds_def)

lemma refund_kept: "base_kept f (snd (refundUnspent env cfg ledger f))"
proof -
  have tick: "base_kept f (f\<lparr>fw_base := (r_tick (fw_base f))\<lparr>rw_mgr := setRefunds rs (rw_mgr (fw_base f))\<rparr>\<rparr>)" for rs
    by (simp add: base_kept_def sends_kept_def set_refunds_sends)
  have refl: "base_kept f f" by (simp add: base_kept_def)
  show ?thesis
    using tick refl chunks_kept base_kept_trans [OF tick chunks_kept]
    by (simp add: refundUnspent_def Let_def send_pending_def)
qed

lemma return_kept: "sends_kept (fw_base f) (fw_base (return_unspent le f))"
proof -
  have t: "base_kept f (f\<lparr>fw_base := r_tick (fw_base f)\<rparr>)" by (simp add: base_kept_def)
  have "base_kept f (return_unspent le f)"
    using t base_kept_trans [OF t refund_kept] by (simp add: return_unspent_def Let_def split: sum.split)
  then show ?thesis by (simp add: base_kept_def)
qed

section \<open>From the request to the close\<close>

lemma phase_two_good:
  assumes laws: "send_laws (le_round le) landed" and g: "good (le_round le) landed w"
    and run: "phase_two le window places rounds choices plan w = (x, p)"
  shows "good (le_round le) landed (ph_world p)"
proof -
  obtain y1 p1 where b: "buy_and_send le window places rounds choices plan w = (y1, p1)" by fastforce
  have g1: "good (le_round le) landed (ph_world p1)" by (rule buy_and_send_good [OF laws g b])
  obtain y2 w2 where s: "settleAfterBuying (le_round le) (le_loads le) (settle_balance (le_round le)) rounds (ph_world p1) = (y2, w2)"
    by fastforce
  have g2: "good (le_round le) landed w2" using send_step_ok [OF laws send_step.settle g1] s by (metis snd_conv)
  obtain y3 w3 where v: "sweep le w2 = (y3, w3)" by fastforce
  have g3: "good (le_round le) landed w3" by (rule sweep_good [OF laws g2 v])
  show ?thesis
  proof (cases y2)
    case (Inr settled)
    obtain y4 w4 where f: "finishBurns (le_round le) (le_loads le) (sr_burnsWaiting settled) w3 = (y4, w4)" by fastforce
    have g4: "good (le_round le) landed w4"
      using good_kept [OF finish_kept g3] f by (simp add: finishBurns_def)
    have g5: "good (le_round le) landed (fold (supply_at_end le) ms w4)" for ms
      by (rule good_kept [OF fold_kept g4]) (rule supply_kept)
    show ?thesis
      using run b s v f Inr g1 g3 g4 g5 by (auto simp: phase_two_def Let_def split: option.splits sum.splits)
  qed (use run b s g1 g2 in \<open>auto simp: phase_two_def Let_def split: option.splits\<close>)
qed

lemma run_good:
  assumes laws: "send_laws (le_round le) landed" and g: "good (le_round le) landed (fw_base f)"
    and run: "runBuyAndSend le window places rounds choices plan f = (x, p, f')"
  shows "good (le_round le) landed (fw_base f')"
proof -
  obtain y q where t: "phase_two le window places rounds choices plan (fw_base f) = (y, q)" by fastforce
  have "good (le_round le) landed (ph_world q)" by (rule phase_two_good [OF laws g t])
  then have "good (le_round le) landed (fw_base (return_unspent le (f\<lparr>fw_base := ph_world q\<rparr>)))"
    using good_kept [OF return_kept [of "f\<lparr>fw_base := ph_world q\<rparr>" le]] by simp
  then show ?thesis using run t good_kept [OF finalize_kept] by (auto simp: runBuyAndSend_def Let_def)
qed

lemma prepared_good:
  assumes "rw_sent w = []" "sends (lstate (rw_mgr w)) = prepared_sends now account n tokens"
  shows "good env landed w"
proof -
  have ids: "send_ids w = map s_id (sends (lstate (rw_mgr w)))" by (simp add: send_ids_def)
  have "topup_id k \<notin> set (send_ids w)" for k
  proof
    assume "topup_id k \<in> set (send_ids w)"
    then have "topup_id k \<in> set (map s_id (prepared_sends now account n tokens))" by (simp only: ids assms(2))
    then obtain j where "0 \<le> j" "topup_id k = ''send_'' @ show_nat j"
      unfolding prepared_sends_def using generated_numbered by blast
    then have j: "show_nat j = ''topup_'' @ show_nat k" "0 \<le> j" by (simp_all add: topup_id_def)
    then have "all_digits (show_nat j)" by (intro show_nat_digits)
    then show False by (simp add: j(1) all_digits_def is_digit_def)
  qed
  moreover have "distinct (send_ids w)" using assms(2) generated_ids by (simp add: ids prepared_sends_def)
  ultimately have "ids_ok w" using assms(1) by (simp add: ids_ok_def batches_def)
  moreover have "s_signature r = None \<and> s_pending r = None \<and> s_status r = SPending" if "sr j w = Some r" for j r
  proof -
    from that obtain q where "q \<in> set (sends (lstate (rw_mgr w)))" "r = bare q"
      by (auto simp: sr_def getSend_def dest: find_in)
    then show ?thesis using generated_fresh assms(2) by (auto simp: prepared_sends_def)
  qed
  ultimately show ?thesis using assms(1) by (auto simp: good_def send_inv_def rec_ok_def batches_def truthy_string_def)
qed

lemma round_good:
  assumes laws: "send_laws (le_round le) landed"
    and run: "executeLottery le i tokens cfg path choices = (x, p, f)"
  shows "good (le_round le) landed (fw_base f)"
proof -
  let ?st = "prepare_round (re_clock (le_round le) 0) (\<lambda>mnt wal. re_account (le_round le) 0 mnt wal) i tokens cfg"
  let ?w0 = "\<lparr>rw_mgr = l_create ?st (if truthy_string path then the path else getDefaultLotteryStatePath i),
    rw_step = 1, rw_signed = [], rw_sent = []\<rparr>"
  have "good (le_round le) landed ?w0"
    by (rule prepared_good) (simp_all add: l_create_def prepare_round_def Let_def)
  then have "good (le_round le) landed (fold (supply_at_start le) (map t_mint (tokenBuys ?st)) ?w0)"
    by (intro good_kept [OF fold_kept [where f = "supply_at_start le"]] supply_kept)
  from run_good [OF laws _ run [unfolded executeLottery_def Let_def]] this show ?thesis by simp
qed

text \<open>C3: a round pays every delivery at most once. Take any request, any order in which coins start,
  batches end and delivery rounds take place, whatever is thrown and wherever the run breaks off: when \<open>executeLottery\<close> is over, of
  all transactions signed for a delivery at most one lands, and a delivery recorded as completed
  carries the signature of one that did.\<close>

theorem whole_round_pays_once:
  assumes laws: "send_laws (le_round le) landed"
    and run: "executeLottery le i tokens cfg path choices = (x, p, f)"
    and j: "getSend j (rw_mgr (fw_base f)) = Some r"
  shows "(\<forall>s l s' l'. (s, l) \<in> batches j (fw_base f) \<and> (s', l') \<in> batches j (fw_base f) \<and> landed s \<and> landed s' \<longrightarrow> s = s') \<and>
    (s_status r = SCompleted \<longrightarrow> (\<exists>s l. s_signature r = Some s \<and> (s, l) \<in> batches j (fw_base f) \<and> landed s))"
  by (rule good_pays_once [OF round_good [OF laws run] j])

section \<open>A round that breaks off\<close>

text \<open>A node that cannot tell, after the preparation, whether the token account of a coin other than m
  exists, and a request of one backer for each coin.\<close>

definition broken_node :: round_env where
  "broken_node = a_node\<lparr>re_account := (\<lambda>n mnt _. if n = 0 \<or> mnt = ''m'' then Some True else None)\<rparr>"

definition quiet_outside :: outside where
  "quiet_outside = \<lparr>ask_buy = (\<lambda>_ _ _. \<lparr>ans_signed = [], ans_result = Inl (plain_error ''no route'')\<rparr>),
     ask_height = (\<lambda>_. Some 0), ask_status = (\<lambda>_ _. Some None), ask_balance = (\<lambda>_. None), clock = (\<lambda>n. 1000 + int n)\<rparr>"

definition broken_lottery :: lottery_env where
  "broken_lottery = \<lparr>le_round = broken_node,
     le_buy = (\<lambda>_. \<lparr>by_outside = quiet_outside, by_blockers = Inr [], by_hasAta = True, by_rnd1 = (\<lambda>_. 0),
       by_rnd2 = (\<lambda>_. 0), by_runId = ''run'', by_random = ''r''\<rparr>),
     le_supply = (\<lambda>_ _. None), le_loads = (\<lambda>_ _. None), le_cfg = (\<lambda>_. None)\<rparr>"

definition entry_of :: "mint \<Rightarrow> TokenEntry" where
  "entry_of mnt = \<lparr>te_mint = mnt, te_totalSol = 1, te_recipients =
     [\<lparr>ry_wallet = ''a'', ry_amount = 1, ry_lamports = Some ''1000000000'', ry_burnBps = None, ry_burnWeight = None\<rparr>]\<rparr>"

definition one_round_config :: LotteryConfig where
  "one_round_config = \<lparr>buyConcurrency = 1, sendConcurrency = 1, buyWindowMinutes = 10, sendRounds = 1\<rparr>"

definition broken_run :: "mint list \<Rightarrow> (js_error + LotterySummary) \<times> phase \<times> fworld" where
  "broken_run mints = executeLottery broken_lottery ''1'' (map entry_of mints) one_round_config None [StartBuy, NextRound]"

text \<open>The start of the run, and the two steps after which it breaks off.\<close>

definition begun :: "mint list \<Rightarrow> phase" where
  "begun mints = (let st = prepare_round 1000 (\<lambda>_ _. Some True) ''1'' (map entry_of mints) one_round_config in
     \<lparr>ph_plan = zip mints (map t_adjusted (tokenBuys st)), ph_buying = [], ph_rounds = [1],
      ph_world = \<lparr>rw_mgr = l_create st (getDefaultLotteryStatePath ''1''),
        rw_step = Suc (length (tokenBuys st)), rw_signed = [], rw_sent = []\<rparr>\<rparr>)"

definition broken_off :: "mint list \<Rightarrow> js_error option \<times> phase" where
  "broken_off mints =
     phase_step broken_lottery 10 1 1 NextRound (snd (phase_step broken_lottery 10 1 1 StartBuy (begun mints)))"

lemma supply_unread: "fold (supply_at_start broken_lottery) ms w = w\<lparr>rw_step := rw_step w + length ms\<rparr>"
  by (induction ms arbitrary: w) (simp_all add: supply_at_start_def broken_lottery_def r_tick_def)

lemma begun_run:
  "broken_run mints = runBuyAndSend broken_lottery 10 1 1 [StartBuy, NextRound] (ph_plan (begun mints))
     \<lparr>fw_base = ph_world (begun mints), fw_paid = []\<rparr>"
  unfolding broken_run_def executeLottery_def Let_def supply_unread
  by (simp add: begun_def Let_def one_round_config_def broken_lottery_def broken_node_def a_node_def
      truthy_string_def entry_of_def comp_def)

lemma start_goes_on: "fst (phase_step le window places rounds StartBuy p) = None"
  by (simp add: phase_step_def Let_def split: list.split prod.split)

lemma broken_phase:
  assumes "fst (broken_off mints) = Some e"
  shows "buy_and_send broken_lottery 10 1 1 [StartBuy, NextRound] (ph_plan (begun mints)) (ph_world (begun mints)) =
    (Some e, snd (broken_off mints))"
proof -
  have b: "\<lparr>ph_plan = ph_plan (begun mints), ph_buying = [], ph_rounds = [1], ph_world = ph_world (begun mints)\<rparr> = begun mints"
    by (simp add: begun_def Let_def)
  obtain p1 where s: "phase_step broken_lottery 10 1 1 StartBuy (begun mints) = (None, p1)"
    using start_goes_on [of broken_lottery 10 1 1 "begun mints"] by (metis prod.collapse)
  have "phase_step broken_lottery 10 1 1 NextRound p1 = (Some e, snd (broken_off mints))"
    using assms by (simp add: broken_off_def s prod_eq_iff)
  then show ?thesis by (simp add: buy_and_send_def b s)
qed

lemma broken_outcome:
  assumes "fst (broken_off mints) = Some e"
  obtains f where "broken_run mints = (Inl e, snd (broken_off mints), f)"
    "sends_kept (ph_world (snd (broken_off mints))) (fw_base f)"
proof -
  let ?p = "snd (broken_off mints)"
  let ?f = "return_unspent broken_lottery \<lparr>fw_base = ph_world ?p, fw_paid = []\<rparr>"
  let ?g = "?f\<lparr>fw_base := (fw_base ?f)\<lparr>rw_mgr := l_finalize (re_clock (le_round broken_lottery)
    (rw_step (fw_base ?f))) (rw_mgr (fw_base ?f))\<rparr>\<rparr>"
  have r: "broken_run mints = (Inl e, ?p, ?g)"
    by (simp add: begun_run runBuyAndSend_def phase_two_def broken_phase [OF assms] Let_def)
  have "sends_kept (ph_world ?p) (fw_base ?g)"
    using sends_kept_trans [OF return_kept [of "\<lparr>fw_base = ph_world ?p, fw_paid = []\<rparr>" broken_lottery] finalize_kept]
    by simp
  with r show ?thesis by (rule that)
qed

lemma broken_laws: "send_laws broken_node (\<lambda>_. True)"
proof -
  have "send_laws (a_node\<lparr>re_confirm := \<lambda>_ _. Inr None\<rparr>) (\<lambda>_. True)" by (rule a_node_send_laws) simp
  then have "send_laws a_node (\<lambda>_. True)" by (simp only: a_node_same)
  moreover have "sendSignedTransaction broken_node k sig limit = sendSignedTransaction a_node k sig limit" for k sig limit
    by (simp add: sendSignedTransaction_def broken_node_def split: sum.split option.split)
  ultimately show ?thesis
    unfolding send_laws_def by (simp add: broken_node_def node_sends_def reads_plain_def)
qed

lemma two_coins:
  "fst (broken_off [''m'', ''q'']) = Some (plain_error ''getAccountInfo'')"
  "map (\<lambda>s. (s_id s, s_status s)) (sends (lstate (rw_mgr (ph_world (snd (broken_off [''m'', ''q''])))))) =
    [(''send_1'', SCompleted), (''send_2'', SPending)]"
  by code_simp+

theorem whole_round_pays_once_witness:
  "case broken_run [''m'', ''q''] of (x, p, f) \<Rightarrow>
     \<exists>r s l. getSend ''send_1'' (rw_mgr (fw_base f)) = Some r \<and> s_status r = SCompleted \<and>
       s_signature r = Some s \<and> (s, l) \<in> batches ''send_1'' (fw_base f)"
proof -
  obtain f where f: "broken_run [''m'', ''q''] = (Inl (plain_error ''getAccountInfo''), snd (broken_off [''m'', ''q'']), f)"
    "sends_kept (ph_world (snd (broken_off [''m'', ''q'']))) (fw_base f)"
    using broken_outcome [OF two_coins(1)] .
  have "map (\<lambda>s. (s_id s, s_status s)) (sends (lstate (rw_mgr (fw_base f)))) = [(''send_1'', SCompleted), (''send_2'', SPending)]"
    using f(2) two_coins(2) by (simp add: sends_kept_def)
  then obtain r where r: "getSend ''send_1'' (rw_mgr (fw_base f)) = Some r" "s_status r = SCompleted"
    by (auto simp: getSend_def Cons_eq_map_conv)
  have "send_laws (le_round broken_lottery) (\<lambda>_. True)" by (simp add: broken_lottery_def broken_laws)
  from whole_round_pays_once [OF this f(1) [unfolded broken_run_def] r(1)] r f(1) show ?thesis by simp
qed


end
