(* ===== verification/Refund_Safety.thy ===== *)
theory Refund_Safety
  imports Refunds
begin

text \<open>
  What the refunds of a round can cost. First the arithmetic: the shares of a coin's remainder are
  rounded at every step, and still the lamports that go out never exceed the remainder, because the
  fee taken from each share is far above what the roundings can add. Then one pass of the sending.
\<close>

section \<open>How far the roundings can be off\<close>

lemma fl_upper: "0 \<le> q \<Longrightarrow> fl q \<le> q + q / 9007199254740992"
  using fl_error [of q] by linarith

lemma fl_near_upper: "0 \<le> q \<Longrightarrow> q \<le> 4000000 \<Longrightarrow> fl q \<le> q + 1 / 1000000000"
  using fl_upper [of q] by linarith

lemma fl_lower: "0 \<le> q \<Longrightarrow> q - q / 9007199254740992 \<le> fl q"
  using fl_error [of q] by linarith

lemma round9_near:
  assumes "0 \<le> v" "v \<le> 4000000"
  shows "\<bar>round9 v - v\<bar> \<le> 2 / 1000000000"
proof -
  let ?x = "fl (v * 1000000000)" and ?n = "of_int (js_round (fl (v * 1000000000))) :: rat"
  have x: "\<bar>?x - v * 1000000000\<bar> \<le> 1 / 2" using fl_error [of "v * 1000000000"] assms by linarith
  have n: "\<bar>?n - ?x\<bar> \<le> 1 / 2" unfolding js_round_def by linarith
  have "\<bar>?n / 1000000000\<bar> \<le> 4000001" using x n assms by linarith
  then have "\<bar>fl (?n / 1000000000) - ?n / 1000000000\<bar> \<le> 4000001 / 9007199254740992"
    using fl_error [of "?n / 1000000000"] by linarith
  then have "\<bar>fl (?n / 1000000000) - v\<bar> \<le> 2 / 1000000000" using x n by linarith
  then show ?thesis by (simp add: round9_def fmul_def fdiv_def)
qed

lemma round9_upper: "0 \<le> v \<Longrightarrow> v \<le> 4000000 \<Longrightarrow> round9 v \<le> v + 2 / 1000000000"
  and round9_lower: "0 \<le> v \<Longrightarrow> v \<le> 4000000 \<Longrightarrow> v - 2 / 1000000000 \<le> round9 v"
  using round9_near [of v] by linarith+

lemma stake_sum_snoc: "stake_sum (xs @ [x]) = fl (stake_sum xs + x)"
  by (simp add: stake_sum_def fadd_def)

lemma stake_sum_nonneg: "list_all (\<lambda>x. 0 \<le> x) xs \<Longrightarrow> 0 \<le> stake_sum xs"
proof (induction xs rule: rev_induct)
  case (snoc x xs)
  then show ?case by (simp add: stake_sum_snoc)
qed (simp add: stake_sum_def)

text \<open>Adding up in floating point loses at most one part in \<open>2^53\<close> per addition.\<close>

lemma stake_sum_lower:
  "list_all (\<lambda>x. 0 \<le> x) xs \<Longrightarrow> length xs \<le> 9007199254740992 \<Longrightarrow>
    sum_list xs * (1 - of_nat (length xs) / 9007199254740992) \<le> stake_sum xs"
proof (induction xs rule: rev_induct)
  case (snoc x xs)
  define u n where u: "u = (1 / 9007199254740992 :: rat)" and n: "n = (of_nat (length xs) :: rat)"
  have S: "0 \<le> sum_list xs" using snoc.prems(1) by (intro sum_list_nonneg) (simp add: list_all_iff)
  have x: "0 \<le> x" "0 \<le> stake_sum xs" using snoc.prems(1) stake_sum_nonneg by auto
  have IH: "sum_list xs * (1 - n * u) \<le> stake_sum xs" using snoc by (simp add: u n)
  have nn: "0 \<le> n" "0 \<le> u" "u \<le> 1" by (simp_all add: u n)
  have "(sum_list xs + x) * (1 - (n + 1) * u) \<le> (sum_list xs * (1 - n * u) + x) * (1 - u)"
  proof -
    have "(sum_list xs * (1 - n * u) + x) * (1 - u) - (sum_list xs + x) * (1 - (n + 1) * u) =
        sum_list xs * (n * u * u) + x * (n * u)" by (simp add: algebra_simps)
    moreover have "0 \<le> sum_list xs * (n * u * u) + x * (n * u)" using S x nn by simp
    ultimately show ?thesis by linarith
  qed
  also have "\<dots> \<le> (stake_sum xs + x) * (1 - u)" using IH nn by (intro mult_right_mono) simp_all
  also have "\<dots> \<le> fl (stake_sum xs + x)"
    using fl_lower [of "stake_sum xs + x"] x by (simp only: u right_diff_distrib) simp
  finally show ?case by (simp add: stake_sum_snoc u n algebra_simps)
qed (simp add: stake_sum_def)

section \<open>The shares of a coin\<close>

text \<open>What a backer's part of the remainder is before it is rounded to a lamport.\<close>

definition part_of :: "number \<Rightarrow> number \<Rightarrow> number \<Rightarrow> number" where
  "part_of unspent stake totStake = fdiv (fmul unspent stake) totStake"

lemma part_upper:
  assumes "0 \<le> U" "0 \<le> s" "0 < T"
  shows "part_of U s T \<le> U * s / T * (1 + 3 / 9007199254740992)"
proof -
  define u where u: "u = (1 / 9007199254740992 :: rat)"
  have u': "0 \<le> u" "u * u \<le> u" by (simp_all add: u)
  have up: "fl q \<le> q * (1 + u)" if "0 \<le> q" for q
    using fl_upper [OF that] by (simp add: u distrib_left)
  have "fl (U * s) / T \<le> U * s * (1 + u) / T" using up [of "U * s"] assms by (simp add: divide_right_mono)
  then have "fl (U * s) / T * (1 + u) \<le> U * s * (1 + u) / T * (1 + u)" using u' by (intro mult_right_mono) simp_all
  moreover have "part_of U s T \<le> fl (U * s) / T * (1 + u)"
    using up [of "fl (U * s) / T"] assms by (simp add: part_of_def fdiv_def fmul_def)
  ultimately have "part_of U s T \<le> U * s / T * ((1 + u) * (1 + u))" by (simp add: mult.assoc)
  also have "\<dots> \<le> U * s / T * (1 + 3 * u)"
    using assms u' by (intro mult_left_mono) (simp_all add: algebra_simps)
  finally show ?thesis by (simp add: u)
qed

lemma part_nonneg: "0 \<le> U \<Longrightarrow> 0 \<le> s \<Longrightarrow> 0 < T \<Longrightarrow> 0 \<le> part_of U s T"
  by (simp add: part_of_def fdiv_def fmul_def)

lemma sum_list_times: "sum_list (map (\<lambda>x. c * x) xs) = c * sum_list xs" for c :: rat
  by (induction xs) (simp_all add: distrib_left)

text \<open>Together the parts exceed the remainder by less than a hundred lamports.\<close>

lemma parts_sum:
  assumes s: "list_all (\<lambda>x. 0 \<le> x) ss" "ss \<noteq> []" and U: "0 \<le> U" "U \<le> 10000"
    and n: "length ss \<le> 10000" and T: "0 < stake_sum ss"
  shows "sum_list (map (\<lambda>x. part_of U x (stake_sum ss)) ss) \<le> U + 1 / 10000000"
proof -
  define k where k: "k = (1 + 3 / 9007199254740992 :: rat)"
  let ?T = "stake_sum ss" and ?S = "sum_list ss"
  have "sum_list (map (\<lambda>x. part_of U x ?T) ss) \<le> sum_list (map (\<lambda>x. U / ?T * k * x) ss)"
  proof (rule sum_list_mono)
    fix x
    assume "x \<in> set ss"
    then have "part_of U x ?T \<le> U * x / ?T * k"
      unfolding k using s(1) U T by (intro part_upper) (simp_all add: list_all_iff)
    then show "part_of U x ?T \<le> U / ?T * k * x" by (simp add: mult.commute mult.left_commute)
  qed
  also have "\<dots> = U / ?T * k * ?S" by (rule sum_list_times)
  also have "\<dots> = U * k * (?S / ?T)" by simp
  also have "\<dots> \<le> U * k * (1 + 1 / 500000000000)"
  proof (intro mult_left_mono)
    have S: "0 \<le> ?S" using s(1) by (intro sum_list_nonneg) (simp add: list_all_iff)
    have "(of_nat (length ss) :: rat) \<le> 10000" using n by simp
    then have "?S * (1 - 10000 / 9007199254740992) \<le> ?S * (1 - of_nat (length ss) / 9007199254740992)"
      using S by (intro mult_left_mono) simp_all
    also have "\<dots> \<le> ?T" using stake_sum_lower [OF s(1)] n by simp
    finally show "?S / ?T \<le> 1 + 1 / 500000000000"
      using T by (simp add: field_simps)
  qed (use U k in simp)
  also have "\<dots> \<le> U * (1 + 1 / 100000000000)" using U by (simp add: k mult_left_mono)
  also have "\<dots> \<le> U + 1 / 10000000" using U by (simp add: algebra_simps)
  finally show ?thesis .
qed

section \<open>The plan of a coin\<close>

lemma tx_fee_size: "9 / 1000000 \<le> TX_FEE_SOL" "TX_FEE_SOL \<le> 11 / 1000000"
  by code_simp+

lemma fee_size:
  assumes "0 < n" "n \<le> 10000"
  shows "8 / 10000000 \<le> per_recipient_fee n"
proof -
  let ?n = "of_nat n :: rat"
  define t where t: "t = (of_int (js_ceil (fdiv ?n 8)) :: rat)"
  have n: "0 < ?n" "1 \<le> ?n" "?n \<le> 10000" using assms by simp_all
  have d: "?n / 9 \<le> fdiv ?n 8" "fdiv ?n 8 \<le> ?n / 7"
    using fl_upper [of "?n / 8"] fl_lower [of "?n / 8"] n by (simp_all add: fdiv_def)
  have c: "fdiv ?n 8 \<le> t" "t < fdiv ?n 8 + 1" unfolding t js_ceil_def by linarith+
  have t9: "?n / 9 \<le> t" "t \<le> ?n * 2" "0 \<le> t" using d c n by linarith+
  define p where p: "p = fl (TX_FEE_SOL * t)"
  have pl: "9 / 1000000 * (?n / 9) \<le> TX_FEE_SOL * t" using tx_fee_size t9 n by (intro mult_mono) simp_all
  have pu: "TX_FEE_SOL * t \<le> 11 / 1000000 * (?n * 2)" using tx_fee_size t9 n by (intro mult_mono) simp_all
  have p0: "0 \<le> TX_FEE_SOL * t" using t9 by simp
  have p1: "?n / 1000000 * (9 / 10) \<le> p" "p \<le> ?n"
    using fl_lower [OF p0] fl_upper [OF p0] pl pu n by (simp_all add: p)
  have q: "9 / 10000000 \<le> p / ?n" "p / ?n \<le> 1" using p1 n by (simp_all add: field_simps)
  have r: "89 / 100000000 \<le> fl (p / ?n)" "fl (p / ?n) \<le> 2"
    using fl_lower [of "p / ?n"] fl_upper [of "p / ?n"] q by simp_all
  have "per_recipient_fee n = round9 (fl (p / ?n))"
    by (simp add: per_recipient_fee_def Let_def REFUND_BATCH_SIZE_def p t fdiv_def fmul_def)
  then show ?thesis using round9_lower [of "fl (p / ?n)"] r by simp
qed

text \<open>What is paid out to one backer: nothing, or at least 700 lamports less than its part.\<close>

lemma lamports_of_record:
  assumes v: "0 \<le> part_of U s T" "part_of U s T \<le> 20000" and f: "8 / 10000000 \<le> fee"
  shows "refund_lamports (plan_record now mnt U T fee (wal, s)) = 0 \<or>
    of_int (refund_lamports (plan_record now mnt U T fee (wal, s))) \<le> part_of U s T * 1000000000 - 700"
    (is "refund_lamports ?r = 0 \<or> _")
proof (cases "r_status ?r = RSkipped")
  case True
  then show ?thesis by (auto simp: plan_record_def Let_def refund_lamports_def fmul_def js_floor_def split: if_splits)
next
  case False
  let ?g = "gross_of U s T"
  let ?x = "fl (?g - fee)"
  have kept: "MIN_REFUND_SOL \<le> round9 ?x" "r_amount ?r = round9 ?x"
    using False by (auto simp: plan_record_def Let_def fsub_def split: if_splits)
  have g: "?g \<le> part_of U s T + 2 / 1000000000" "0 \<le> ?g"
    using round9_upper [of "part_of U s T"] v by (simp_all add: gross_of_def part_of_def)
  have pos: "0 < ?g - fee"
  proof (rule ccontr)
    assume "\<not> 0 < ?g - fee"
    then have "round9 ?x \<le> round9 0" by (intro round9_mono) (metis fl_0 fl_mono linorder_not_le)
    moreover have "0 < MIN_REFUND_SOL" by (simp add: MIN_REFUND_SOL_def)
    ultimately show False using kept(1) by simp
  qed
  have x: "?x \<le> part_of U s T - 7 / 10000000 - 90 / 1000000000"
  proof -
    have "?g - fee \<le> 20001" using g(1) v(2) f by linarith
    then have "?x \<le> ?g - fee + 1 / 1000000000" using pos by (intro fl_near_upper) simp_all
    then show ?thesis using g(1) f by linarith
  qed
  have x0: "0 \<le> ?x" using pos by simp
  have net: "round9 ?x \<le> part_of U s T - 7 / 10000000 - 80 / 1000000000"
    using round9_upper [OF x0] x v by linarith
  have net0: "0 \<le> round9 ?x" using x0 by simp
  have "of_int (js_floor (fl (round9 ?x * 1000000000))) \<le> fl (round9 ?x * 1000000000)"
    unfolding js_floor_def by simp
  also have "\<dots> \<le> part_of U s T * 1000000000 - 700"
    using fl_upper [of "round9 ?x * 1000000000"] net net0 v by (simp add: field_simps)
  finally show ?thesis by (simp add: refund_lamports_def kept(2) fmul_def)
qed

section \<open>The plan of a round\<close>

lemma sum_zero: "\<forall>r\<in>set rs. f r = (0 :: int) \<Longrightarrow> sum_list (map f rs) = 0"
  by (induction rs) simp_all

lemma paid_sum:
  fixes f :: "'a \<Rightarrow> int" and v :: "'a \<Rightarrow> rat"
  assumes "\<And>r. r \<in> set rs \<Longrightarrow> f r = 0 \<or> of_int (f r) \<le> v r * K - 700" "\<And>r. r \<in> set rs \<Longrightarrow> 0 \<le> v r" "0 \<le> K"
  shows "(\<forall>r\<in>set rs. f r = 0) \<or> of_int (sum_list (map f rs)) \<le> sum_list (map v rs) * K - 700"
  using assms(1,2)
proof (induction rs)
  case (Cons r rs)
  have v: "0 \<le> v r * K" "0 \<le> sum_list (map v rs) * K"
    using Cons.prems(2) assms(3) by (auto intro!: mult_nonneg_nonneg sum_list_nonneg)
  show ?case
  proof (cases "\<forall>r\<in>set rs. f r = 0")
    case True
    then have "sum_list (map f rs) = 0" by (rule sum_zero)
    then show ?thesis using Cons.prems(1) [of r] True v by (auto simp: distrib_right)
  next
    case False
    then have "of_int (sum_list (map f rs)) \<le> sum_list (map v rs) * K - 700" using Cons by auto
    then show ?thesis using Cons.prems(1) [of r] v by (auto simp: distrib_right)
  qed
qed simp

lemma coin_plan_paid:
  assumes ss: "list_all (\<lambda>x. 0 \<le> x) (jm_values recipients)" and n: "length recipients \<le> 10000" and U: "U \<le> 10000"
  shows "of_int (sum_list (map refund_lamports (coin_plan now mnt U recipients))) \<le> max 0 U * 1000000000"
proof (cases "U < MIN_UNSPENT_SOL \<or> length recipients = 0 \<or> stake_sum (jm_values recipients) \<le> 0")
  case False
  let ?T = "stake_sum (jm_values recipients)" and ?fee = "per_recipient_fee (length recipients)"
  let ?rec = "plan_record now mnt U ?T ?fee" and ?part = "\<lambda>r. part_of U (snd r) ?T"
  have plan: "coin_plan now mnt U recipients = map ?rec recipients"
    using False by (auto simp: coin_plan_def Let_def)
  have "0 \<le> MIN_UNSPENT_SOL" by (simp add: MIN_UNSPENT_SOL_def)
  then have U0: "0 \<le> U" using False by linarith
  have T: "0 < ?T" using False by simp
  have fee: "8 / 10000000 \<le> ?fee" using fee_size [of "length recipients"] False n by simp
  have parts: "sum_list (map ?part recipients) \<le> U + 1 / 10000000"
    using parts_sum [OF ss _ U0 U _ T] n False by (simp add: jm_values_def comp_def)
  have p0: "0 \<le> ?part r" if "r \<in> set recipients" for r
    using ss that U0 T by (intro part_nonneg) (auto simp: jm_values_def list_all_iff)
  have p1: "?part r \<le> 20000" if r: "r \<in> set recipients" for r
  proof -
    have "?part r \<le> sum_list (map ?part recipients)"
      using p0 r by (intro member_le_sum_list) (auto simp: jm_values_def)
    then show ?thesis using parts U by simp
  qed
  have each: "refund_lamports (?rec r) = 0 \<or> of_int (refund_lamports (?rec r)) \<le> ?part r * 1000000000 - 700"
    if "r \<in> set recipients" for r
    using lamports_of_record [OF p0 [OF that] p1 [OF that] fee, of now mnt "fst r"] by simp
  have "(\<forall>r\<in>set recipients. refund_lamports (?rec r) = 0) \<or>
      of_int (sum_list (map (\<lambda>r. refund_lamports (?rec r)) recipients)) \<le> sum_list (map ?part recipients) * 1000000000 - 700"
    using each p0 by (intro paid_sum) auto
  then show ?thesis
  proof
    assume "\<forall>r\<in>set recipients. refund_lamports (?rec r) = 0"
    then have "sum_list (map (\<lambda>r. refund_lamports (?rec r)) recipients) = 0" by (rule sum_zero)
    then show ?thesis using U0 by (simp add: plan comp_def)
  next
    assume "of_int (sum_list (map (\<lambda>r. refund_lamports (?rec r)) recipients)) \<le> sum_list (map ?part recipients) * 1000000000 - 700"
    with parts U0 show ?thesis by (simp add: plan comp_def)
  qed
qed (auto simp: coin_plan_def Let_def)

lemma update_values: "list_all P (map snd m) \<Longrightarrow> P v \<Longrightarrow> list_all P (map snd (AList.update k v m))"
  by (induction m) auto

lemma update_length: "length (AList.update k v m) \<le> Suc (length m)"
  by (induction m) auto

lemma stakes_ok:
  assumes "list_all (\<lambda>s. 0 \<le> sh_stake s) shares"
  shows "list_all (\<lambda>x. 0 \<le> x) (jm_values (stakes_of shares)) \<and> length (stakes_of shares) \<le> length shares"
  using assms unfolding stakes_of_def
proof (induction shares rule: rev_induct)
  case (snoc s shares)
  let ?m = "foldl (\<lambda>m s. jm_set (sh_wallet s) (fdiv (to_number (sh_stake s)) 1000000000) m) [] shares"
  have "0 \<le> fdiv (to_number (sh_stake s)) 1000000000"
    using snoc.prems by (auto simp: fdiv_def to_number_def)
  then have "list_all (\<lambda>x. 0 \<le> x) (jm_values (jm_set (sh_wallet s) (fdiv (to_number (sh_stake s)) 1000000000) ?m))"
    using snoc unfolding jm_values_def jm_set_def by (intro update_values) simp_all
  moreover have "length (jm_set (sh_wallet s) (fdiv (to_number (sh_stake s)) 1000000000) ?m) \<le> Suc (length shares)"
    using snoc update_length [of "sh_wallet s" "fdiv (to_number (sh_stake s)) 1000000000" ?m]
    by (auto simp: jm_set_def)
  ultimately show ?case by simp
qed (simp add: jm_values_def)

lemma stakes_get:
  "jm_get (foldl (\<lambda>byMint mnt. let shares = sharesOf st mnt in
      if length shares = 0 then byMint else jm_set mnt (stakes_of shares) byMint) m mnts) k =
    (if k \<in> set mnts \<and> sharesOf st k \<noteq> [] then Some (stakes_of (sharesOf st k)) else jm_get m k)"
  by (induction mnts arbitrary: m) (auto simp: jm_get_set Let_def)

lemma stakesByMint_ok:
  assumes "jm_get (stakesByMint st) k = Some recipients"
  shows "list_all (\<lambda>x. 0 \<le> x) (jm_values recipients) \<and> length recipients \<le> length (sharesOf st k)"
proof -
  have "recipients = stakes_of (sharesOf st k)"
    using assms stakes_get [of st "[]"] unfolding stakesByMint_def by (auto simp: jm_get_def split: if_splits)
  moreover have "list_all (\<lambda>s. 0 \<le> sh_stake s) (sharesOf st k)"
    using sharesOf_ok [of st k] by (auto simp: shares_ok_def list_all_iff share_ok_def)
  ultimately show ?thesis using stakes_ok by blast
qed

lemma filter_of_coin:
  assumes "distinct (map key ts)" "t \<in> set ts" "\<And>t r. r \<in> set (f t) \<Longrightarrow> g r = key t"
  shows "filter (\<lambda>r. g r = key t) (concat (map f ts)) = f t"
  using assms(1,2)
proof (induction ts)
  case (Cons x ts)
  have other: "filter (\<lambda>r. g r = key t) (concat (map f us)) = []" if "key t \<notin> key ` set us" for us
    using that assms(3) by (auto simp: filter_empty_conv) (metis image_eqI)
  have own: "filter (\<lambda>r. g r = key t) (f x) = (if key x = key t then f x else [])"
    using assms(3) [of _ x] by (auto simp: filter_id_conv filter_empty_conv)
  from Cons own other [of ts] show ?case by (auto split: if_splits)
qed simp

lemma coin_plan_mint: "r \<in> set (coin_plan now mnt U recipients) \<Longrightarrow> r_mint r = mnt"
  by (auto simp: coin_plan_def plan_record_def Let_def split: if_splits)

lemma plan_record_shape:
  "(r_status (plan_record now mnt U T fee r) = RPending \<and> MIN_REFUND_SOL \<le> r_amount (plan_record now mnt U T fee r)) \<or>
   (r_status (plan_record now mnt U T fee r) = RSkipped \<and> r_amount (plan_record now mnt U T fee r) = 0)"
  by (auto simp: plan_record_def Let_def)

text \<open>C11: the refunds of a coin never add up to more than what was left of its money. However the
  remainder is divided and rounded, the lamports of all transfers planned for the coin together stay
  within what was allocated to it less what it cost plus its share of the delivery reserve; and a
  planned refund is either one worth sending or one that is skipped with amount zero.\<close>

theorem refunds_covered:
  assumes coins: "distinct (map t_mint (tokenBuys st))" and t: "t \<in> set (tokenBuys st)"
    and size: "coin_unspent ledger t \<le> 10000" "length (sharesOf st (t_mint t)) \<le> 10000"
  shows "of_int (sum_list (map refund_lamports (filter (\<lambda>r. r_mint r = t_mint t) (planRefunds now st ledger)))) \<le>
      max 0 (coin_unspent ledger t) * 1000000000 \<and>
    list_all (\<lambda>r. r_status r = RPending \<and> MIN_REFUND_SOL \<le> r_amount r \<or> r_status r = RSkipped \<and> r_amount r = 0)
      (planRefunds now st ledger)"
proof
  let ?recipients = "\<lambda>t. case jm_get (stakesByMint st) (t_mint t) of Some r \<Rightarrow> r | None \<Rightarrow> []"
  have ok: "list_all (\<lambda>x. 0 \<le> x) (jm_values (?recipients t)) \<and> length (?recipients t) \<le> 10000"
    using stakesByMint_ok [of st "t_mint t"] size(2) by (auto simp: jm_values_def split: option.split)
  have "filter (\<lambda>r. r_mint r = t_mint t) (planRefunds now st ledger) =
      coin_plan now (t_mint t) (coin_unspent ledger t) (?recipients t)"
    unfolding planRefunds_def Let_def by (rule filter_of_coin [OF coins t]) (rule coin_plan_mint)
  with coin_plan_paid [of "?recipients t" "coin_unspent ledger t" now "t_mint t"] ok size(1)
  show "of_int (sum_list (map refund_lamports (filter (\<lambda>r. r_mint r = t_mint t) (planRefunds now st ledger)))) \<le>
      max 0 (coin_unspent ledger t) * 1000000000" by simp
  show "list_all (\<lambda>r. r_status r = RPending \<and> MIN_REFUND_SOL \<le> r_amount r \<or> r_status r = RSkipped \<and> r_amount r = 0)
      (planRefunds now st ledger)"
    using plan_record_shape by (auto simp: planRefunds_def Let_def coin_plan_def list_all_iff split: if_splits)
qed

theorem refunds_covered_witness:
  "coin_unspent [] a_coin = 1 \<and> length (sharesOf (lstate coin_read) ''m'') = 2 \<and>
   of_int (sum_list (map refund_lamports (filter (\<lambda>r. r_mint r = ''m'') (planRefunds 5 (lstate coin_read) [])))) \<le>
     (1000000000 :: rat)"
proof -
  have "tokenBuys (lstate coin_read) = [a_coin]" by (simp add: coin_read_def l_create_def)
  moreover have "t_mint a_coin = ''m''" by (simp add: a_coin_def)
  moreover have "coin_unspent [] a_coin = 1" by code_simp
  moreover have "length (sharesOf (lstate coin_read) ''m'') = 2" by code_simp
  ultimately show ?thesis
    using refunds_covered [of "lstate coin_read" a_coin "[]" 5] by simp
qed

end
