(* ===== verification/Refund_Pass.thy ===== *)
theory Refund_Pass
  imports Refund_Safety Send_Safety
begin

text \<open>
  One pass of returning the money: every refund that is open goes into at most one transaction, for
  the lamports its record says, and every other refund is left alone. Between passes the caution is
  weaker: a refund whose transaction was sent but not confirmed is asked about without the limit of
  its blockhash, and the last theorem shows what that can cost.
\<close>

section \<open>What a pass changes\<close>

text \<open>Records keep their identifier and amount; those outside \<open>ids\<close> are untouched.\<close>

definition refund_rel :: "string set \<Rightarrow> fworld \<Rightarrow> fworld \<Rightarrow> bool" where
  "refund_rel ids w w' \<longleftrightarrow> list_all2 (\<lambda>q q'. r_id q' = r_id q \<and> r_amount q' = r_amount q \<and> (r_id q \<notin> ids \<longrightarrow> q' = q))
     (all_refunds w) (all_refunds w')"

lemma refund_rel_refl [simp]: "refund_rel ids w w"
  by (simp add: refund_rel_def list_all2_refl)

lemma refund_rel_same: "all_refunds w' = all_refunds w \<Longrightarrow> refund_rel ids w w'"
  by (simp add: refund_rel_def list_all2_refl)

lemma refund_rel_trans: "refund_rel ids w w1 \<Longrightarrow> refund_rel ids w1 w2 \<Longrightarrow> refund_rel ids w w2"
  unfolding refund_rel_def by (erule list_all2_trans [rotated, rotated, where bs = "all_refunds w1"]) auto

lemma refund_rel_mono: "refund_rel ids w w' \<Longrightarrow> ids \<subseteq> ids' \<Longrightarrow> refund_rel ids' w w'"
  unfolding refund_rel_def by (erule list_all2_mono) auto

lemma refund_rel_keys:
  "refund_rel ids w w' \<Longrightarrow> map (\<lambda>q. (r_id q, r_amount q)) (all_refunds w') = map (\<lambda>q. (r_id q, r_amount q)) (all_refunds w)"
  unfolding refund_rel_def by (induction rule: list_all2_induct) auto

lemma refund_rel_ids: "refund_rel ids w w' \<Longrightarrow> map r_id (all_refunds w') = map r_id (all_refunds w)"
  using arg_cong [OF refund_rel_keys, of ids w w' "map fst"] by (simp add: comp_def)

lemma refund_rel_kept: "refund_rel ids w w' \<Longrightarrow> q \<in> set (all_refunds w) \<Longrightarrow> r_id q \<notin> ids \<Longrightarrow> q \<in> set (all_refunds w')"
  unfolding refund_rel_def by (induction rule: list_all2_induct) auto

lemma amount_of_keys:
  "map (\<lambda>q. (r_id q, r_amount q)) xs = map (\<lambda>q. (r_id q, r_amount q)) (ys :: RefundRecord list) \<Longrightarrow>
    r_amount (the (List.find (\<lambda>q. r_id q = i) (xs :: RefundRecord list))) = r_amount (the (List.find (\<lambda>q. r_id q = i) ys))"
proof (induction xs arbitrary: ys)
  case (Cons x xs)
  then show ?case by (cases ys) auto
qed simp

lemma refund_rel_lamports: "refund_rel ids w w' \<Longrightarrow> refund_lamports (the_refund i w') = refund_lamports (the_refund i w)"
  using amount_of_keys [OF refund_rel_keys, of ids w w' i]
  by (simp add: refund_lamports_def the_refund_def getRefund_def all_refunds_def)

lemma up_refund_rel:
  assumes "\<And>r. r_id (f r) = r_id r \<and> r_amount (f r) = r_amount r"
  shows "refund_rel {i} w (up_refund env f i w)"
proof (cases "getRefund i (rw_mgr (fw_base w))")
  case None
  then show ?thesis by (intro refund_rel_same) (simp add: all_refunds_def up_refund_def updateRefund_def)
next
  case (Some r)
  then have f: "List.find (\<lambda>q. r_id q = i) (all_refunds w) = Some r" "r_id r = i"
    by (auto simp: getRefund_def all_refunds_def elim: find_SomeE)
  show ?thesis
    unfolding refund_rel_def using Some upd_first_all2 [OF f(1)] f(2) assms
    by (simp add: all_refunds_def up_refund_def updateRefund_def)
qed

lemma up_refund_paid [simp]: "fw_paid (up_refund env f i w) = fw_paid w"
  by (simp add: up_refund_def)

lemma up_refunds_rel:
  assumes "\<And>r. r_id (f r) = r_id r \<and> r_amount (f r) = r_amount r"
  shows "refund_rel (set ids) w (fold (up_refund env f) ids w) \<and> fw_paid (fold (up_refund env f) ids w) = fw_paid w"
proof (induction ids arbitrary: w)
  case (Cons i ids)
  have "refund_rel (set (i # ids)) w (up_refund env f i w)"
    by (rule refund_rel_mono [OF up_refund_rel [OF assms]]) simp
  moreover have "refund_rel (set (i # ids)) (up_refund env f i w) (fold (up_refund env f) ids (up_refund env f i w))"
    by (rule refund_rel_mono [OF conjunct1 [OF Cons.IH]]) auto
  ultimately show ?case using Cons.IH refund_rel_trans by auto
qed simp

lemma settle_known_rel:
  "settle_known env ids acc w = (rest, w') \<Longrightarrow>
    refund_rel (set ids) w w' \<and> fw_paid w' = fw_paid w \<and> (\<exists>more. rest = acc @ more \<and> set more \<subseteq> set ids \<and> (distinct ids \<longrightarrow> distinct more))"
proof (induction ids arbitrary: acc w)
  case (Cons i ids)
  let ?sig = "the (r_pending (the_refund i w))"
  obtain landed w1 where c: "checkSignature env ?sig w = (landed, w1)" by fastforce
  have w1: "refund_rel (set (i # ids)) w w1" "fw_paid w1 = fw_paid w"
    using c by (auto simp: checkSignature_def ask_signature_def all_refunds_def intro: refund_rel_same)
  let ?up = "up_refund env (\<lambda>q. q\<lparr>r_status := RCompleted, r_signature := r_pending (the_refund i w), r_pending := None\<rparr>) i w1"
  have up: "refund_rel (set (i # ids)) w1 ?up"
    by (rule refund_rel_mono [OF up_refund_rel]) auto
  have step: "refund_rel (set (i # ids)) w w' \<and> fw_paid w' = fw_paid w \<and>
      (\<exists>more. rest = acc @ more \<and> set more \<subseteq> set (i # ids) \<and> (distinct (i # ids) \<longrightarrow> distinct more))"
    if "settle_known env ids (acc @ first) v = (rest, w')" "refund_rel (set (i # ids)) w v" "fw_paid v = fw_paid w"
      "first = [] \<or> first = [i]" for first v
  proof -
    from Cons.IH [OF that(1)] obtain more where IH: "refund_rel (set ids) v w'" "fw_paid w' = fw_paid v"
      "rest = (acc @ first) @ more" "set more \<subseteq> set ids" "distinct ids \<longrightarrow> distinct more" by blast
    have "refund_rel (set (i # ids)) v w'" by (rule refund_rel_mono [OF IH(1)]) auto
    with refund_rel_trans [OF that(2)] IH that(3,4) show ?thesis by fastforce
  qed
  show ?case
  proof (cases "truthy_string (r_pending (the_refund i w))")
    case False
    then show ?thesis using Cons.prems step [of "[i]" w] by simp
  next
    case True
    consider "landed = Some True" | "landed = Some False" | "landed = None" by (cases landed) auto
    then show ?thesis
    proof cases
      case 1
      then show ?thesis using Cons.prems True c step [of "[]" ?up] w1 refund_rel_trans [OF w1(1) up] by simp
    next
      case 2
      then show ?thesis using Cons.prems True c step [of "[i]" w1] w1 by simp
    next
      case 3
      then show ?thesis using Cons.prems True c step [of "[]" w1] w1 by simp
    qed
  qed
qed simp

section \<open>One transaction\<close>

text \<open>What a pass may add to the log: nothing, or one transaction for some of the chunk.\<close>

definition pays :: "fworld \<Rightarrow> string list \<Rightarrow> signed_batch list \<Rightarrow> bool" where
  "pays w chunk new \<longleftrightarrow> new = [] \<or>
     (\<exists>sig limit ids. new = [(sig, limit, map (\<lambda>i. (i, refund_lamports (the_refund i w))) ids)] \<and>
        set ids \<subseteq> set chunk \<and> (distinct chunk \<longrightarrow> distinct ids))"

lemma moved_lamports:
  "concat (map (\<lambda>ix. case ix of SystemTransfer _ lamports \<Rightarrow> [lamports] | _ \<Rightarrow> []) (refund_transaction budget ids w)) =
    map (\<lambda>i. refund_lamports (the_refund i w)) ids"
  by (simp add: refund_transaction_def comp_def)

lemma send_refunds_world:
  "send_refunds env (refund_transaction budget ids w2) ids w3 = (x, w4) \<Longrightarrow> refund_rel {} w3 w4 \<and>
    (\<exists>new. fw_paid w4 = fw_paid w3 @ new \<and>
      (new = [] \<or> (\<exists>sig limit. new = [(sig, limit, map (\<lambda>i. (i, refund_lamports (the_refund i w2))) ids)])))"
  unfolding send_refunds_def moved_lamports
  by (auto simp: sendTransaction_def Let_def zip_map2 zip_same_conv_map comp_def all_refunds_def intro!: refund_rel_same
      split: sum.splits prod.splits)

lemma sendChunk_pays:
  "refund_rel (set chunk) w (sendChunk env cfg chunk w) \<and>
    (\<exists>new. fw_paid (sendChunk env cfg chunk w) = fw_paid w @ new \<and> pays w chunk new)"
proof -
  obtain ids w1 where k: "settle_known env chunk [] w = (ids, w1)" by fastforce
  from settle_known_rel [OF k] have r1: "refund_rel (set chunk) w w1" "fw_paid w1 = fw_paid w"
    and ids: "set ids \<subseteq> set chunk" "distinct chunk \<longrightarrow> distinct ids" by auto
  show ?thesis
  proof (cases "ids = []")
    case True
    then show ?thesis using k r1 by (simp add: sendChunk_def pays_def)
  next
    case False
    let ?budget = "budgetInstructions cfg PathRefund (refundComputeUnits (of_nat (length ids)))
        (re_price env (rw_step (fw_base w1))) None None"
    let ?w2 = "w1\<lparr>fw_base := r_tick (fw_base w1)\<rparr>"
    let ?w3 = "fold (up_refund env (\<lambda>r. r\<lparr>r_status := RInProgress, r_attempts := r_attempts r + 1\<rparr>)) ids ?w2"
    obtain x w4 where s: "send_refunds env (refund_transaction ?budget ids ?w2) ids ?w3 = (x, w4)" by fastforce
    have r2: "refund_rel (set chunk) w1 ?w2" by (rule refund_rel_same) (simp add: all_refunds_def)
    have "refund_rel (set ids) ?w2 ?w3 \<and> fw_paid ?w3 = fw_paid ?w2" by (rule up_refunds_rel) simp
    then have r3: "refund_rel (set chunk) ?w2 ?w3" "fw_paid ?w3 = fw_paid w"
      using refund_rel_mono [OF _ ids(1)] r1(2) by auto
    from send_refunds_world [OF s] obtain new where r4: "refund_rel (set chunk) ?w3 w4" "fw_paid w4 = fw_paid ?w3 @ new"
      and new: "new = [] \<or> (\<exists>sig limit. new = [(sig, limit, map (\<lambda>i. (i, refund_lamports (the_refund i ?w2))) ids)])"
      using refund_rel_mono [of "{}" ?w3 w4 "set chunk"] by blast
    have to4: "refund_rel (set chunk) w w4"
      using r1(1) r2 r3(1) r4(1) by (blast intro: refund_rel_trans)
    have "refund_lamports (the_refund i ?w2) = refund_lamports (the_refund i w)" for i
      using refund_rel_lamports [OF refund_rel_trans [OF r1(1) r2]] .
    then have p: "pays w chunk new" using new ids by (auto simp: pays_def)
    have last: "refund_rel (set chunk) w (fold (up_refund env f) ids w4) \<and> fw_paid (fold (up_refund env f) ids w4) = fw_paid w @ new"
      if "\<And>r. r_id (f r) = r_id r \<and> r_amount (f r) = r_amount r" for f
      using up_refunds_rel [OF that, where ids = ids and w = w4] refund_rel_mono [OF _ ids(1)]
        refund_rel_trans [OF to4] r4(2) r3(2) by auto
    show ?thesis
    proof (cases x)
      case (Inl e)
      let ?f = "\<lambda>r. r\<lparr>r_status := if extractSignature e \<noteq> None then RInProgress else RFailed,
          r_pending := extractSignature e, r_error := Some (emsg e)\<rparr>"
      have "sendChunk env cfg chunk w = fold (up_refund env ?f) ids w4"
        using k False s Inl by (simp add: sendChunk_def Let_def)
      with last [of ?f] p show ?thesis by auto
    next
      case (Inr sig)
      let ?f = "\<lambda>r. r\<lparr>r_status := RCompleted, r_signature := Some sig, r_pending := None\<rparr>"
      have "sendChunk env cfg chunk w = fold (up_refund env ?f) ids w4"
        using k False s Inr by (simp add: sendChunk_def Let_def)
      with last [of ?f] p show ?thesis by auto
    qed
  qed
qed

section \<open>One pass\<close>

definition paid_ids :: "signed_batch list \<Rightarrow> string list" where
  "paid_ids new = concat (map (\<lambda>(sig, limit, parts). map fst parts) new)"

lemma pays_ids:
  "pays w chunk new \<Longrightarrow> set (paid_ids new) \<subseteq> set chunk \<and> (distinct chunk \<longrightarrow> distinct (paid_ids new)) \<and>
    (\<forall>(sig, limit, parts)\<in>set new. \<forall>(i, amount)\<in>set parts. i \<in> set chunk \<and> amount = refund_lamports (the_refund i w))"
  by (auto simp: pays_def paid_ids_def comp_def)

lemma pass_pays:
  "distinct (concat chunks) \<Longrightarrow> refund_rel (set (concat chunks)) w (fold (sendChunk env cfg) chunks w) \<and>
    (\<exists>new. fw_paid (fold (sendChunk env cfg) chunks w) = fw_paid w @ new \<and>
      set (paid_ids new) \<subseteq> set (concat chunks) \<and> distinct (paid_ids new) \<and>
      (\<forall>(sig, limit, parts)\<in>set new. \<forall>(i, amount)\<in>set parts. i \<in> set (concat chunks) \<and> amount = refund_lamports (the_refund i w)))"
proof (induction chunks arbitrary: w)
  case (Cons chunk chunks)
  let ?w1 = "sendChunk env cfg chunk w" and ?all = "set (concat (chunk # chunks))"
  let ?w2 = "fold (sendChunk env cfg) chunks ?w1"
  from sendChunk_pays obtain a where r1: "refund_rel (set chunk) w ?w1" and a: "fw_paid ?w1 = fw_paid w @ a" "pays w chunk a"
    by blast
  from Cons.IH [of ?w1] Cons.prems obtain b where r2: "refund_rel (set (concat chunks)) ?w1 ?w2"
    and b: "fw_paid ?w2 = fw_paid ?w1 @ b" "set (paid_ids b) \<subseteq> set (concat chunks)" "distinct (paid_ids b)"
      "\<forall>(sig, limit, parts)\<in>set b. \<forall>(i, amount)\<in>set parts. i \<in> set (concat chunks) \<and> amount = refund_lamports (the_refund i ?w1)"
    by auto
  have rel: "refund_rel ?all w ?w2"
    by (rule refund_rel_trans [of _ _ ?w1]) (auto intro: refund_rel_mono [OF r1] refund_rel_mono [OF r2])
  note ai = pays_ids [OF a(2)]
  have "paid_ids (a @ b) = paid_ids a @ paid_ids b" by (simp add: paid_ids_def)
  moreover have "distinct (paid_ids a @ paid_ids b)" "set (paid_ids a @ paid_ids b) \<subseteq> ?all"
    using ai b(2,3) Cons.prems by auto
  moreover have "\<forall>(sig, limit, parts)\<in>set (a @ b). \<forall>(i, amount)\<in>set parts. i \<in> ?all \<and> amount = refund_lamports (the_refund i w)"
    using ai b(4) refund_rel_lamports [OF r1] by fastforce
  moreover have "fw_paid ?w2 = fw_paid w @ (a @ b)" using a(1) b(1) by simp
  ultimately show ?case using rel by (intro conjI exI [of _ "a @ b"]) simp_all
qed (simp add: paid_ids_def)

section \<open>The records of a plan\<close>

lemma refund_id_inj:
  assumes "refund_id m r = refund_id m' r'" "CHR '':'' \<notin> set m" "CHR '':'' \<notin> set m'"
  shows "m = m' \<and> r = r'"
proof -
  have cut: "takeWhile (\<lambda>c. c \<noteq> CHR '':'') (refund_id x y) = x" if "CHR '':'' \<notin> set x" for x y
    unfolding refund_id_def by (subst takeWhile_append2) (use that in auto)
  have "m = m'" using cut [OF assms(2), of r] cut [OF assms(3), of r'] assms(1) by simp
  then show ?thesis using assms(1) by (simp add: refund_id_def)
qed

lemma stakes_distinct: "jm_get (stakesByMint st) k = Some recipients \<Longrightarrow> distinct (map fst recipients)"
proof -
  assume "jm_get (stakesByMint st) k = Some recipients"
  then have "recipients = stakes_of (sharesOf st k)"
    using stakes_get [of st "[]"] unfolding stakesByMint_def by (auto simp: jm_get_def split: if_splits)
  moreover have "distinct (map fst (stakes_of shares))" for shares
    unfolding stakes_of_def by (induction shares rule: rev_induct) simp_all
  ultimately show ?thesis by simp
qed

lemma coin_plan_ids: "map r_id (coin_plan now mnt U recipients) = [] \<or>
    map r_id (coin_plan now mnt U recipients) = map (\<lambda>r. refund_id mnt (fst r)) recipients"
  by (auto simp: coin_plan_def plan_record_def Let_def)

definition plain_mints :: "LotteryState \<Rightarrow> bool" where
  "plain_mints st \<longleftrightarrow> distinct (map t_mint (tokenBuys st)) \<and> list_all (\<lambda>t. CHR '':'' \<notin> set (t_mint t)) (tokenBuys st)"

lemma plan_ids_distinct:
  assumes "plain_mints st"
  shows "distinct (map r_id (planRefunds now st ledger))"
proof -
  let ?plan = "\<lambda>t. coin_plan now (t_mint t) (coin_unspent ledger t)
      (case jm_get (stakesByMint st) (t_mint t) of Some r \<Rightarrow> r | None \<Rightarrow> [])"
  have own: "distinct (map r_id (?plan t))" for t
  proof -
    have "distinct (map fst (case jm_get (stakesByMint st) (t_mint t) of Some r \<Rightarrow> r | None \<Rightarrow> []))"
      by (auto split: option.split dest: stakes_distinct)
    then have "distinct (map (refund_id (t_mint t)) (map fst (case jm_get (stakesByMint st) (t_mint t) of Some r \<Rightarrow> r | None \<Rightarrow> [])))"
      by (simp add: distinct_map inj_on_def refund_id_def)
    then show ?thesis
      using coin_plan_ids [of now "t_mint t" "coin_unspent ledger t"
          "case jm_get (stakesByMint st) (t_mint t) of Some r \<Rightarrow> r | None \<Rightarrow> []"]
      by (elim disjE) (simp_all only: list.map_comp comp_def distinct.simps)
  qed
  have shape: "\<exists>r. i = refund_id (t_mint t) r" if "i \<in> set (map r_id (?plan t))" for i t
    using that by (auto simp: coin_plan_def plan_record_def Let_def split: if_splits)
  have "distinct (map r_id (concat (map ?plan ts)))"
    if "distinct (map t_mint ts)" "list_all (\<lambda>t. CHR '':'' \<notin> set (t_mint t)) ts" for ts
    using that
  proof (induction ts)
    case (Cons t ts)
    have "set (map r_id (?plan t)) \<inter> set (map r_id (?plan t')) = {}" if "t' \<in> set ts" for t'
    proof -
      have "t_mint t \<notin> t_mint ` set ts" using Cons.prems(1) by simp
      then have n: "t_mint t' \<noteq> t_mint t" using imageI [OF that, of t_mint] by metis
      have "CHR '':'' \<notin> set (t_mint t')" "CHR '':'' \<notin> set (t_mint t)"
        using Cons.prems that by (auto simp: list_all_iff)
      note c = this
      show ?thesis
      proof (rule ccontr)
        assume "set (map r_id (?plan t)) \<inter> set (map r_id (?plan t')) \<noteq> {}"
        then obtain i where "i \<in> set (map r_id (?plan t))" "i \<in> set (map r_id (?plan t'))" by blast
        with shape obtain r r' where "i = refund_id (t_mint t) r" "i = refund_id (t_mint t') r'" by metis
        with refund_id_inj [of "t_mint t" r "t_mint t'" r'] c n show False by simp
      qed
    qed
    then have "set (map r_id (?plan t)) \<inter> set (map r_id (concat (map ?plan ts))) = {}" by fastforce
    then show ?case using Cons own [of t] by simp
  qed simp
  then show ?thesis using assms by (simp add: plain_mints_def planRefunds_def Let_def)
qed

text \<open>The records a call works on: those of the round, or a fresh plan.\<close>

definition refund_plan :: "round_env \<Rightarrow> (mint, RefundBasis) jmap \<Rightarrow> fworld \<Rightarrow> RefundRecord list" where
  "refund_plan env ledger w =
     (if all_refunds w = []
      then planRefunds (re_clock env (rw_step (fw_base w))) (lstate (rw_mgr (fw_base w))) ledger
      else all_refunds w)"

lemma send_pending_pays:
  assumes "distinct (map r_id (all_refunds w))"
  shows "refund_rel (set (map r_id (filter open_refund (all_refunds w)))) w (send_pending env cfg w) \<and>
    (\<exists>new. fw_paid (send_pending env cfg w) = fw_paid w @ new \<and> distinct (paid_ids new) \<and>
      (\<forall>(sig, limit, parts)\<in>set new. \<forall>(i, amount)\<in>set parts.
        \<exists>q\<in>set (all_refunds w). r_id q = i \<and> open_refund q \<and> amount = refund_lamports q))"
proof -
  let ?ids = "map r_id (filter open_refund (all_refunds w))"
  have d: "distinct (concat (portions REFUND_BATCH_SIZE ?ids))"
    using assms by (simp add: distinct_map_filter)
  have "\<exists>q\<in>set (all_refunds w). r_id q = i \<and> open_refund q \<and> refund_lamports (the_refund i w) = refund_lamports q"
    if "i \<in> set ?ids" for i
  proof -
    obtain q where q: "q \<in> set (all_refunds w)" "open_refund q" "r_id q = i" using \<open>i \<in> set ?ids\<close> by auto
    moreover have "List.find (\<lambda>x. r_id x = i) (all_refunds w) = Some q"
      using find_keyed [OF assms q(1)] q(3) by simp
    ultimately show ?thesis by (auto simp: the_refund_def getRefund_def all_refunds_def)
  qed
  with pass_pays [OF d, of w env cfg] show ?thesis unfolding send_pending_def by fastforce
qed

text \<open>C12: one call of \<open>refundUnspent\<close> pays each refund at most once. Every transfer it signs is for a
  refund that was open, for exactly the lamports of its record, no refund occurs twice in all
  transactions of the call, none is added or dropped, and a refund already completed, failed or
  skipped is neither paid nor changed.\<close>

theorem refund_once:
  assumes ids: "distinct (map r_id (all_refunds w))" and mints: "plain_mints (lstate (rw_mgr (fw_base w)))"
    and run: "refundUnspent env cfg ledger w = (summary, w')"
  shows "\<exists>new. fw_paid w' = fw_paid w @ new \<and> distinct (paid_ids new) \<and>
    (\<forall>(sig, limit, parts)\<in>set new. \<forall>(i, amount)\<in>set parts.
      \<exists>q\<in>set (refund_plan env ledger w). r_id q = i \<and> open_refund q \<and> amount = refund_lamports q) \<and>
    map r_id (all_refunds w') = map r_id (refund_plan env ledger w) \<and>
    (\<forall>q\<in>set (refund_plan env ledger w). \<not> open_refund q \<longrightarrow> q \<in> set (all_refunds w'))"
proof -
  let ?b = "fw_base w" and ?plan = "refund_plan env ledger w"
  let ?w1 = "if all_refunds w = [] then w\<lparr>fw_base := (r_tick ?b)\<lparr>rw_mgr := setRefunds ?plan (rw_mgr ?b)\<rparr>\<rparr> else w"
  have d: "distinct (map r_id ?plan)" using ids plan_ids_distinct [OF mints] by (simp add: refund_plan_def)
  show ?thesis
  proof (cases "?plan = []")
    case True
    then show ?thesis using run
      by (auto simp: refundUnspent_def Let_def refund_plan_def paid_ids_def split: if_splits)
  next
    case False
    have r1: "all_refunds ?w1 = ?plan" "fw_paid ?w1 = fw_paid w"
      by (auto simp: all_refunds_def setRefunds_def refund_plan_def)
    have w': "w' = (if filter open_refund ?plan = [] then ?w1 else send_pending env cfg ?w1)"
      using run False r1(1) unfolding refundUnspent_def Let_def refund_plan_def
      by (auto split: if_splits)
    show ?thesis
    proof (cases "filter open_refund ?plan = []")
      case True
      then have "w' = ?w1" using w' by simp
      then show ?thesis using r1 by (intro exI [of _ "[]"]) (auto simp: paid_ids_def)
    next
      case False
      then have "w' = send_pending env cfg ?w1" using w' by simp
      with send_pending_pays [of ?w1 env cfg] d r1 obtain new where
        rel: "refund_rel (set (map r_id (filter open_refund ?plan))) ?w1 w'"
        and new: "fw_paid w' = fw_paid w @ new" "distinct (paid_ids new)"
          "\<forall>(sig, limit, parts)\<in>set new. \<forall>(i, amount)\<in>set parts.
            \<exists>q\<in>set ?plan. r_id q = i \<and> open_refund q \<and> amount = refund_lamports q" by auto
      have "q \<in> set (all_refunds w')" if "q \<in> set ?plan" "\<not> open_refund q" for q
      proof (rule refund_rel_kept [OF rel])
        show "q \<in> set (all_refunds ?w1)" using that(1) r1(1) by simp
        show "r_id q \<notin> set (map r_id (filter open_refund ?plan))"
          using that d by (auto simp: distinct_map inj_on_def)
      qed
      then show ?thesis using new refund_rel_ids [OF rel] r1(1) by (intro exI [of _ new]) auto
    qed
  qed
qed

section \<open>A refund asked about too early\<close>

definition a_refund :: "wallet \<Rightarrow> RefundStatus \<Rightarrow> RefundRecord" where
  "a_refund wal status = \<lparr>r_id = refund_id ''m'' wal, r_mint = ''m'', r_recipient = wal, r_gross = 1, r_fee = 0,
     r_amount = 1, r_status = status, r_signature = None, r_pending = None, r_attempts = 0, r_error = None,
     r_updatedAt = 0\<rparr>"

definition refund_start :: fworld where
  "refund_start = \<lparr>fw_base = \<lparr>rw_mgr = l_create (empty_round\<lparr>refunds := [a_refund ''a'' RPending, a_refund ''b'' RFailed]\<rparr>) ''round.json'',
       rw_step = 0, rw_signed = [], rw_sent = []\<rparr>, fw_paid = []\<rparr>"

text \<open>The waiting for the first confirmation times out; the node has not seen the transaction yet.\<close>

definition late_node :: round_env where
  "late_node = a_node\<lparr>re_confirm := (\<lambda>_ sig. if length sig = 2 then Inl (plain_error ''block height exceeded'') else Inr None)\<rparr>"

definition first_pass :: fworld where
  "first_pass = snd (refundUnspent late_node (\<lambda>_. None) [] refund_start)"

definition second_pass :: fworld where
  "second_pass = snd (refundUnspent late_node (\<lambda>_. None) [] first_pass)"

lemma first_pass_paid:
  "map (\<lambda>(sig, limit, parts). (length sig, parts)) (fw_paid first_pass) = [(2, [(''m:a'', 1000000000)])]"
  by code_simp

theorem refund_once_witness:
  "map r_id (all_refunds first_pass) = [''m:a'', ''m:b''] \<and> a_refund ''b'' RFailed \<in> set (all_refunds first_pass)"
proof -
  have plan: "all_refunds refund_start = [a_refund ''a'' RPending, a_refund ''b'' RFailed]"
    by (simp add: all_refunds_def refund_start_def l_create_def)
  then have p: "refund_plan late_node [] refund_start = [a_refund ''a'' RPending, a_refund ''b'' RFailed]"
    by (simp add: refund_plan_def)
  have ids: "map r_id [a_refund ''a'' RPending, a_refund ''b'' RFailed] = [''m:a'', ''m:b'']" by code_simp
  have "plain_mints (lstate (rw_mgr (fw_base refund_start)))"
    by (simp add: plain_mints_def refund_start_def l_create_def empty_round_def)
  moreover have "distinct (map r_id (all_refunds refund_start))" unfolding plan ids by simp
  ultimately have "map r_id (all_refunds first_pass) = map r_id (refund_plan late_node [] refund_start) \<and>
      (\<forall>q\<in>set (refund_plan late_node [] refund_start). \<not> open_refund q \<longrightarrow> q \<in> set (all_refunds first_pass))"
    using refund_once [OF _ _ prod.collapse [symmetric], of refund_start late_node "\<lambda>_. None" "[]"] first_pass_def by metis
  moreover have "\<not> open_refund (a_refund ''b'' RFailed)" by (simp add: open_refund_def a_refund_def)
  ultimately show ?thesis unfolding p ids by simp
qed


end
