(* ===== verification/Concurrency.thy ===== *)
theory Concurrency
   imports Prelude
begin

text \<open>
  What keeps the parallel work of a round within its limits: the semaphore under which purchases and
  requests run (\<open>orchestrator/semaphore.ts\<close>) and the limiter that spaces the transactions sent to the
  node (\<open>solana/rateLimiter.ts\<close>). The semaphore is a state machine over the tasks that call \<open>use\<close>; the
  limiter is a function of the times at which it is called, refined to exact arithmetic on whole
  milliseconds.
\<close>

section \<open>The semaphore\<close>

text \<open>A waiting promise is the number of the task that waits for it.\<close>

record semaphore =
  sm_capacity :: int
  sm_active :: int
  sm_queue :: "nat list"

definition newSemaphore :: "int \<Rightarrow> string + semaphore" where
  "newSemaphore capacity =
     (if capacity < 1 then Inl ''Semaphore capacity must be >= 1''
      else Inr \<lparr>sm_capacity = capacity, sm_active = 0, sm_queue = []\<rparr>)"

text \<open>\<open>acquire\<close>: whether the promise is resolved at once.\<close>

definition sem_acquire :: "nat \<Rightarrow> semaphore \<Rightarrow> bool \<times> semaphore" where
  "sem_acquire task s =
     (if sm_active s < sm_capacity s then (True, s\<lparr>sm_active := sm_active s + 1\<rparr>)
      else (False, s\<lparr>sm_queue := sm_queue s @ [task]\<rparr>))"

text \<open>\<open>release\<close>: who is woken.\<close>

definition sem_release :: "semaphore \<Rightarrow> nat option \<times> semaphore" where
  "sem_release s =
     (case sm_queue s of
        next # rest \<Rightarrow> (Some next, s\<lparr>sm_queue := rest\<rparr>)
      | [] \<Rightarrow> (None, s\<lparr>sm_active := sm_active s - 1\<rparr>))"

text \<open>Tasks that call \<open>use\<close>: those running between \<open>acquire\<close> and \<open>release\<close>, and the order in which
  tasks were let in.\<close>

record pool =
  pl_sem :: semaphore
  pl_running :: "nat list"
  pl_entered :: "nat list"
  pl_called :: "nat list"

definition use_call :: "nat \<Rightarrow> pool \<Rightarrow> pool" where
  "use_call task p =
     (let (granted, s) = sem_acquire task (pl_sem p)
      in if granted
         then \<lparr>pl_sem = s, pl_running = pl_running p @ [task], pl_entered = pl_entered p @ [task], pl_called = pl_called p @ [task]\<rparr>
         else p\<lparr>pl_sem := s, pl_called := pl_called p @ [task]\<rparr>)"

text \<open>The function of a running task ends, with a value or by throwing: the \<open>finally\<close> releases.\<close>

definition use_end :: "nat \<Rightarrow> pool \<Rightarrow> pool" where
  "use_end task p =
     (let (woken, s) = sem_release (pl_sem p);
          rest = remove1 task (pl_running p)
      in case woken of
          Some next \<Rightarrow> p\<lparr>pl_sem := s, pl_running := rest @ [next], pl_entered := pl_entered p @ [next]\<rparr>
        | None \<Rightarrow> p\<lparr>pl_sem := s, pl_running := rest\<rparr>)"

inductive pool_step :: "pool \<Rightarrow> pool \<Rightarrow> bool" where
  call: "pool_step p (use_call task p)"
| ends: "task \<in> set (pl_running p) \<Longrightarrow> pool_step p (use_end task p)"

inductive end_step :: "pool \<Rightarrow> pool \<Rightarrow> bool" where
  "task \<in> set (pl_running p) \<Longrightarrow> end_step p (use_end task p)"

definition pool_start :: "semaphore \<Rightarrow> pool" where
  "pool_start s = \<lparr>pl_sem = s, pl_running = [], pl_entered = [], pl_called = []\<rparr>"

definition pool_ok :: "pool \<Rightarrow> bool" where
  "pool_ok p \<longleftrightarrow> 1 \<le> sm_capacity (pl_sem p) \<and>
     sm_active (pl_sem p) = int (length (pl_running p)) \<and>
     int (length (pl_running p)) \<le> sm_capacity (pl_sem p) \<and>
     (sm_queue (pl_sem p) \<noteq> [] \<longrightarrow> int (length (pl_running p)) = sm_capacity (pl_sem p)) \<and>
     pl_called p = pl_entered p @ sm_queue (pl_sem p)"

inductive_cases pool_stepE: "pool_step p p'"

lemma use_call_ok: "pool_ok p \<Longrightarrow> pool_ok (use_call task p)"
  by (auto simp: pool_ok_def use_call_def sem_acquire_def)

lemma use_end_ok:
  assumes "pool_ok p" "task \<in> set (pl_running p)"
  shows "pool_ok (use_end task p)"
proof -
  have "int (length (remove1 task (pl_running p))) = int (length (pl_running p)) - 1"
    using length_pos_if_in_set [OF assms(2)] assms(2) by (simp add: length_remove1 of_nat_diff Suc_leI del: length_greater_0_conv)
  then show ?thesis using assms(1)
    by (auto simp: pool_ok_def use_end_def sem_release_def split: list.splits)
qed

lemma end_call: "end_step p p' \<Longrightarrow> pl_called p' = pl_called p \<and> sm_capacity (pl_sem p') = sm_capacity (pl_sem p)"
  by (auto simp: use_end_def sem_release_def Let_def elim!: end_step.cases split: list.splits prod.splits option.splits)

lemma pool_reach:
  assumes "newSemaphore capacity = Inr s" "pool_step\<^sup>*\<^sup>* (pool_start s) p"
  shows "pool_ok p \<and> sm_capacity (pl_sem p) = capacity"
  using assms(2)
proof (induction rule: rtranclp_induct)
  case base
  show ?case using assms(1) by (auto simp: pool_ok_def pool_start_def newSemaphore_def split: if_splits)
next
  case (step p p')
  from step(2,3) show ?case
    by (auto elim!: pool_stepE intro: use_call_ok use_end_ok)
      (auto simp: use_call_def sem_acquire_def use_end_def sem_release_def Let_def split: list.splits prod.splits option.splits)
qed

text \<open>C31: the semaphore does what it is for. However tasks call it and end, never more than its
  capacity run at once; a task waits only while all places are taken; and tasks are let in strictly
  in the order of their calls, so none is overtaken or lost.\<close>

theorem semaphore_bound:
  assumes "newSemaphore capacity = Inr s" "pool_step\<^sup>*\<^sup>* (pool_start s) p"
  shows "int (length (pl_running p)) \<le> capacity \<and>
    (sm_queue (pl_sem p) \<noteq> [] \<longrightarrow> int (length (pl_running p)) = capacity) \<and>
    pl_called p = pl_entered p @ sm_queue (pl_sem p)"
  using pool_reach [OF assms] by (auto simp: pool_ok_def)

theorem semaphore_bound_witness:
  "pl_running (use_end 1 (use_call 3 (use_call 2 (use_call 1 (pool_start \<lparr>sm_capacity = 2, sm_active = 0, sm_queue = []\<rparr>))))) = [2, 3] \<and>
   int (length [2, 3 :: nat]) \<le> 2"
proof -
  let ?s = "\<lparr>sm_capacity = 2, sm_active = 0, sm_queue = []\<rparr>"
  let ?p = "use_call 3 (use_call 2 (use_call 1 (pool_start ?s)))"
  have "1 \<in> set (pl_running ?p)" by code_simp
  then have "pool_step\<^sup>*\<^sup>* (pool_start ?s) (use_end 1 ?p)"
    by (meson pool_step.intros rtranclp.rtrancl_into_rtrancl rtranclp.rtrancl_refl)
  moreover have "newSemaphore 2 = Inr ?s" by (simp add: newSemaphore_def)
  ultimately have "int (length (pl_running (use_end 1 ?p))) \<le> 2" using semaphore_bound by blast
  moreover have "pl_running (use_end 1 ?p) = [2, 3]" by code_simp
  ultimately show ?thesis by simp
qed

definition remaining :: "pool \<Rightarrow> nat" where
  "remaining p = length (pl_running p) + length (sm_queue (pl_sem p))"

lemma end_remaining:
  assumes "end_step p p'"
  shows "remaining p = Suc (remaining p')"
proof -
  obtain task where t: "task \<in> set (pl_running p)" "p' = use_end task p" using assms by (auto elim: end_step.cases)
  then have "length (pl_running p) = Suc (length (remove1 task (pl_running p)))"
    using length_pos_if_in_set [OF t(1)] by (simp add: length_remove1)
  then show ?thesis using t(2)
    by (auto simp: remaining_def use_end_def sem_release_def split: list.splits)
qed

text \<open>C32: nobody waits for ever. In any state the semaphore can reach, as long as a task is waiting some
  task runs, each end of a running task brings the work one step nearer its end whatever the order,
  and after as many ends as there are tasks left every task that ever called has been let in.\<close>

theorem semaphore_drains:
  assumes "newSemaphore capacity = Inr s" "pool_step\<^sup>*\<^sup>* (pool_start s) p"
  shows "(remaining p \<noteq> 0 \<longrightarrow> (\<exists>p'. end_step p p')) \<and>
    (\<forall>n p'. (end_step ^^ n) p p' \<longrightarrow> remaining p = n + remaining p') \<and>
    (\<forall>p'. (end_step ^^ remaining p) p p' \<longrightarrow> pl_running p' = [] \<and> pl_entered p' = pl_called p)"
proof (intro conjI impI allI)
  have ok: "pool_ok p" using pool_reach [OF assms] by simp
  show "\<exists>p'. end_step p p'" if "remaining p \<noteq> 0"
  proof -
    have "pl_running p \<noteq> []" using ok that by (auto simp: pool_ok_def remaining_def)
    then show ?thesis using end_step.intros [of "hd (pl_running p)" p] by auto
  qed
  have count: "remaining p = n + remaining p'" if "(end_step ^^ n) p p'" for n p'
    using that
  proof (induction n arbitrary: p')
    case (Suc n)
    then obtain y where "(end_step ^^ n) p y" "end_step y p'" by auto
    with Suc.IH end_remaining show ?case by fastforce
  qed simp
  then show "remaining p = n + remaining p'" if "(end_step ^^ n) p p'" for n p' using that by blast
  have keep: "pool_ok p' \<and> pl_called p' = pl_called p" if "(end_step ^^ n) p p'" for n p'
    using that
  proof (induction n arbitrary: p')
    case 0
    then show ?case using ok by simp
  next
    case (Suc n)
    then obtain y where y: "(end_step ^^ n) p y" "end_step y p'" by auto
    with Suc.IH end_call use_end_ok show ?case by (metis end_step.cases)
  qed
  show "pl_running p' = []" "pl_entered p' = pl_called p" if r: "(end_step ^^ remaining p) p p'" for p'
    using count [OF r] keep [OF r] by (auto simp: remaining_def pool_ok_def)
qed

theorem semaphore_drains_witness:
  "remaining (use_call 3 (use_call 2 (use_call 1 (pool_start \<lparr>sm_capacity = 2, sm_active = 0, sm_queue = []\<rparr>)))) = 3 \<and>
   (\<exists>p'. end_step (use_call 3 (use_call 2 (use_call 1 (pool_start \<lparr>sm_capacity = 2, sm_active = 0, sm_queue = []\<rparr>)))) p')"
proof -
  let ?s = "\<lparr>sm_capacity = 2, sm_active = 0, sm_queue = []\<rparr>"
  let ?p = "use_call 3 (use_call 2 (use_call 1 (pool_start ?s)))"
  have "pool_step\<^sup>*\<^sup>* (pool_start ?s) ?p"
    by (meson pool_step.intros rtranclp.rtrancl_into_rtrancl rtranclp.rtrancl_refl)
  moreover have "newSemaphore 2 = Inr ?s" by (simp add: newSemaphore_def)
  ultimately have "remaining ?p \<noteq> 0 \<longrightarrow> (\<exists>p'. end_step ?p p')" using semaphore_drains by blast
  moreover have "remaining ?p = 3" by code_simp
  ultimately show ?thesis by simp
qed

section \<open>The limiter of transactions\<close>

record limiter =
  rl_interval :: number
  rl_burst :: int
  rl_next :: number
  rl_granted :: int
  rl_waited :: int
  rl_totalWait :: number

text \<open>\<open>ratePerSecond\<close> is \<open>None\<close> where it is not finite.\<close>

definition newLimiter :: "number option \<Rightarrow> number option \<Rightarrow> limiter" where
  "newLimiter ratePerSecond burst =
     (let rate = (case ratePerSecond of Some r \<Rightarrow> (if 0 < r then r else 1) | None \<Rightarrow> 1)
      in \<lparr>rl_interval = fdiv 1000 rate, rl_burst = max 1 (js_floor (case burst of Some b \<Rightarrow> b | None \<Rightarrow> rate)),
          rl_next = 0, rl_granted = 0, rl_waited = 0, rl_totalWait = 0\<rparr>)"

text \<open>\<open>acquire\<close>: how long the caller waits. The place is taken at the call.\<close>

definition rl_acquire :: "millis \<Rightarrow> limiter \<Rightarrow> number \<times> limiter" where
  "rl_acquire now l =
     (let earliest = fsub (of_int now) (fmul (of_int (rl_burst l - 1)) (rl_interval l));
          slotAt = max (rl_next l) earliest;
          waitMs = max 0 (fsub slotAt (of_int now));
          l1 = l\<lparr>rl_next := fadd slotAt (rl_interval l), rl_granted := rl_granted l + 1\<rparr>
      in (waitMs, if 0 < waitMs
            then l1\<lparr>rl_waited := rl_waited l1 + 1, rl_totalWait := fadd (rl_totalWait l1) waitMs\<rparr>
            else l1))"

definition rl_stats :: "limiter \<Rightarrow> int \<times> int \<times> number \<times> number" where
  "rl_stats l = (rl_granted l, rl_waited l, rl_totalWait l, rl_interval l)"

definition rl_reset :: "limiter \<Rightarrow> limiter" where
  "rl_reset l = l\<lparr>rl_next := 0, rl_granted := 0, rl_waited := 0, rl_totalWait := 0\<rparr>"

text \<open>The moments at which callers proceed, for calls at the given times.\<close>

fun proceeds :: "millis list \<Rightarrow> limiter \<Rightarrow> number list" where
  "proceeds [] l = []"
| "proceeds (now # nows) l = (let (waitMs, l1) = rl_acquire now l in (of_int now + waitMs) # proceeds nows l1)"

section \<open>Whole milliseconds\<close>

text \<open>The slots in exact arithmetic, for an interval of \<open>d\<close> milliseconds.\<close>

fun slots :: "int \<Rightarrow> int \<Rightarrow> int \<Rightarrow> millis list \<Rightarrow> int list" where
  "slots d b next [] = []"
| "slots d b next (now # nows) = (let slotAt = max next (now - (b - 1) * d) in slotAt # slots d b (slotAt + d) nows)"

lemma fl_small: "\<bar>m\<bar> \<le> 9007199254740992 \<Longrightarrow> x = of_int m \<Longrightarrow> fl x = of_int m"
  using fl_of_int by simp

lemma acquire_exact:
  assumes l: "rl_interval l = of_int d" "rl_burst l = b" "rl_next l = of_int n"
    and d: "0 < d" "1 \<le> b" "b * d \<le> 4503599627370496" and now: "0 \<le> now" "now \<le> 4503599627370496"
    and n: "- 4503599627370496 \<le> n" "n + d \<le> 9007199254740992"
  shows "\<exists>l1. rl_acquire now l = (of_int (max now (max n (now - (b - 1) * d))) - of_int now, l1) \<and>
    rl_interval l1 = of_int d \<and> rl_burst l1 = b \<and> rl_next l1 = of_int (max n (now - (b - 1) * d) + d)"
proof -
  let ?s = "max n (now - (b - 1) * d)"
  have bd: "0 \<le> (b - 1) * d" "(b - 1) * d \<le> 4503599627370496"
    using d by (simp_all add: left_diff_distrib)
  have "fmul (of_int (b - 1)) (of_int d) = of_int ((b - 1) * d)"
    unfolding fmul_def by (rule fl_small) (use bd in simp_all)
  moreover have "fsub (of_int now) (of_int ((b - 1) * d)) = of_int (now - (b - 1) * d)"
    unfolding fsub_def by (rule fl_small) (use bd now in simp_all)
  ultimately have e: "fsub (of_int now) (fmul (of_int (b - 1)) (of_int d)) = of_int (now - (b - 1) * d)" by simp
  have s: "max (of_int n) (of_int (now - (b - 1) * d)) = (of_int ?s :: rat)" by (simp add: of_int_max)
  have small: "\<bar>?s - now\<bar> \<le> 9007199254740992" "\<bar>?s + d\<bar> \<le> 9007199254740992"
  proof -
    define e where "e = (b - 1) * d"
    moreover have "1 * d \<le> b * d" using d by (intro mult_right_mono) simp_all
    ultimately have "0 \<le> e" "e \<le> 4503599627370496" "d \<le> 4503599627370496" using bd d by linarith+
    then show "\<bar>max n (now - (b - 1) * d) - now\<bar> \<le> 9007199254740992" "\<bar>max n (now - (b - 1) * d) + d\<bar> \<le> 9007199254740992"
      unfolding \<open>e = _\<close> [symmetric] using n now d(1) by (auto simp: max_def abs_le_iff)
  qed
  have "fsub (of_int ?s) (of_int now) = of_int (?s - now)" "fadd (of_int ?s) (of_int d) = of_int (?s + d)"
    unfolding fsub_def fadd_def by (rule fl_small, use small in simp, simp)+
  then show ?thesis
    unfolding rl_acquire_def Let_def l e s by (auto simp: max_def l)
qed

lemma proceeds_exact:
  assumes "rl_interval l = of_int d" "rl_burst l = b" "rl_next l = of_int n"
    and "0 < d" "1 \<le> b" "b * d \<le> 4503599627370496"
    and "list_all (\<lambda>t. 0 \<le> t \<and> t \<le> 4503599627370496) nows"
    and "- 4503599627370496 \<le> n" "n + d * (int (length nows) + 1) \<le> 9007199254740992"
      "d * (int (length nows) + 1) \<le> 4503599627370496"
  shows "proceeds nows l = map2 (\<lambda>now s. of_int (max now s)) nows (slots d b n nows)"
  using assms
proof (induction nows arbitrary: l n)
  case (Cons now nows)
  let ?s = "max n (now - (b - 1) * d)"
  have nd: "n + d \<le> 9007199254740992"
  proof -
    have "d * 1 \<le> d * (int (length (now # nows)) + 1)" using Cons.prems(4) by (intro mult_left_mono) simp_all
    then show ?thesis using Cons.prems(9) by linarith
  qed
  obtain l1 where l1: "rl_acquire now l = (of_int (max now ?s) - of_int now, l1)"
    "rl_interval l1 = of_int d" "rl_burst l1 = b" "rl_next l1 = of_int (?s + d)"
    using acquire_exact [of l d b n now] Cons.prems nd by auto
  have bd: "0 \<le> (b - 1) * d" using Cons.prems(4,5) by simp
  have more: "d * (int (length (now # nows)) + 1) = d * (int (length nows) + 1) + d" by (simp add: distrib_left)
  have "proceeds nows l1 = map2 (\<lambda>now s. of_int (max now s)) nows (slots d b (?s + d) nows)"
  proof (rule Cons.IH [OF l1(2-4) Cons.prems(4-6)])
    show "?s + d + d * (int (length nows) + 1) \<le> 9007199254740992"
      using Cons.prems(7,9,10) more bd by auto
    show "- 4503599627370496 \<le> ?s + d" using Cons.prems(4,8) by linarith
    show "d * (int (length nows) + 1) \<le> 4503599627370496" using Cons.prems(4,10) more by linarith
  qed (use Cons.prems(7) in simp)
  then show ?case by (simp add: l1(1) Let_def)
qed simp

lemma slots_first: "i < length nows \<Longrightarrow> next + int i * d \<le> slots d b next nows ! i"
proof (induction nows arbitrary: i "next")
  case (Cons now nows)
  show ?case
  proof (cases i)
    case (Suc k)
    then show ?thesis using Cons.IH [of k "max next (now - (b - 1) * d) + d"] Cons.prems
      by (simp add: Let_def distrib_right)
  qed (simp add: Let_def)
qed simp

lemma slots_apart:
  "i \<le> j \<Longrightarrow> j < length nows \<Longrightarrow> slots d b next nows ! i + int (j - i) * d \<le> slots d b next nows ! j"
proof (induction nows arbitrary: i j "next")
  case (Cons now nows)
  let ?s = "max next (now - (b - 1) * d)"
  show ?case
  proof (cases i)
    case 0
    then show ?thesis
    proof (cases j)
      case (Suc k)
      then show ?thesis using 0 slots_first [of k nows "?s + d" d b] Cons.prems
        by (simp add: Let_def distrib_right)
    qed (simp add: Let_def)
  next
    case (Suc k)
    then obtain m where "j = Suc m" using Cons.prems(1) by (cases j) auto
    then show ?thesis using Suc Cons.IH [of k m "?s + d"] Cons.prems by (simp add: Let_def)
  qed
qed simp

lemma slots_length [simp]: "length (slots d b next nows) = length nows"
  by (induction nows arbitrary: "next") (simp_all add: Let_def)

lemma slots_reach: "i < length nows \<Longrightarrow> nows ! i - (b - 1) * d \<le> slots d b next nows ! i"
  by (induction nows arbitrary: i "next") (auto simp: Let_def nth_Cons split: nat.split)

text \<open>C33: the node is never sent more than its limit. Whenever callers come, of any two transactions let
  through by the limiter the later one goes out at least one interval after the earlier for every
  place between them, less the burst: in any window at most the burst more than its length in
  intervals. The rates for which an interval is a whole number of milliseconds are covered.\<close>

theorem rate_bound:
  assumes rate: "rl_interval l = of_int d" "rl_burst l = b" "rl_next l = 0" "0 < d" "1 \<le> b"
    and small: "b * d \<le> 4503599627370496" "d * (int (length nows) + 1) \<le> 4503599627370496"
      "list_all (\<lambda>t. 0 \<le> t \<and> t \<le> 4503599627370496) nows"
    and ij: "i \<le> j" "j < length nows"
  shows "proceeds nows l ! i + of_int ((int (j - i) - (b - 1)) * d) \<le> proceeds nows l ! j \<and>
    of_int (nows ! j) \<le> proceeds nows l ! j"
proof -
  let ?s = "slots d b 0 nows"
  have p: "proceeds nows l = map2 (\<lambda>now s. of_int (max now s)) nows ?s"
    using assms by (intro proceeds_exact) simp_all
  have at: "proceeds nows l ! k = of_int (max (nows ! k) (?s ! k))" if "k < length nows" for k
    using that by (simp add: p)
  have "0 \<le> (b - 1) * d" using rate(4,5) by simp
  then have "max (nows ! i) (?s ! i) \<le> ?s ! i + (b - 1) * d"
    using slots_reach [of i nows b d 0] ij by simp
  also have "\<dots> \<le> ?s ! j - int (j - i) * d + (b - 1) * d" using slots_apart [of i j nows d b 0] ij by simp
  finally have "max (nows ! i) (?s ! i) + (int (j - i) - (b - 1)) * d \<le> max (nows ! j) (?s ! j)"
    unfolding left_diff_distrib by linarith
  then show ?thesis using at [of i] at [of j] ij by (simp only: of_int_add [symmetric] of_int_le_iff) auto
qed

definition five_a_second :: limiter where "five_a_second = newLimiter (Some 5) (Some 2)"

definition three_calls :: "millis list" where "three_calls = [1000, 1000, 1000]"

theorem rate_bound_witness:
  "proceeds three_calls five_a_second = [1000, 1000, 1200] \<and>
   proceeds three_calls five_a_second ! 1 \<le> proceeds three_calls five_a_second ! 2"
proof -
  have l: "rl_interval five_a_second = of_int 200" "rl_burst five_a_second = 2" "rl_next five_a_second = 0" by code_simp+
  have c: "length three_calls = 3" "list_all (\<lambda>t. 0 \<le> t \<and> t \<le> 4503599627370496) three_calls"
    by (simp_all add: three_calls_def)
  have "proceeds three_calls five_a_second ! 1 + of_int ((int (2 - 1) - (2 - 1)) * 200) \<le> proceeds three_calls five_a_second ! 2"
    by (rule conjunct1 [OF rate_bound [OF l]]) (simp_all add: c)
  moreover have "proceeds three_calls five_a_second = map2 (\<lambda>now s. of_int (max now s)) three_calls (slots 200 2 0 three_calls)"
    by (rule proceeds_exact) (simp_all add: l c)
  then have "proceeds three_calls five_a_second = [1000, 1000, 1200]" by (simp add: three_calls_def Let_def)
  ultimately show ?thesis by simp
qed

end
