(* ===== verification/Spec2Isabelle.thy ===== *)
theory Spec2Isabelle
  imports Errors Timing Batch_Safety Router Deficit Burn_Safety Round_Safety Refund_Pass Concurrency
begin

text \<open>
  A verification library for the off-chain worker of the pumpling lottery (\<open>src/offchain\<close>). The
  worker takes the commits of a round, buys each coin with them in batches of small purchases, burns
  the part of the tokens the backers asked to burn, and delivers the rest in several rounds.

  Numbers. A JavaScript number is a rational rounded after every operation as binary64 does it
  (\<open>Jsnum\<close>); a \<open>bigint\<close>, and a decimal string that is only ever a \<open>bigint\<close>, is an
  \<open>int\<close>; a \<open>Map\<close> is an association list in insertion order (\<open>jmap\<close> of \<open>Prelude\<close>);
  JSON read from outside is the datatype of \<open>Json\<close>.

  The outside (the Solana node, the signer, the token library, clocks, random numbers) is a record of
  functions passed to the definitions: \<open>env\<close> in \<open>Batch\<close>, \<open>round_env\<close> in \<open>Round_World\<close>. Each
  answer is indexed by the number of answers given before it, so nothing is assumed to stay the same
  between two requests. Where a theorem needs more (a signature judged absent never lands later), the
  law is a named definition among its hypotheses (\<open>burn_laws\<close>, \<open>send_laws\<close>, \<open>node_true\<close>) and the
  witness of the theorem instantiates it.

  The theories and the files they model:
  \<^item> \<open>Errors\<close>: \<open>scheduler/errors.ts\<close>, the numbers of \<open>pumpfun/errors.ts\<close>, the error classes of
    \<open>solana/transaction.ts\<close>. How an error is classified.
  \<^item> \<open>Schedule\<close>, \<open>Timing\<close>: \<open>scheduler/slippage.ts\<close>, \<open>scheduler/fees.ts\<close>, \<open>scheduler/timing.ts\<close>.
    Bounds of tolerances, counts, amounts and times.
  \<^item> \<open>Batch_State\<close>, \<open>Batch\<close>: \<open>scheduler/state.ts\<close>, \<open>scheduler/batch.ts\<close>. \<open>Batch_Frame\<close>,
    \<open>Batch_End\<close>, \<open>Batch_Safety\<close> show that a batch ends with every purchase settled and that no purchase
    is made twice. The number of attempts is bounded by the constants of the code; the retry loop runs
    on the fuel computed from its window.
  \<^item> \<open>Router\<close>: \<open>buy.ts\<close>, a refinement of the contract a batch expects of a purchase path.
  \<^item> \<open>Outcome\<close>: \<open>solana/signatureOutcome.ts\<close>.
  \<^item> \<open>Lottery_State\<close>: \<open>orchestrator/state.ts\<close> and \<open>orchestrator/types.ts\<close>; its record stores are
    interpretations of one locale of \<open>Prelude\<close>.
  \<^item> \<open>Shares\<close>: \<open>orchestrator/shares.ts\<close>. What is owed to each wallet and to the burn.
  \<^item> \<open>Debits\<close>, \<open>Bought\<close>: \<open>solana/debits.ts\<close>, \<open>orchestrator/purchaseTokens.ts\<close>,
    \<open>orchestrator/batchFile.ts\<close>. How many tokens the purchases really brought.
  \<^item> \<open>Priority\<close>: \<open>solana/priorityFee.ts\<close>. The price of a place in the queue.
  \<^item> \<open>Round_World\<close>, \<open>Batch_Transfer\<close>: the world of a round, \<open>sendSignedTransaction\<close> and
    \<open>sendTransaction\<close> of \<open>solana/transaction.ts\<close>, \<open>orchestrator/batchTransfer.ts\<close>.
  \<^item> \<open>Burns\<close>: \<open>orchestrator/burns.ts\<close>; \<open>Burn_Safety\<close> follows a coin through calls and crashes.
  \<^item> \<open>Deficit\<close>, \<open>Sends\<close>: \<open>orchestrator/sendRounds.ts\<close>, the amounts and the loop. \<open>Send_Safety\<close> shows
    that a batch keeps the invariant of the deliveries, \<open>Send_Frame\<close> what a delivery leaves alone,
    \<open>Send_History\<close> carries the invariant through runs, settlements and crashes.
  \<^item> \<open>Settle\<close>: \<open>orchestrator/settle.ts\<close>; \<open>Top_Ups\<close> shows who gets a top-up and that nobody gets two.
  \<^item> \<open>Refund_Ledger\<close>, \<open>Refunds\<close>: \<open>orchestrator/refundLedger.ts\<close>, \<open>orchestrator/refunds.ts\<close>.
    \<open>Refund_Safety\<close> bounds the refunds of a coin by what was left of its money (at most ten thousand
    backers and ten thousand SOL a coin), \<open>Refund_Pass\<close> follows one call of the sending.
  \<^item> \<open>Preparation\<close>: \<open>orchestrator/fees.ts\<close> and the first phase of \<open>executeLottery\<close>; the stakes of a
    request come back from the round file unchanged.
  \<^item> \<open>Orchestrator\<close>: \<open>buyLoop\<close>, \<open>runBuyAndSend\<close>, \<open>executeLottery\<close> of \<open>orchestrator/orchestrator.ts\<close>.
    \<open>Round_Safety\<close> carries the invariant of the deliveries through a whole run, whatever the order of
    its steps and wherever it breaks off, and shows what a run that breaks off does to running purchases.
  \<^item> \<open>Concurrency\<close>: \<open>orchestrator/semaphore.ts\<close>, \<open>solana/rateLimiter.ts\<close>, as histories of calls.

  Ordering. In a run, coins start and end between delivery rounds in any order: the order is a list of
  choices, an argument of \<open>executeLottery\<close>. A batch of purchases keeps its own file and touches the
  round only when it starts and ends, so it is one step of the round. The delivery batches of one round
  run under a semaphore and touch disjoint records; the model runs them
  in the order they are started. Every write of a record is followed by the write of the file in the
  same step, as in the code, so a crash is modelled between two steps by reading the file again.

  Not modelled: log lines; the pauses between rounds and passes (timers without a decision); the building of the purchase transactions of the three
  venues (\<open>pumpfun\<close>, \<open>pumpswap\<close>, \<open>dex\<close>: account lists and calls of libraries, their contract is
  stated in \<open>Router\<close>); the web application (\<open>src/webapp\<close>), which is a user interface over HTTP
  services; tests and one-off scripts.
\<close>

end
